(* ===== verification/Go_Prelude.thy ===== *)
theory Go_Prelude
  imports Main "HOL-Library.Word" "HOL-Library.Signed_Division"
begin

text \<open>
  The vocabulary every component theory shares: Go's fixed-width integers, time and durations,
  error values with their wrapping chain, contexts, the run-time services a goroutine uses
  (clock, fresh UUIDs, timers, metrics), and the generic lemmas and fact collections the component
  proofs rest on. Nothing here models a file of the repository on its own, except the metric
  vectors of internal/platform/metrics and the request id of internal/platform/correlation.
\<close>

named_theorems go_defs \<open>definitions a component proof unfolds\<close>
named_theorems sint_simps \<open>signed arithmetic on words that does not wrap\<close>

section \<open>Machine integers, time, identifiers\<close>

text \<open>
  \<open>int32\<close>, \<open>int64\<close> and \<open>int\<close> (64 bits on the platforms the service is built for) are words read
  with \<open>sint\<close>. A \<open>time.Duration\<close> is an \<open>int64\<close> count of nanoseconds. A \<open>time.Time\<close> is the number of
  nanoseconds since the zero time (year 1, UTC), so \<open>IsZero\<close> is equality with 0; its range is not
  bounded here. A \<open>uuid.UUID\<close> is sixteen bytes, that is a 128 bit word, and \<open>uuid.Nil\<close> is 0.
\<close>

type_synonym int32 = "32 word"
type_synonym int64 = "64 word"
type_synonym duration = int64
type_synonym time = int
type_synonym uuid = "128 word"

definition uuid_nil :: uuid where
  "uuid_nil = 0"

definition max_int64 :: int64 where
  "max_int64 = push_bit 63 1 - 1"

text \<open>Go's \<open>/\<close> on \<open>int64\<close> truncates towards zero; every caller has checked the divisor.\<close>

definition quot64 :: "int64 \<Rightarrow> int64 \<Rightarrow> int64" where
  "quot64 a b = word_of_int (sint a sdiv sint b)"

definition smin :: "int64 \<Rightarrow> int64 \<Rightarrow> int64" where
  "smin a b = (if sint a \<le> sint b then a else b)"

definition smax :: "int64 \<Rightarrow> int64 \<Rightarrow> int64" where
  "smax a b = (if sint b \<le> sint a then a else b)"

text \<open>The unit constants of package \<open>time\<close>, in nanoseconds, and \<open>Time.Add\<close>.\<close>

definition millisecond :: duration where
  "millisecond = 1000000"

definition second :: duration where
  "second = 1000000000"

definition minute :: duration where
  "minute = 60 * second"

definition time_add :: "time \<Rightarrow> duration \<Rightarrow> time" where
  "time_add t d = t + sint d"

definition time_is_zero :: "time \<Rightarrow> bool" where
  "time_is_zero t \<longleftrightarrow> t = 0"

section \<open>Errors\<close>

text \<open>
  A Go error is a text and the chain of sentinel values that \<open>errors.Is\<close> finds in it
  (\<open>fmt.Errorf\<close> with the verb for wrapping extends the chain, \<open>errors.Join\<close> unites two). The text is
  a list of fragments, so that a quoted operand stays a value: how \<open>strconv.Quote\<close> and
  \<open>Duration.String\<close> render it is an argument of \<open>error_text\<close>.
\<close>

datatype sentinel =
    ErrNotFound | ErrInvalidRequest | ErrNoRows
  | ContextCanceled | ContextDeadlineExceeded | ErrServerClosed | IoEOF

datatype frag = Lit string | Quoted string | DurText duration

datatype goerr = GoErr (err_chain: "sentinel list") (err_frags: "frag list")

type_synonym 'a result = "goerr + 'a"

definition errors_is :: "goerr \<Rightarrow> sentinel \<Rightarrow> bool" where
  "errors_is e s \<longleftrightarrow> s \<in> set (err_chain e)"

definition errorf :: "frag list \<Rightarrow> goerr" where
  "errorf fs = GoErr [] fs"

definition wrapfs :: "frag list \<Rightarrow> goerr \<Rightarrow> goerr" where
  "wrapfs fs e = GoErr (err_chain e) (fs @ err_frags e)"

definition wrapf :: "string \<Rightarrow> goerr \<Rightarrow> goerr" where
  "wrapf prefix e = wrapfs [Lit prefix] e"

definition errors_join :: "goerr option \<Rightarrow> goerr \<Rightarrow> goerr" where
  "errors_join acc e = (case acc of None \<Rightarrow> e
     | Some a \<Rightarrow> GoErr (err_chain a @ err_chain e) (err_frags a @ Lit [CHR 0x0A] # err_frags e))"

primrec frag_text :: "(string \<Rightarrow> string) \<Rightarrow> (duration \<Rightarrow> string) \<Rightarrow> frag \<Rightarrow> string" where
  "frag_text q d (Lit s) = s"
| "frag_text q d (Quoted s) = q s"
| "frag_text q d (DurText t) = d t"

definition error_text :: "(string \<Rightarrow> string) \<Rightarrow> (duration \<Rightarrow> string) \<Rightarrow> goerr \<Rightarrow> string" where
  "error_text q d e = concat (map (frag_text q d) (err_frags e))"

definition ctx_canceled :: goerr where
  "ctx_canceled = GoErr [ContextCanceled] [Lit ''context canceled'']"

section \<open>Contexts, metrics and run-time services\<close>

text \<open>
  A context carries the timeouts that \<open>context.WithTimeout\<close> stacked on it and the request id of
  internal/platform/correlation. Whether it is done is a question to the run time, which knows the
  clock and the cancellations. \<open>'w\<close> is the world: everything outside the goroutine.
\<close>

record ctx =
  ctx_timeouts :: "duration list"
  ctx_request_id :: "string option"

definition background :: ctx where
  "background = \<lparr>ctx_timeouts = [], ctx_request_id = None\<rparr>"

definition with_timeout :: "ctx \<Rightarrow> duration \<Rightarrow> ctx" where
  "with_timeout c d = c\<lparr>ctx_timeouts := d # ctx_timeouts c\<rparr>"

definition WithRequestID :: "ctx \<Rightarrow> string \<Rightarrow> ctx" where
  "WithRequestID c rid = c\<lparr>ctx_request_id := Some rid\<rparr>"

definition RequestID :: "ctx \<Rightarrow> string" where
  "RequestID c = (case ctx_request_id c of Some rid \<Rightarrow> rid | None \<Rightarrow> '''')"

text \<open>The metric vectors of internal/platform/metrics that the modelled code updates.\<close>

datatype metric =
    KafkaProcessed string string
  | OutboxPublished string
  | OutboxPending int64
  | OrderProcessingDuration
  | HTTPRequests string string string
  | HTTPRequestDuration string string

text \<open>
  The run time: the clock, \<open>uuid.New\<close>, \<open>ctx.Err()\<close>, a timer raced against \<open>ctx.Done()\<close> (\<open>True\<close> when
  the timer fires first), and the metric registry.
\<close>

record 'w runtime =
  rt_now :: "'w \<Rightarrow> time \<times> 'w"
  rt_uuid :: "'w \<Rightarrow> uuid \<times> 'w"
  rt_ctx_err :: "ctx \<Rightarrow> 'w \<Rightarrow> goerr option"
  rt_timer :: "ctx \<Rightarrow> duration \<Rightarrow> 'w \<Rightarrow> bool \<times> 'w"
  rt_count :: "metric \<Rightarrow> 'w \<Rightarrow> 'w"

text \<open>
  Library functions the code calls and whose text formats are not modelled: \<open>strconv.Quote\<close>,
  \<open>Duration.String\<close>, the string form of google/uuid, and RFC 3339 times.
\<close>

record golib =
  lib_quote :: "string \<Rightarrow> string"
  lib_duration :: "duration \<Rightarrow> string"
  lib_uuid_string :: "uuid \<Rightarrow> string"
  lib_uuid_parse :: "string \<Rightarrow> uuid result"
  lib_time_format :: "time \<Rightarrow> string"
  lib_time_parse :: "string \<Rightarrow> time option"

definition err_string :: "('a) golib_scheme \<Rightarrow> goerr \<Rightarrow> string" where
  "err_string L e = error_text (lib_quote L) (lib_duration L) e"

section \<open>Shared lemmas\<close>

lemma sint_max_int64 [simp]: "sint max_int64 = 2 ^ 63 - 1"
  by (simp add: max_int64_def)

lemma sint_bounds64:
  fixes x :: int64
  shows "- (2 ^ 63) \<le> sint x" and "sint x \<le> 2 ^ 63 - 1"
  using sint_ge [of x] sint_lt [of x] by simp_all

lemma sint_bounds32:
  fixes x :: int32
  shows "- (2 ^ 31) \<le> sint x" and "sint x \<le> 2 ^ 31 - 1"
  using sint_ge [of x] sint_lt [of x] by simp_all

lemma sint_of_int64: "- (2 ^ 63) \<le> i \<Longrightarrow> i < 2 ^ 63 \<Longrightarrow> sint (word_of_int i :: int64) = i"
  by (simp add: sint_sbintrunc' signed_take_bit_int_eq_self)

lemma sint_add64 [sint_simps]:
  fixes a b :: int64
  assumes "- (2 ^ 63) \<le> sint a + sint b" and "sint a + sint b < 2 ^ 63"
  shows "sint (a + b) = sint a + sint b"
  using assms by (simp add: sint_word_add signed_take_bit_int_eq_self)

lemma sint_diff64 [sint_simps]:
  fixes a b :: int64
  assumes "- (2 ^ 63) \<le> sint a - sint b" and "sint a - sint b < 2 ^ 63"
  shows "sint (a - b) = sint a - sint b"
  using assms by (simp add: sint_word_diff signed_take_bit_int_eq_self)

lemma sint_mult64 [sint_simps]:
  fixes a b :: int64
  assumes "- (2 ^ 63) \<le> sint a * sint b" and "sint a * sint b < 2 ^ 63"
  shows "sint (a * b) = sint a * sint b"
  using assms by (simp add: sint_word_mult signed_take_bit_int_eq_self)

lemma sint_inject: "sint (x :: int64) = sint y \<longleftrightarrow> x = y"
  by (auto intro: signed_word_eqI)

lemma sint_scast32 [simp]: "sint (scast (x :: int32) :: int64) = sint x"
  by (rule sint_up_scast) (simp add: is_up_def source_size_def target_size_def word_size)

lemma sint_quot64:
  assumes "0 \<le> sint a" and "0 < sint b"
  shows "sint (quot64 a b) = sint a div sint b"
proof -
  have "sint a sdiv sint b = sint a div sint b"
    using assms by (cases "sint a = 0") (simp_all add: signed_divide_int_def)
  moreover have "0 \<le> sint a div sint b"
    using assms by (simp add: pos_imp_zdiv_nonneg_iff)
  moreover have "sint a div sint b \<le> sint a"
    using assms by (simp add: zdiv_mono2 [of "sint a" 1 "sint b", simplified])
  ultimately show ?thesis
    using sint_bounds64 [of a] by (simp add: quot64_def sint_of_int64)
qed

lemma le_div_iff_int:
  fixes p a q :: int
  assumes "0 < q"
  shows "p \<le> a div q \<longleftrightarrow> p * q \<le> a"
proof
  assume "p \<le> a div q"
  then have "p * q \<le> a div q * q" using assms by simp
  also have "\<dots> \<le> a" using assms by (simp add: minus_mod_eq_div_mult [symmetric])
  finally show "p * q \<le> a" .
next
  assume "p * q \<le> a"
  then have "p * q div q \<le> a div q" using assms by (rule zdiv_mono1)
  then show "p \<le> a div q" using assms by simp
qed

lemma sint_smin: "sint (smin a b) = min (sint a) (sint b)"
  by (simp add: smin_def)

lemma sint_smax: "sint (smax a b) = max (sint a) (sint b)"
  by (simp add: smax_def)

lemma sint_second [simp]: "sint second = 1000000000"
  by (simp add: second_def)

lemma sint_minute [simp]: "sint minute = 60000000000"
  by (simp add: minute_def second_def)

lemma errors_is_wrapfs [simp]: "errors_is (wrapfs fs e) s = errors_is e s"
  by (simp add: errors_is_def wrapfs_def)

lemma errors_is_wrapf [simp]: "errors_is (wrapf p e) s = errors_is e s"
  by (simp add: wrapf_def)

lemma errors_is_errorf [simp]: "\<not> errors_is (errorf fs) s"
  by (simp add: errors_is_def errorf_def)

lemma errors_is_join:
  "errors_is (errors_join acc e) s \<longleftrightarrow> (\<exists>a. acc = Some a \<and> errors_is a s) \<or> errors_is e s"
  by (cases acc) (auto simp: errors_is_def errors_join_def)

lemma RequestID_WithRequestID [simp]: "RequestID (WithRequestID c rid) = rid"
  by (simp add: RequestID_def WithRequestID_def)

lemma RequestID_with_timeout [simp]: "RequestID (with_timeout c d) = RequestID c"
  by (simp add: RequestID_def with_timeout_def)

end
