(* ===== verification/Go_Strings.thy ===== *)
theory Go_Strings
  imports Go_Prelude "HOL-Library.Char_ord" "HOL-Library.List_Lexorder"
begin

text \<open>
  What the service uses of Go's \<open>strings\<close>, \<open>strconv\<close> and \<open>unicode/utf8\<close>. A Go string is a sequence of
  bytes, so it is a HOL \<open>string\<close>; runes are decoded from it with the rules of \<open>utf8.DecodeRune\<close>, where an
  ill-formed byte is one rune of width 1. The order on strings is Go's bytewise order. The lemmas give
  the decimal round trip and the effect of trimming and splitting.
\<close>

section \<open>UTF-8\<close>

abbreviation byte :: "char \<Rightarrow> nat" where
  "byte c \<equiv> of_char c"

definition rune_error :: nat where
  "rune_error = 65533"

definition cont_byte :: "nat \<Rightarrow> bool" where
  "cont_byte b \<longleftrightarrow> 128 \<le> b \<and> b \<le> 191"

text \<open>The second byte of a three or four byte sequence has a range that depends on the first.\<close>

definition second_ok :: "nat \<Rightarrow> nat \<Rightarrow> bool" where
  "second_ok b0 b1 \<longleftrightarrow>
     (if b0 = 224 then 160 \<le> b1 \<and> b1 \<le> 191
      else if b0 = 237 then 128 \<le> b1 \<and> b1 \<le> 159
      else if b0 = 240 then 144 \<le> b1 \<and> b1 \<le> 191
      else if b0 = 244 then 128 \<le> b1 \<and> b1 \<le> 143
      else cont_byte b1)"

text \<open>
  The length a leading byte announces (0 for a byte that cannot lead), well-formedness of the sequence
  at the front of a string, and the decoder itself: a rune and its width.
\<close>

definition seq_len :: "nat \<Rightarrow> nat" where
  "seq_len b0 = (if b0 < 128 then 1 else if 194 \<le> b0 \<and> b0 \<le> 223 then 2
     else if 224 \<le> b0 \<and> b0 \<le> 239 then 3 else if 240 \<le> b0 \<and> b0 \<le> 244 then 4 else 0)"

definition lead_base :: "nat \<Rightarrow> nat" where
  "lead_base n = (if n = 2 then 192 else if n = 3 then 224 else if n = 4 then 240 else 0)"

definition seq_ok :: "string \<Rightarrow> bool" where
  "seq_ok s \<longleftrightarrow>
     (let n = seq_len (byte (hd s))
      in s \<noteq> [] \<and> 0 < n \<and> n \<le> length s \<and> (n = 1 \<or> second_ok (byte (hd s)) (byte (s ! 1)))
         \<and> list_all (\<lambda>c. cont_byte (byte c)) (drop 2 (take n s)))"

definition decode_rune :: "string \<Rightarrow> nat \<times> nat" where
  "decode_rune s =
     (if s = [] then (rune_error, 0)
      else if seq_ok s then
        (let n = seq_len (byte (hd s))
         in (foldl (\<lambda>v c. v * 64 + (byte c - 128)) (byte (hd s) - lead_base n) (tl (take n s)), n))
      else (rune_error, 1))"

lemma decode_rune_width: "s \<noteq> [] \<Longrightarrow> 1 \<le> snd (decode_rune s) \<and> snd (decode_rune s) \<le> length s"
  by (cases s) (auto simp: decode_rune_def seq_ok_def Let_def)

lemma decode_rune_pos: "s \<noteq> [] \<Longrightarrow> 0 < snd (decode_rune s)"
  using decode_rune_width [of s] by simp

text \<open>The runes of a string with the bytes each was decoded from: the loop \<open>for _, r := range s\<close>.\<close>

function runes :: "string \<Rightarrow> (nat \<times> string) list" where
  "runes s = (if s = [] then []
     else (fst (decode_rune s), take (snd (decode_rune s)) s) # runes (drop (snd (decode_rune s)) s))"
  by pat_completeness auto
termination
proof (relation "measure length")
  fix s :: string
  assume "s \<noteq> []"
  then show "(drop (snd (decode_rune s)) s, s) \<in> measure length"
    using decode_rune_pos [of s] by simp
qed simp

declare runes.simps [simp del]

text \<open>\<open>utf8.RuneCountInString\<close>, and validity: every ill-formed byte decodes to \<open>RuneError\<close> of width 1.\<close>

definition rune_count :: "string \<Rightarrow> nat" where
  "rune_count s = length (runes s)"

definition valid_utf8 :: "string \<Rightarrow> bool" where
  "valid_utf8 s \<longleftrightarrow> list_all (\<lambda>(r, bs). \<not> (r = rune_error \<and> length bs = 1)) (runes s)"

text \<open>\<open>unicode.IsSpace\<close>: the white space property.\<close>

definition is_space :: "nat \<Rightarrow> bool" where
  "is_space r \<longleftrightarrow> (9 \<le> r \<and> r \<le> 13) \<or> r = 32 \<or> r = 133 \<or> r = 160 \<or> r = 5760
     \<or> (8192 \<le> r \<and> r \<le> 8202) \<or> r = 8232 \<or> r = 8233 \<or> r = 8239 \<or> r = 8287 \<or> r = 12288"

text \<open>
  \<open>utf8.DecodeLastRune\<close>: the suffix of one to four bytes that is exactly one rune, or the last byte
  as an ill-formed rune.
\<close>

definition decode_last_rune :: "string \<Rightarrow> nat \<times> nat" where
  "decode_last_rune s =
     (case find (\<lambda>k. k \<le> length s \<and> snd (decode_rune (drop (length s - k) s)) = k) [1, 2, 3, 4] of
        None \<Rightarrow> (rune_error, 1)
      | Some k \<Rightarrow> (fst (decode_rune (drop (length s - k) s)), k))"

lemma find_SomeD: "find P xs = Some x \<Longrightarrow> x \<in> set xs \<and> P x"
  by (induction xs) (auto split: if_splits)

lemma decode_last_rune_pos: "0 < snd (decode_last_rune s)"
  by (auto simp: decode_last_rune_def split: option.split dest!: find_SomeD simp del: find.simps)

text \<open>\<open>strings.TrimSpace\<close>: leading runes forwards, trailing runes backwards.\<close>

function trim_left :: "string \<Rightarrow> string" where
  "trim_left s = (if s \<noteq> [] \<and> is_space (fst (decode_rune s))
     then trim_left (drop (snd (decode_rune s)) s) else s)"
  by pat_completeness auto
termination
  by (relation "measure length") (auto simp: decode_rune_pos)

function trim_right :: "string \<Rightarrow> string" where
  "trim_right s = (if s \<noteq> [] \<and> is_space (fst (decode_last_rune s))
     then trim_right (take (length s - snd (decode_last_rune s)) s) else s)"
  by pat_completeness auto
termination
  by (relation "measure length") (auto simp: decode_last_rune_pos)

declare trim_left.simps [simp del] trim_right.simps [simp del]

definition trim_space :: "string \<Rightarrow> string" where
  "trim_space s = trim_right (trim_left s)"

section \<open>Decimal integers\<close>

definition is_digit :: "char \<Rightarrow> bool" where
  "is_digit c \<longleftrightarrow> 48 \<le> byte c \<and> byte c \<le> 57"

fun nat_digits :: "nat \<Rightarrow> string" where
  "nat_digits n = (if n < 10 then [char_of (48 + n)] else nat_digits (n div 10) @ [char_of (48 + n mod 10)])"

declare nat_digits.simps [simp del]

text \<open>\<open>strconv.Itoa\<close> and \<open>strconv.Atoi\<close>: an optional sign, at least one digit, and the range of \<open>int\<close>.\<close>

definition itoa :: "int64 \<Rightarrow> string" where
  "itoa x = (if sint x < 0 then CHR ''-'' # nat_digits (nat (- sint x)) else nat_digits (nat (sint x)))"

definition digits_value :: "string \<Rightarrow> int" where
  "digits_value ds = foldl (\<lambda>v c. v * 10 + int (byte c - 48)) 0 ds"

definition atoi :: "string \<Rightarrow> int64 option" where
  "atoi s =
     (let neg = (s \<noteq> [] \<and> hd s = CHR ''-'');
          ds = (if s \<noteq> [] \<and> (hd s = CHR ''-'' \<or> hd s = CHR ''+'') then tl s else s);
          v = (if neg then - digits_value ds else digits_value ds)
      in if ds = [] \<or> \<not> list_all is_digit ds \<or> v < - (2 ^ 63) \<or> 2 ^ 63 \<le> v then None
         else Some (word_of_int v))"

section \<open>Splitting, joining, slicing\<close>

text \<open>\<open>strings.Split\<close> at a one byte separator, \<open>strings.Join\<close>, and \<open>value[:limit]\<close>.\<close>

fun split_on :: "char \<Rightarrow> string \<Rightarrow> string list" where
  "split_on sep [] = [[]]"
| "split_on sep (c # cs) =
     (if c = sep then [] # split_on sep cs
      else (case split_on sep cs of [] \<Rightarrow> [[c]] | p # ps \<Rightarrow> (c # p) # ps))"

fun join_with :: "string \<Rightarrow> string list \<Rightarrow> string" where
  "join_with sep [] = []"
| "join_with sep [x] = x"
| "join_with sep (x # y # ys) = x @ sep @ join_with sep (y # ys)"

section \<open>Lemmas on trimming\<close>

text \<open>
  Decoding looks at no more than the bytes of the rune; a byte inside a rune does not start one; so
  trimming a string whose ends are not white space changes nothing, and trimming is idempotent.
\<close>

lemma seq_ok_take:
  assumes "0 < k"
  shows "seq_ok (take k s) \<longleftrightarrow> seq_ok s \<and> seq_len (byte (hd s)) \<le> k"
proof (cases s)
  case (Cons c cs)
  have "seq_len (byte c) \<le> k \<Longrightarrow> take (seq_len (byte c)) (take k s) = take (seq_len (byte c)) s"
    by (simp add: min_absorb1)
  then show ?thesis
    using assms Cons by (cases "1 < k") (auto simp: seq_ok_def Let_def not_less le_Suc_eq Suc_le_eq)
qed (simp add: seq_ok_def)

lemma decode_rune_take:
  assumes "s \<noteq> []" and "snd (decode_rune s) \<le> k"
  shows "decode_rune (take k s) = decode_rune s"
proof -
  have k: "0 < k" using decode_rune_pos [OF assms(1)] assms(2) by simp
  have hd: "hd (take k s) = hd s" using k by (cases s; cases k) simp_all
  show ?thesis
    using assms k by (auto simp: decode_rune_def seq_ok_take hd Let_def min_absorb1 split: if_splits)
qed

lemma decode_rune_inside:
  assumes "0 < j" and "j < snd (decode_rune s)"
  shows "fst (decode_rune (drop j s)) = rune_error"
proof -
  have ok: "seq_ok s" and n: "snd (decode_rune s) = seq_len (byte (hd s))"
    using assms by (auto simp: decode_rune_def Let_def split: if_splits)
  have len: "j < length s"
    using assms(2) n ok by (simp add: seq_ok_def Let_def)
  have "cont_byte (byte (s ! j))"
  proof (cases "j = 1")
    case True
    then show ?thesis
      using assms ok n by (auto simp: seq_ok_def Let_def second_ok_def cont_byte_def split: if_splits)
  next
    case False
    have "list_all (\<lambda>c. cont_byte (byte c)) (drop 2 (take (seq_len (byte (hd s))) s))"
      using ok by (simp add: seq_ok_def Let_def)
    moreover have "2 + (j - 2) = j"
      using False assms(1) by simp
    then have "drop 2 (take (seq_len (byte (hd s))) s) ! (j - 2) = s ! j"
      using assms n len by (simp add: nth_drop del: add_2_eq_Suc)
    moreover have "j - 2 < length (drop 2 (take (seq_len (byte (hd s))) s))"
      using False assms n len by auto
    ultimately show ?thesis
      by (metis list_all_length)
  qed
  then have "\<not> seq_ok (drop j s)"
    using len by (simp add: seq_ok_def Let_def hd_drop_conv_nth seq_len_def cont_byte_def)
  then show ?thesis by (simp add: decode_rune_def)
qed

lemma not_space_rune_error [simp]: "\<not> is_space rune_error"
  by (simp add: is_space_def rune_error_def)

lemma decode_last_rune_space:
  assumes "is_space (fst (decode_last_rune s))"
  shows "snd (decode_last_rune s) \<le> length s
    \<and> decode_rune (drop (length s - snd (decode_last_rune s)) s) = decode_last_rune s"
  using assms
  by (auto simp: decode_last_rune_def prod_eq_iff split: option.splits dest!: find_SomeD simp del: find.simps)

lemma trim_right_keeps_first:
  "s \<noteq> [] \<Longrightarrow> \<not> is_space (fst (decode_rune s)) \<Longrightarrow>
     trim_right s \<noteq> [] \<and> decode_rune (trim_right s) = decode_rune s"
proof (induction s rule: trim_right.induct)
  case (1 s)
  show ?case
  proof (cases "is_space (fst (decode_last_rune s))")
    case True
    let ?m = "length s - snd (decode_last_rune s)"
    from True have last: "decode_rune (drop ?m s) = decode_last_rune s"
      by (simp add: decode_last_rune_space)
    have "snd (decode_rune s) \<le> ?m"
    proof (rule ccontr)
      assume "\<not> snd (decode_rune s) \<le> ?m"
      then show False
        using last True 1(3) decode_rune_inside [of ?m s] by (cases "?m = 0") auto
    qed
    then have "decode_rune (take ?m s) = decode_rune s" and "take ?m s \<noteq> []"
      using decode_rune_take [OF 1(2)] decode_rune_pos [OF 1(2)] by auto
    then show ?thesis
      using True 1 by (simp add: trim_right.simps [of s])
  qed (use 1 in \<open>simp add: trim_right.simps [of s]\<close>)
qed

lemma trim_left_first:
  "trim_left s = [] \<or> \<not> is_space (fst (decode_rune (trim_left s)))"
proof (induction s rule: trim_left.induct)
  case (1 s)
  then show ?case by (cases "s \<noteq> [] \<and> is_space (fst (decode_rune s))") (auto simp: trim_left.simps [of s])
qed

lemma trim_right_last:
  "trim_right s = [] \<or> \<not> is_space (fst (decode_last_rune (trim_right s)))"
proof (induction s rule: trim_right.induct)
  case (1 s)
  then show ?case
    by (cases "s \<noteq> [] \<and> is_space (fst (decode_last_rune s))") (auto simp: trim_right.simps [of s])
qed

lemma trim_right_nil [simp]: "trim_right [] = []"
  by (simp add: trim_right.simps)

lemma trim_left_fixed: "\<not> is_space (fst (decode_rune s)) \<Longrightarrow> trim_left s = s"
  by (simp add: trim_left.simps)

lemma trim_right_fixed: "\<not> is_space (fst (decode_last_rune s)) \<Longrightarrow> trim_right s = s"
  by (simp add: trim_right.simps)

lemma trim_space_idem [simp]: "trim_space (trim_space s) = trim_space s"
proof (cases "trim_left s = []")
  case True
  then show ?thesis by (simp add: trim_space_def trim_left.simps)
next
  case False
  then have "trim_right (trim_left s) \<noteq> []"
    and "\<not> is_space (fst (decode_rune (trim_right (trim_left s))))"
    using trim_right_keeps_first [of "trim_left s"] trim_left_first [of s] by auto
  then show ?thesis
    using trim_right_last [of "trim_left s"]
    by (simp add: trim_space_def trim_left_fixed trim_right_fixed)
qed

lemma trim_space_Nil [simp]: "trim_space [] = []"
  by (simp add: trim_space_def trim_left.simps)

text \<open>Strings of ASCII bytes, where runes are bytes; these rules evaluate literals.\<close>

lemma decode_rune_ascii: "s \<noteq> [] \<Longrightarrow> byte (hd s) < 128 \<Longrightarrow> decode_rune s = (byte (hd s), 1)"
  by (cases s) (auto simp: decode_rune_def seq_ok_def seq_len_def lead_base_def Let_def)

lemma decode_last_rune_ascii:
  assumes "s \<noteq> []" and "byte (last s) < 128"
  shows "decode_last_rune s = (byte (last s), 1)"
proof -
  have "drop (length s - 1) s = [last s]"
    using assms(1) by (metis append_butlast_last_id append_eq_conv_conj length_butlast)
  then show ?thesis
    using assms by (simp add: decode_last_rune_def decode_rune_ascii Suc_le_eq)
qed

lemma rune_count_ascii: "list_all (\<lambda>c. byte c < 128) s \<Longrightarrow> rune_count s = length s"
proof (induction s)
  case (Cons c s)
  then show ?case by (simp add: rune_count_def runes.simps [of "c # s"] decode_rune_ascii)
qed (simp add: rune_count_def runes.simps)

lemma valid_utf8_ascii: "list_all (\<lambda>c. byte c < 128) s \<Longrightarrow> valid_utf8 s"
proof (induction s)
  case (Cons c s)
  then show ?case
    by (simp add: valid_utf8_def runes.simps [of "c # s"] decode_rune_ascii rune_error_def)
qed (simp add: valid_utf8_def runes.simps)

lemma rune_count_pos: "s \<noteq> [] \<Longrightarrow> 1 \<le> rune_count s"
  by (simp add: rune_count_def runes.simps [of s])

lemma trim_space_ascii:
  "s \<noteq> [] \<Longrightarrow> byte (hd s) < 128 \<Longrightarrow> byte (last s) < 128 \<Longrightarrow> \<not> is_space (byte (hd s)) \<Longrightarrow>
     \<not> is_space (byte (last s)) \<Longrightarrow> trim_space s = s"
  by (simp add: trim_space_def trim_left_fixed trim_right_fixed decode_rune_ascii decode_last_rune_ascii)

lemmas ascii_simps = rune_count_ascii trim_space_ascii is_space_def

section \<open>Lemmas on decimal integers\<close>

lemma byte_char_of [simp]: "n < 256 \<Longrightarrow> byte (char_of n) = n"
  by (simp add: of_char_of)

lemma digits_value_append: "digits_value (ds @ [c]) = digits_value ds * 10 + int (byte c - 48)"
  by (simp add: digits_value_def)

lemma nat_digits_spec:
  "digits_value (nat_digits n) = int n \<and> list_all is_digit (nat_digits n) \<and> nat_digits n \<noteq> []"
proof (induction n rule: nat_digits.induct)
  case (1 n)
  show ?case
  proof (cases "n < 10")
    case True
    then show ?thesis
      by (simp add: nat_digits.simps [of n] digits_value_def is_digit_def)
  next
    case False
    have "int n = int (n div 10) * 10 + int (n mod 10)"
      by (simp add: zdiv_int zmod_int)
    with False 1 show ?thesis
      by (simp add: nat_digits.simps [of n] digits_value_append is_digit_def)
  qed
qed

lemma nat_digits_no_sign: "hd (nat_digits n) \<noteq> CHR ''-'' \<and> hd (nat_digits n) \<noteq> CHR ''+''"
proof -
  have "is_digit (hd (nat_digits n))"
    using nat_digits_spec [of n] by (cases "nat_digits n") auto
  then show ?thesis by (auto simp: is_digit_def)
qed

theorem atoi_itoa [simp]: "atoi (itoa x) = Some x"
proof (cases "sint x < 0")
  case True
  then show ?thesis
    using nat_digits_spec [of "nat (- sint x)"] sint_bounds64 [of x]
    by (simp add: atoi_def itoa_def Let_def)
next
  case False
  then show ?thesis
    using nat_digits_spec [of "nat (sint x)"] nat_digits_no_sign [of "nat (sint x)"] sint_bounds64 [of x]
    by (simp add: atoi_def itoa_def Let_def)
qed

end
