(* ===== verification/Order_Model.thy ===== *)
theory Order_Model
  imports Go_Strings
begin

text \<open>
  internal/order/model.go: the order aggregate, the validation of a create command with its checked
  \<open>int64\<close> total, and the event payloads. The random id and the clock reading of \<open>New\<close> are arguments.
  The lemmas say exactly which commands are accepted, that an accepted total is the mathematical sum,
  and that what \<open>New\<close> builds passes the validation the consumer repeats.
\<close>

section \<open>Data\<close>

type_synonym status = string

definition StatusPending :: status where "StatusPending = ''PENDING''"
definition StatusConfirmed :: status where "StatusConfirmed = ''CONFIRMED''"
definition StatusFailed :: status where "StatusFailed = ''FAILED''"
definition CurrencyRUB :: string where "CurrencyRUB = ''RUB''"

lemmas status_defs = StatusPending_def StatusConfirmed_def StatusFailed_def CurrencyRUB_def

record item =
  SKU :: string
  Quantity :: int32
  UnitPriceMinor :: int64

record order =
  order_ID :: uuid
  order_CustomerID :: uuid
  order_WarehouseID :: uuid
  order_Status :: status
  order_Currency :: string
  order_TotalAmountMinor :: int64
  order_Items :: "item list"
  order_CreatedAt :: time
  order_UpdatedAt :: time

record create_command =
  cmd_CustomerID :: uuid
  cmd_WarehouseID :: uuid
  cmd_Items :: "item list"

record created_payload =
  cp_CustomerID :: uuid
  cp_WarehouseID :: uuid
  cp_Currency :: string
  cp_TotalAmountMinor :: int64
  cp_Items :: "item list"

record status_changed_payload =
  scp_PreviousStatus :: status
  scp_CurrentStatus :: status
  scp_Reason :: string

section \<open>Operations\<close>

definition invalid_request :: "frag list \<Rightarrow> goerr" where
  "invalid_request fs = GoErr [ErrInvalidRequest] (Lit ''invalid order request: '' # fs)"

text \<open>The loop of \<open>validate\<close>: \<open>seen\<close> is the set of SKUs so far, \<open>tot\<close> the running sum.\<close>

fun validate_items :: "string set \<Rightarrow> int64 \<Rightarrow> item list \<Rightarrow> int64 result" where
  "validate_items seen tot [] = Inr tot"
| "validate_items seen tot (i # rest) =
     (if trim_space (SKU i) = '''' \<or> rune_count (SKU i) > 128 then
        Inl (invalid_request [Lit ''sku must contain between 1 and 128 characters''])
      else if sint (Quantity i) \<le> 0 \<or> sint (UnitPriceMinor i) \<le> 0 then
        Inl (invalid_request [Lit ''every item needs positive quantity and price''])
      else if SKU i \<in> seen then
        Inl (invalid_request [Lit ''duplicate sku '', Quoted (SKU i)])
      else
        (let seen' = insert (SKU i) seen;
             quantity = (scast (Quantity i) :: int64)
         in if sint (UnitPriceMinor i) > sint (quot64 max_int64 quantity) then
              Inl (invalid_request [Lit ''total amount overflow''])
            else
              (let lineTotal = quantity * UnitPriceMinor i
               in if sint tot > sint (max_int64 - lineTotal) then
                    Inl (invalid_request [Lit ''total amount overflow''])
                  else validate_items seen' (tot + lineTotal) rest)))"

definition validate :: "create_command \<Rightarrow> int64 result" where
  "validate c =
     (if cmd_CustomerID c = uuid_nil then Inl (invalid_request [Lit ''customer_id is required''])
      else if cmd_WarehouseID c = uuid_nil then Inl (invalid_request [Lit ''warehouse_id is required''])
      else if length (cmd_Items c) = 0 then Inl (invalid_request [Lit ''at least one item is required''])
      else validate_items {} 0 (cmd_Items c))"

text \<open>\<open>order.New\<close>: \<open>now\<close> is \<open>time.Now().UTC()\<close> and \<open>new_id\<close> is \<open>uuid.New()\<close>.\<close>

definition New_order :: "time \<Rightarrow> uuid \<Rightarrow> create_command \<Rightarrow> order result" where
  "New_order now new_id c =
     (case validate c of
        Inl e \<Rightarrow> Inl e
      | Inr tot \<Rightarrow> Inr \<lparr>
          order_ID = new_id,
          order_CustomerID = cmd_CustomerID c,
          order_WarehouseID = cmd_WarehouseID c,
          order_Status = StatusPending,
          order_Currency = CurrencyRUB,
          order_TotalAmountMinor = tot,
          order_Items = cmd_Items c,
          order_CreatedAt = now,
          order_UpdatedAt = now\<rparr>)"

definition CreatedPayload_Validate :: "created_payload \<Rightarrow> goerr option" where
  "CreatedPayload_Validate p =
     (if cp_Currency p \<noteq> CurrencyRUB then
        Some (invalid_request [Lit ''unsupported currency '', Quoted (cp_Currency p)])
      else
        (case validate \<lparr>cmd_CustomerID = cp_CustomerID p, cmd_WarehouseID = cp_WarehouseID p,
                          cmd_Items = cp_Items p\<rparr> of
           Inl e \<Rightarrow> Some e
         | Inr tot \<Rightarrow>
             if tot \<noteq> cp_TotalAmountMinor p then
               Some (invalid_request [Lit ''total amount does not match items''])
             else None))"

section \<open>What an acceptable command is\<close>

text \<open>The exact amount of one line and of an order, over the integers.\<close>

definition line_amount :: "item \<Rightarrow> int" where
  "line_amount i = sint (Quantity i) * sint (UnitPriceMinor i)"

definition order_amount :: "item list \<Rightarrow> int" where
  "order_amount is = sum_list (map line_amount is)"

definition item_ok :: "item \<Rightarrow> bool" where
  "item_ok i \<longleftrightarrow> trim_space (SKU i) \<noteq> '''' \<and> rune_count (SKU i) \<le> 128
     \<and> 0 < sint (Quantity i) \<and> 0 < sint (UnitPriceMinor i)"

definition command_ok :: "create_command \<Rightarrow> bool" where
  "command_ok c \<longleftrightarrow> cmd_CustomerID c \<noteq> uuid_nil \<and> cmd_WarehouseID c \<noteq> uuid_nil \<and> cmd_Items c \<noteq> []
     \<and> list_all item_ok (cmd_Items c) \<and> distinct (map SKU (cmd_Items c))
     \<and> order_amount (cmd_Items c) < 2 ^ 63"

lemma errors_is_invalid_request [simp]: "errors_is (invalid_request fs) s \<longleftrightarrow> s = ErrInvalidRequest"
  by (auto simp: invalid_request_def errors_is_def)

lemma order_amount_simps [simp]:
  "order_amount [] = 0"
  "order_amount (i # is) = line_amount i + order_amount is"
  by (simp_all add: order_amount_def)

lemma line_amount_pos: "item_ok i \<Longrightarrow> 0 < line_amount i"
  by (simp add: item_ok_def line_amount_def)

lemma order_amount_nonneg: "list_all item_ok is \<Longrightarrow> 0 \<le> order_amount is"
  by (induction "is") (auto dest: line_amount_pos)

text \<open>The overflow test of one line: the guarded division decides exactly whether the product fits.\<close>

lemma line_guard:
  fixes q p :: int64
  assumes "0 < sint q" and "0 < sint p"
  shows "sint p > sint (quot64 max_int64 q) \<longleftrightarrow> 2 ^ 63 \<le> sint q * sint p"
proof -
  have "sint (quot64 max_int64 q) = (2 ^ 63 - 1) div sint q"
    using assms by (subst sint_quot64) simp_all
  moreover have "sint p \<le> (2 ^ 63 - 1) div sint q \<longleftrightarrow> sint p * sint q \<le> 2 ^ 63 - 1"
    using assms(1) by (rule le_div_iff_int)
  ultimately show ?thesis by (auto simp: mult.commute)
qed

lemma line_total:
  fixes q p :: int64
  assumes "0 < sint q" and "0 < sint p" and "sint q * sint p < 2 ^ 63"
  shows "sint (q * p) = sint q * sint p"
  using assms by (intro sint_mult64) (simp_all add: order.trans [of _ 0])

lemma total_guard:
  fixes t l :: int64
  assumes "0 \<le> sint l"
  shows "sint t > sint (max_int64 - l) \<longleftrightarrow> 2 ^ 63 \<le> sint t + sint l"
  using assms sint_bounds64 [of l] by (subst sint_diff64) (simp_all, linarith)

text \<open>The loop, with the part of the order already seen: its result and its error in one statement.\<close>

lemma validate_items_Inr:
  "0 \<le> sint tot \<Longrightarrow> validate_items seen tot is = Inr t \<Longrightarrow>
     list_all item_ok is \<and> distinct (map SKU is) \<and> set (map SKU is) \<inter> seen = {}
     \<and> sint t = sint tot + order_amount is"
proof (induction seen tot "is" rule: validate_items.induct)
  case (1 seen tot)
  then show ?case by simp
next
  case (2 seen tot i rest)
  let ?q = "scast (Quantity i) :: int64"
  let ?l = "?q * UnitPriceMinor i"
  from "2.prems"(2) have ok: "item_ok i" and new: "SKU i \<notin> seen"
    and g1: "\<not> sint (UnitPriceMinor i) > sint (quot64 max_int64 ?q)"
    and g2: "\<not> sint tot > sint (max_int64 - ?l)"
    and rec: "validate_items (insert (SKU i) seen) (tot + ?l) rest = Inr t"
    by (auto simp: item_ok_def Let_def split: if_splits)
  have pos: "0 < sint ?q" "0 < sint (UnitPriceMinor i)"
    using ok by (simp_all add: item_ok_def)
  have l: "sint ?l = line_amount i"
    using line_total [OF pos] line_guard [OF pos] g1 by (simp add: line_amount_def)
  have "sint (tot + ?l) = sint tot + line_amount i"
    using g2 total_guard [of ?l tot] l line_amount_pos [OF ok] "2.prems"(1)
    by (subst sint_add64) simp_all
  then show ?case
    using "2.IH" [OF _ _ _ refl refl _ refl] ok new g1 g2 rec pos "2.prems"(1) line_amount_pos [OF ok]
    by (auto simp: item_ok_def)
qed

lemma validate_items_accepts:
  "0 \<le> sint tot \<Longrightarrow> list_all item_ok is \<Longrightarrow> distinct (map SKU is) \<Longrightarrow> set (map SKU is) \<inter> seen = {} \<Longrightarrow>
     sint tot + order_amount is < 2 ^ 63 \<Longrightarrow> \<exists>t. validate_items seen tot is = Inr t"
proof (induction seen tot "is" rule: validate_items.induct)
  case (2 seen tot i rest)
  let ?q = "scast (Quantity i) :: int64"
  let ?l = "?q * UnitPriceMinor i"
  from "2.prems" have ok: "item_ok i" and new: "SKU i \<notin> seen" and rest: "0 \<le> order_amount rest"
    by (simp_all add: order_amount_nonneg)
  have pos: "0 < sint ?q" "0 < sint (UnitPriceMinor i)"
    using ok by (simp_all add: item_ok_def)
  have small: "sint ?q * sint (UnitPriceMinor i) < 2 ^ 63"
    using "2.prems"(1,5) rest by (simp add: line_amount_def)
  have l: "sint ?l = line_amount i"
    using line_total [OF pos small] by (simp add: line_amount_def)
  have g1: "\<not> sint (UnitPriceMinor i) > sint (quot64 max_int64 ?q)"
    using line_guard [OF pos] small by simp
  have g2: "\<not> sint tot > sint (max_int64 - ?l)"
    using total_guard [of ?l tot] l line_amount_pos [OF ok] "2.prems"(5) rest by simp
  have "sint (tot + ?l) = sint tot + line_amount i"
    using l line_amount_pos [OF ok] "2.prems"(1,5) rest by (subst sint_add64) simp_all
  then have "\<exists>t. validate_items (insert (SKU i) seen) (tot + ?l) rest = Inr t"
    using "2.IH" [OF _ _ _ refl refl _ refl] ok new g1 g2 "2.prems" line_amount_pos [OF ok]
    by (auto simp: item_ok_def)
  then show ?case
    using ok new g1 g2 by (simp add: item_ok_def Let_def)
qed simp

lemma validate_items_error:
  "validate_items seen tot is = Inl e \<Longrightarrow> errors_is e ErrInvalidRequest"
  by (induction seen tot "is" rule: validate_items.induct) (auto simp: Let_def split: if_splits)

lemma validate_error: "validate c = Inl e \<Longrightarrow> errors_is e ErrInvalidRequest"
  by (auto simp: validate_def validate_items_error split: if_splits)

lemma validate_Inr: "validate c = Inr t \<Longrightarrow> command_ok c \<and> sint t = order_amount (cmd_Items c)"
  using validate_items_Inr [of 0 "{}" "cmd_Items c" t] sint_bounds64 [of t]
  by (auto simp: validate_def command_ok_def split: if_splits)

lemma validate_accepts: "command_ok c \<Longrightarrow> \<exists>t. validate c = Inr t"
  using validate_items_accepts [of 0 "cmd_Items c" "{}"]
  by (auto simp: validate_def command_ok_def)

lemma validate_cases:
  obtains (ok) t where "validate c = Inr t" "command_ok c" "sint t = order_amount (cmd_Items c)"
  | (invalid) e where "validate c = Inl e" "\<not> command_ok c" "errors_is e ErrInvalidRequest"
  using validate_Inr [of c] validate_accepts [of c] validate_error [of c]
  by (cases "validate c") auto

section \<open>Properties\<close>

text \<open>
  C13. \<open>validate\<close> accepts a command exactly when it names a customer, a warehouse and at least one item,
  every item has a non-blank SKU of at most 128 characters and positive quantity and price, no SKU
  occurs twice, and the exact amount of the order (over the integers) fits in an \<open>int64\<close>; the total it
  returns is then that exact amount, so no intermediate \<open>int64\<close> operation has wrapped.
\<close>
theorem validate_characterised:
  "validate c = Inr t \<longleftrightarrow> command_ok c \<and> sint t = order_amount (cmd_Items c)"
proof (cases c rule: validate_cases)
  case (ok u)
  then show ?thesis using sint_inject [of t u] by auto
next
  case (invalid e)
  then show ?thesis by simp
qed

text \<open>
  Every rejection by \<open>validate\<close>, including the two overflow rejections, is an
  \<open>ErrInvalidRequest\<close>, which the HTTP handler maps to 422, and it happens only for a command that is
  not acceptable.
\<close>
theorem validate_rejects_as_invalid_request:
  assumes "validate c = Inl e"
  shows "errors_is e ErrInvalidRequest \<and> \<not> command_ok c"
  using assms by (cases c rule: validate_cases) simp_all

definition sample_command :: create_command where
  "sample_command = \<lparr>cmd_CustomerID = 7, cmd_WarehouseID = 9,
     cmd_Items = [\<lparr>SKU = ''book'', Quantity = 2, UnitPriceMinor = 1299\<rparr>,
                  \<lparr>SKU = ''pen'', Quantity = 3, UnitPriceMinor = 150\<rparr>]\<rparr>"

definition overflow_command :: create_command where
  "overflow_command = \<lparr>cmd_CustomerID = 7, cmd_WarehouseID = 9,
     cmd_Items = [\<lparr>SKU = ''expensive'', Quantity = 2, UnitPriceMinor = max_int64\<rparr>]\<rparr>"

lemmas sample_simps = ascii_simps quot64_def max_int64_def uuid_nil_def

lemma validate_sample: "validate sample_command = Inr 3048"
  by (simp add: validate_def sample_command_def sample_simps)

lemma validate_overflow:
  "validate overflow_command = Inl (invalid_request [Lit ''total amount overflow''])"
  by (simp add: validate_def overflow_command_def sample_simps)

theorem validate_rejects_as_invalid_request_witness:
  "errors_is (invalid_request [Lit ''total amount overflow'']) ErrInvalidRequest
     \<and> \<not> command_ok overflow_command"
  by (rule validate_rejects_as_invalid_request [OF validate_overflow])

text \<open>
  \<open>New\<close> succeeds exactly on acceptable commands; the order it builds is PENDING, in RUB, carries the
  command's fields, the given id and one clock reading as both timestamps, and its total is positive
  and equal to the exact amount of its items.
\<close>
theorem New_order_characterised:
  "New_order now new_id c = Inr ord \<longleftrightarrow>
     command_ok c \<and> sint (order_TotalAmountMinor ord) = order_amount (cmd_Items c)
     \<and> order_ID ord = new_id \<and> order_CustomerID ord = cmd_CustomerID c
     \<and> order_WarehouseID ord = cmd_WarehouseID c \<and> order_Status ord = StatusPending
     \<and> order_Currency ord = CurrencyRUB \<and> order_Items ord = cmd_Items c
     \<and> order_CreatedAt ord = now \<and> order_UpdatedAt ord = now"
proof (cases c rule: validate_cases)
  case (ok t)
  then show ?thesis
    using sint_inject [of t "order_TotalAmountMinor ord"] by (cases ord) (auto simp: New_order_def)
next
  case (invalid e)
  then show ?thesis by (simp add: New_order_def)
qed

text \<open>
  The payload validation of the consumer accepts exactly the payloads in RUB whose command part is
  acceptable and whose total is the exact amount of the items.
\<close>
theorem CreatedPayload_Validate_characterised:
  "CreatedPayload_Validate p = None \<longleftrightarrow>
     cp_Currency p = CurrencyRUB
     \<and> command_ok \<lparr>cmd_CustomerID = cp_CustomerID p, cmd_WarehouseID = cp_WarehouseID p,
                    cmd_Items = cp_Items p\<rparr>
     \<and> sint (cp_TotalAmountMinor p) = order_amount (cp_Items p)"
proof (cases "\<lparr>cmd_CustomerID = cp_CustomerID p, cmd_WarehouseID = cp_WarehouseID p,
                 cmd_Items = cp_Items p\<rparr>" rule: validate_cases)
  case (ok t)
  then show ?thesis
    using sint_inject [of t "cp_TotalAmountMinor p"] by (auto simp: CreatedPayload_Validate_def)
next
  case (invalid e)
  then show ?thesis by (auto simp: CreatedPayload_Validate_def)
qed

lemma order_amount_pos: "command_ok c \<Longrightarrow> 0 < order_amount (cmd_Items c)"
  by (cases "cmd_Items c") (auto simp: command_ok_def order_amount_nonneg line_amount_pos add_pos_nonneg)

end
