(* ===== verification/Event_Envelope.thy ===== *)
theory Event_Envelope
  imports Order_Model
begin

text \<open>
  internal/event/envelope.go: the envelope every event travels in, its construction and its
  validation, and the wire codec the components share. The JSON text of an envelope or a payload
  (encoding/json over google/uuid's text form) is an argument of the model; what the code relies on is
  stated once, as \<open>codec_laws\<close>.
\<close>

definition OrderCreated :: string where "OrderCreated = ''OrderCreated''"
definition OrderStatusChanged :: string where "OrderStatusChanged = ''OrderStatusChanged''"

lemmas event_type_defs = OrderCreated_def OrderStatusChanged_def

record envelope =
  EventID :: uuid
  EventType :: string
  AggregateID :: uuid
  env_RequestID :: string
  OccurredAt :: time
  Version :: int64
  Payload :: string

definition Envelope_Validate :: "envelope \<Rightarrow> goerr option" where
  "Envelope_Validate e =
     (if EventID e = uuid_nil then Some (errorf [Lit ''event_id is required''])
      else if AggregateID e = uuid_nil then Some (errorf [Lit ''aggregate_id is required''])
      else if EventType e = '''' then Some (errorf [Lit ''event_type is required''])
      else if trim_space (env_RequestID e) = '''' \<or> length (env_RequestID e) > 128 then
        Some (errorf [Lit ''request_id must contain between 1 and 128 characters''])
      else if time_is_zero (OccurredAt e) then Some (errorf [Lit ''occurred_at is required''])
      else if Version e \<noteq> 1 then
        Some (errorf [Lit ''unsupported event version: '', Lit (itoa (Version e))])
      else if length (Payload e) = 0 then Some (errorf [Lit ''payload is required''])
      else None)"

text \<open>
  \<open>event.New\<close>: \<open>raw\<close> is the outcome of marshalling the payload, \<open>new_id\<close> is \<open>uuid.New()\<close> and \<open>now\<close> the
  clock reading.
\<close>

definition New_envelope ::
  "uuid \<Rightarrow> time \<Rightarrow> string \<Rightarrow> uuid \<Rightarrow> string \<Rightarrow> string result \<Rightarrow> envelope result" where
  "New_envelope new_id now eventType aggregateID requestID raw =
     (case raw of
        Inl err \<Rightarrow> Inl (wrapf ''marshal event payload: '' err)
      | Inr payload \<Rightarrow>
          (let envelope = \<lparr>EventID = new_id, EventType = eventType, AggregateID = aggregateID,
                           env_RequestID = requestID, OccurredAt = now, Version = 1,
                           Payload = payload\<rparr>
           in (case Envelope_Validate envelope of
                 Some err \<Rightarrow> Inl err
               | None \<Rightarrow> Inr envelope)))"

section \<open>The wire codec\<close>

record codec = golib +
  marshal_envelope :: "envelope \<Rightarrow> string result"
  unmarshal_envelope :: "string \<Rightarrow> envelope result"
  marshal_created :: "created_payload \<Rightarrow> string result"
  unmarshal_created :: "string \<Rightarrow> created_payload result"
  marshal_status_changed :: "status_changed_payload \<Rightarrow> string result"

text \<open>
  Decoding what was encoded gives the value back. The laws are restricted to values the caller names
  (\<open>good_env\<close>, \<open>good_payload\<close>), since JSON cannot carry, say, a string that is not UTF-8.
\<close>

definition codec_laws ::
  "(envelope \<Rightarrow> bool) \<Rightarrow> (created_payload \<Rightarrow> bool) \<Rightarrow> ('a) codec_scheme \<Rightarrow> bool" where
  "codec_laws good_env good_payload C \<longleftrightarrow>
     (\<forall>e. good_env e \<longrightarrow> (\<exists>s. marshal_envelope C e = Inr s \<and> unmarshal_envelope C s = Inr e))
     \<and> (\<forall>p. good_payload p \<longrightarrow>
          (\<exists>s. marshal_created C p = Inr s \<and> s \<noteq> '''' \<and> unmarshal_created C s = Inr p))"

section \<open>Lemmas\<close>

definition envelope_ok :: "envelope \<Rightarrow> bool" where
  "envelope_ok e \<longleftrightarrow> EventID e \<noteq> uuid_nil \<and> AggregateID e \<noteq> uuid_nil \<and> EventType e \<noteq> ''''
     \<and> trim_space (env_RequestID e) \<noteq> '''' \<and> length (env_RequestID e) \<le> 128 \<and> OccurredAt e \<noteq> 0
     \<and> Version e = 1 \<and> Payload e \<noteq> ''''"

lemma Envelope_Validate_None [simp]: "Envelope_Validate e = None \<longleftrightarrow> envelope_ok e"
  by (simp add: Envelope_Validate_def envelope_ok_def time_is_zero_def not_less)

lemma Envelope_Validate_Some: "Envelope_Validate e = Some err \<Longrightarrow> \<not> envelope_ok e"
  using Envelope_Validate_None [of e] by simp

lemma Envelope_Validate_no_sentinel:
  "Envelope_Validate e = Some err \<Longrightarrow> \<not> errors_is err s"
  by (auto simp: Envelope_Validate_def split: if_splits)

lemma New_envelope_Inr:
  "New_envelope i now ty a rid raw = Inr e \<longleftrightarrow>
     (\<exists>p. raw = Inr p \<and> envelope_ok e \<and> e = \<lparr>EventID = i, EventType = ty, AggregateID = a,
        env_RequestID = rid, OccurredAt = now, Version = 1, Payload = p\<rparr>)"
  by (auto simp: New_envelope_def Let_def dest: Envelope_Validate_Some split: sum.splits option.splits)

section \<open>Properties\<close>

text \<open>
  \<open>event.New\<close> never hands out an envelope that its own \<open>Validate\<close>, run again by the publisher and
  the consumer, would reject: it succeeds exactly when the payload was marshalled to at least one byte,
  both ids are set, the type is not empty, the request id has 1 to 128 bytes that are not all white
  space, and the clock is not at the zero time; the envelope then has version 1 and the given fields.
\<close>
theorem New_envelope_valid:
  "New_envelope i now ty a rid raw = Inr e \<longleftrightarrow>
     (\<exists>p. raw = Inr p \<and> p \<noteq> '''' \<and> i \<noteq> uuid_nil \<and> a \<noteq> uuid_nil \<and> ty \<noteq> ''''
        \<and> trim_space rid \<noteq> '''' \<and> length rid \<le> 128 \<and> now \<noteq> 0
        \<and> Envelope_Validate e = None
        \<and> e = \<lparr>EventID = i, EventType = ty, AggregateID = a, env_RequestID = rid,
               OccurredAt = now, Version = 1, Payload = p\<rparr>)"
  by (auto simp: New_envelope_Inr envelope_ok_def)

end
