(* ===== verification/Database.thy ===== *)
theory Database
  imports Event_Envelope
begin

text \<open>
  The PostgreSQL schema of migrations/000001_init.up.sql and what a statement, a round trip and a
  transaction do to it. A table is the list of its rows; a statement either fails with a constraint
  violation and changes nothing, or returns its result and the changed database. The server answers
  each round trip according to a plan: it may answer, be lost before it takes effect, or take effect
  and lose its answer. The lemmas give the constraints as an invariant that every statement preserves.
\<close>

section \<open>Schema\<close>

datatype outbox_status = OB_PENDING | OB_PROCESSING | OB_PUBLISHED | OB_FAILED

record order_row =
  o_id :: uuid
  o_customer_id :: uuid
  o_warehouse_id :: uuid
  o_status :: string
  o_currency :: string
  o_total_amount_minor :: int64
  o_created_at :: time
  o_updated_at :: time

record item_row =
  i_order_id :: uuid
  i_sku :: string
  i_quantity :: int32
  i_unit_price_minor :: int64

record outbox_row =
  ob_id :: uuid
  ob_aggregate_id :: uuid
  ob_event_type :: string
  ob_payload :: string
  ob_status :: outbox_status
  ob_created_at :: time
  ob_published_at :: "time option"
  ob_attempts :: int
  ob_next_attempt_at :: time
  ob_locked_by :: "string option"
  ob_locked_until :: "time option"
  ob_last_error :: "string option"

record processed_row =
  p_event_id :: uuid
  p_consumer_name :: string
  p_processed_at :: time

record db =
  orders :: "order_row list"
  order_items :: "item_row list"
  outbox_events :: "outbox_row list"
  processed_events :: "processed_row list"

definition order_status_enum :: "string list" where
  "order_status_enum = [''PENDING'', ''CONFIRMED'', ''FAILED'']"

text \<open>The CHECK constraints of one row.\<close>

definition order_row_ok :: "order_row \<Rightarrow> bool" where
  "order_row_ok r \<longleftrightarrow> o_status r \<in> set order_status_enum \<and> o_currency r = ''RUB''
     \<and> 0 < sint (o_total_amount_minor r) \<and> o_created_at r \<le> o_updated_at r"

definition item_row_ok :: "item_row \<Rightarrow> bool" where
  "item_row_ok r \<longleftrightarrow> 1 \<le> rune_count (i_sku r) \<and> rune_count (i_sku r) \<le> 128
     \<and> 0 < sint (i_quantity r) \<and> 0 < sint (i_unit_price_minor r)"

definition outbox_row_ok :: "outbox_row \<Rightarrow> bool" where
  "outbox_row_ok r \<longleftrightarrow> ob_event_type r \<noteq> '''' \<and> 0 \<le> ob_attempts r
     \<and> (ob_status r = OB_PUBLISHED \<longleftrightarrow> ob_published_at r \<noteq> None)
     \<and> (ob_locked_by r = None \<longleftrightarrow> ob_locked_until r = None)"

definition processed_row_ok :: "processed_row \<Rightarrow> bool" where
  "processed_row_ok r \<longleftrightarrow> p_consumer_name r \<noteq> ''''"

text \<open>The keys of the tables and the whole schema as one invariant.\<close>

definition item_key :: "item_row \<Rightarrow> uuid \<times> string" where
  "item_key r = (i_order_id r, i_sku r)"

definition processed_key :: "processed_row \<Rightarrow> string \<times> uuid" where
  "processed_key r = (p_consumer_name r, p_event_id r)"

definition db_ok :: "db \<Rightarrow> bool" where
  "db_ok d \<longleftrightarrow>
     list_all order_row_ok (orders d) \<and> distinct (map o_id (orders d))
     \<and> list_all item_row_ok (order_items d) \<and> distinct (map item_key (order_items d))
     \<and> list_all (\<lambda>r. i_order_id r \<in> set (map o_id (orders d))) (order_items d)
     \<and> list_all outbox_row_ok (outbox_events d) \<and> distinct (map ob_id (outbox_events d))
     \<and> list_all processed_row_ok (processed_events d) \<and> distinct (map processed_key (processed_events d))"

section \<open>The server\<close>

datatype violation =
    UniqueViolation string | CheckViolation string | ForeignKeyViolation string
  | InvalidText string | InvalidEnum string | OutOfRange string

text \<open>
  What the driver and the server add that the repository's code does not fix: the error values of
  failed statements, the resolution of a \<open>TIMESTAMPTZ\<close>, the text a \<open>JSONB\<close> value reads back as (or its
  rejection), and the collation of \<open>ORDER BY\<close> on text, given by a sort key.
\<close>

record pg =
  pg_error :: "violation \<Rightarrow> goerr"
  pg_timestamp :: "time \<Rightarrow> time"
  pg_jsonb :: "string \<Rightarrow> string option"
  pg_sort_key :: "string \<Rightarrow> string"

definition pg_laws :: "pg \<Rightarrow> bool" where
  "pg_laws P \<longleftrightarrow> (\<forall>t u. t \<le> u \<longrightarrow> pg_timestamp P t \<le> pg_timestamp P u)
     \<and> (\<forall>v s. \<not> errors_is (pg_error P v) s)"

text \<open>\<open>TEXT\<close> takes valid UTF-8 without the zero byte.\<close>

definition text_ok :: "string \<Rightarrow> bool" where
  "text_ok s \<longleftrightarrow> valid_utf8 s \<and> list_all (\<lambda>c. byte c \<noteq> 0) s"

datatype reply = Done | Lost goerr | Applied goerr

record server =
  sv_db :: db
  sv_now :: time
  sv_plan :: "reply list"
  sv_locked :: "uuid list"

definition next_reply :: "'z server_scheme \<Rightarrow> reply \<times> 'z server_scheme" where
  "next_reply s = (case sv_plan s of [] \<Rightarrow> (Done, s) | r # rs \<Rightarrow> (r, s\<lparr>sv_plan := rs\<rparr>))"

text \<open>One round trip that runs \<open>stmt\<close>: alone it commits by itself, inside a transaction it changes the
  working copy.\<close>

type_synonym 'a stmt = "db \<Rightarrow> ('a \<times> db) result"

definition query :: "'a stmt \<Rightarrow> 'z server_scheme \<Rightarrow> 'a result \<times> 'z server_scheme" where
  "query stmt s =
     (case next_reply s of
        (Done, s1) \<Rightarrow> (case stmt (sv_db s1) of
            Inl e \<Rightarrow> (Inl e, s1)
          | Inr (a, d) \<Rightarrow> (Inr a, s1\<lparr>sv_db := d\<rparr>))
      | (Lost e, s1) \<Rightarrow> (Inl e, s1)
      | (Applied e, s1) \<Rightarrow> (case stmt (sv_db s1) of
            Inl _ \<Rightarrow> (Inl e, s1)
          | Inr (a, d) \<Rightarrow> (Inl e, s1\<lparr>sv_db := d\<rparr>)))"

definition begin_tx :: "'z server_scheme \<Rightarrow> unit result \<times> 'z server_scheme" where
  "begin_tx s = query (\<lambda>d. Inr ((), d)) s"

text \<open>\<open>base\<close> is the server state at \<open>BeginTx\<close>; a rollback restores its data.\<close>

definition rollback :: "'z server_scheme \<Rightarrow> 'z server_scheme \<Rightarrow> 'z server_scheme" where
  "rollback base s = s\<lparr>sv_db := sv_db base\<rparr>"

definition commit :: "'z server_scheme \<Rightarrow> 'z server_scheme \<Rightarrow> unit result \<times> 'z server_scheme" where
  "commit base s =
     (case next_reply s of
        (Done, s1) \<Rightarrow> (Inr (), s1)
      | (Lost e, s1) \<Rightarrow> (Inl e, rollback base s1)
      | (Applied e, s1) \<Rightarrow> (Inl e, s1))"

section \<open>Statements\<close>

definition insert_order :: "pg \<Rightarrow> order_row \<Rightarrow> unit stmt" where
  "insert_order P r d =
     (if o_status r \<notin> set order_status_enum then Inl (pg_error P (InvalidEnum ''orders''))
      else if \<not> order_row_ok r then Inl (pg_error P (CheckViolation ''orders''))
      else if o_id r \<in> set (map o_id (orders d)) then Inl (pg_error P (UniqueViolation ''orders''))
      else Inr ((), d\<lparr>orders := orders d @ [r]\<rparr>))"

definition insert_item :: "pg \<Rightarrow> item_row \<Rightarrow> unit stmt" where
  "insert_item P r d =
     (if \<not> text_ok (i_sku r) then Inl (pg_error P (InvalidText ''order_items''))
      else if \<not> item_row_ok r then Inl (pg_error P (CheckViolation ''order_items''))
      else if item_key r \<in> set (map item_key (order_items d)) then
        Inl (pg_error P (UniqueViolation ''order_items''))
      else if i_order_id r \<notin> set (map o_id (orders d)) then
        Inl (pg_error P (ForeignKeyViolation ''order_items''))
      else Inr ((), d\<lparr>order_items := order_items d @ [r]\<rparr>))"

text \<open>The columns an insert does not name take their defaults: \<open>now\<close> is the server's clock.\<close>

definition fresh_outbox_row :: "pg \<Rightarrow> time \<Rightarrow> uuid \<Rightarrow> uuid \<Rightarrow> string \<Rightarrow> string \<Rightarrow> time \<Rightarrow> outbox_row" where
  "fresh_outbox_row P now eid agg ty json created =
     \<lparr>ob_id = eid, ob_aggregate_id = agg, ob_event_type = ty, ob_payload = json,
      ob_status = OB_PENDING, ob_created_at = pg_timestamp P created,
      ob_published_at = None, ob_attempts = 0, ob_next_attempt_at = now,
      ob_locked_by = None, ob_locked_until = None, ob_last_error = None\<rparr>"

definition insert_outbox ::
  "pg \<Rightarrow> time \<Rightarrow> uuid \<Rightarrow> uuid \<Rightarrow> string \<Rightarrow> string \<Rightarrow> time \<Rightarrow> unit stmt" where
  "insert_outbox P now eid agg ty payload created d =
     (case pg_jsonb P payload of
        None \<Rightarrow> Inl (pg_error P (InvalidText ''outbox_events''))
      | Some json \<Rightarrow>
          (if \<not> text_ok ty then Inl (pg_error P (InvalidText ''outbox_events''))
           else if \<not> outbox_row_ok (fresh_outbox_row P now eid agg ty json created) then
             Inl (pg_error P (CheckViolation ''outbox_events''))
           else if eid \<in> set (map ob_id (outbox_events d)) then
             Inl (pg_error P (UniqueViolation ''outbox_events''))
           else Inr ((), d\<lparr>outbox_events :=
                  outbox_events d @ [fresh_outbox_row P now eid agg ty json created]\<rparr>)))"

text \<open>An UPDATE of the outbox: the number of rows changed, or a violation that changes none.\<close>

definition update_outbox :: "pg \<Rightarrow> (outbox_row \<Rightarrow> bool) \<Rightarrow> (outbox_row \<Rightarrow> outbox_row) \<Rightarrow> nat stmt" where
  "update_outbox P cond upd d =
     (let rows = map (\<lambda>r. if cond r then upd r else r) (outbox_events d)
      in if list_all outbox_row_ok rows
         then Inr (length (filter cond (outbox_events d)), d\<lparr>outbox_events := rows\<rparr>)
         else Inl (pg_error P (CheckViolation ''outbox_events'')))"

section \<open>Lemmas\<close>

text \<open>A statement respects the schema when it keeps \<open>db_ok\<close>.\<close>

definition keeps :: "(db \<Rightarrow> bool) \<Rightarrow> 'a stmt \<Rightarrow> bool" where
  "keeps I stmt \<longleftrightarrow> (\<forall>d a d'. I d \<longrightarrow> stmt d = Inr (a, d') \<longrightarrow> I d')"

lemma keepsI: "(\<And>d a d'. I d \<Longrightarrow> stmt d = Inr (a, d') \<Longrightarrow> I d') \<Longrightarrow> keeps I stmt"
  by (auto simp: keeps_def)

lemma keepsD: "keeps I stmt \<Longrightarrow> I d \<Longrightarrow> stmt d = Inr (a, d') \<Longrightarrow> I d'"
  by (auto simp: keeps_def)

lemma next_reply_db [simp]:
  "next_reply s = (r, s') \<Longrightarrow> sv_db s' = sv_db s \<and> sv_now s' = sv_now s \<and> sv_locked s' = sv_locked s"
  by (auto simp: next_reply_def split: list.splits)

text \<open>What one round trip can have done: the data is as before, or as the statement left it.\<close>

lemma query_cases:
  assumes "query stmt s = (r, s')"
  obtains (ok) a d where "r = Inr a" "stmt (sv_db s) = Inr (a, d)" "sv_db s' = d"
  | (failed) e where "r = Inl e" "sv_db s' = sv_db s"
  | (unanswered) e a d where "r = Inl e" "stmt (sv_db s) = Inr (a, d)" "sv_db s' = d"
  using assms
  by (cases "next_reply s"; cases "fst (next_reply s)"; cases "stmt (sv_db s)")
     (auto simp: query_def dest: next_reply_db)

lemma query_now: "query stmt s = (r, s') \<Longrightarrow> sv_now s' = sv_now s \<and> sv_locked s' = sv_locked s"
  by (cases "next_reply s"; cases "fst (next_reply s)"; cases "stmt (sv_db s)")
     (auto simp: query_def dest: next_reply_db)

lemma query_keeps: "keeps I stmt \<Longrightarrow> I (sv_db s) \<Longrightarrow> query stmt s = (r, s') \<Longrightarrow> I (sv_db s')"
  by (erule query_cases) (auto dest: keepsD)

lemma query_quiet:
  "sv_plan s = [] \<Longrightarrow> stmt (sv_db s) = Inr (a, d) \<Longrightarrow> query stmt s = (Inr a, s\<lparr>sv_db := d\<rparr>)"
  by (simp add: query_def next_reply_def)

lemma commit_cases:
  assumes "commit base s = (r, s')"
  obtains (ok) "r = Inr ()" "sv_db s' = sv_db s"
  | (lost) e where "r = Inl e" "sv_db s' = sv_db base"
  | (applied) e where "r = Inl e" "sv_db s' = sv_db s"
  using assms
  by (cases "next_reply s"; cases "fst (next_reply s)")
     (auto simp: commit_def rollback_def dest: next_reply_db)

lemma begin_tx_db: "begin_tx s = (r, s') \<Longrightarrow> sv_db s' = sv_db s \<and> sv_now s' = sv_now s"
  using query_now [of "\<lambda>d. Inr ((), d)" s] unfolding begin_tx_def by (auto elim!: query_cases)

lemma query_Inr: "query stmt s = (Inr a, s') \<Longrightarrow> stmt (sv_db s) = Inr (a, sv_db s')"
  by (erule query_cases) auto

lemma rollback_db [simp]: "sv_db (rollback base s) = sv_db base"
  by (simp add: rollback_def)

lemma insert_order_keeps: "keeps db_ok (insert_order P r)"
  by (rule keepsI) (auto simp: insert_order_def db_ok_def list_all_iff split: if_splits)

lemma insert_item_keeps: "keeps db_ok (insert_item P r)"
  by (rule keepsI) (auto simp: insert_item_def db_ok_def split: if_splits)

lemma insert_outbox_keeps: "keeps db_ok (insert_outbox P now eid agg ty payload created)"
  by (rule keepsI)
     (auto simp: insert_outbox_def db_ok_def fresh_outbox_row_def split: if_splits option.splits)

lemma map_ob_id_update:
  "(\<And>r. ob_id (upd r) = ob_id r) \<Longrightarrow> map ob_id (map (\<lambda>r. if c r then upd r else r) rs) = map ob_id rs"
  by simp

lemma update_outbox_keeps:
  assumes "\<And>r. ob_id (upd r) = ob_id r"
  shows "keeps db_ok (update_outbox P cond upd)"
  using assms
  by (intro keepsI)
     (auto simp: update_outbox_def db_ok_def Let_def comp_def if_distrib cong: if_cong split: if_splits)

text \<open>What depends on neither the tables nor the plan is untouched by a statement.\<close>

lemma next_reply_frame:
  assumes "next_reply w = (r, w')" and "\<And>w p. f (w\<lparr>sv_plan := p\<rparr>) = f w"
  shows "f w' = f w"
proof (cases "sv_plan w")
  case Nil
  then have "w' = w" using assms(1) by (simp add: next_reply_def)
  then show ?thesis by simp
next
  case (Cons q qs)
  then have "w' = w\<lparr>sv_plan := qs\<rparr>" using assms(1) by (simp add: next_reply_def)
  then show ?thesis by (simp only: assms(2))
qed

lemma query_frame:
  assumes "query stmt w = (r, w')" and "\<And>w d. f (w\<lparr>sv_db := d\<rparr>) = f w" and "\<And>w p. f (w\<lparr>sv_plan := p\<rparr>) = f w"
  shows "f w' = f w"
proof -
  obtain q w1 where n: "next_reply w = (q, w1)" by fastforce
  have "f w1 = f w" by (rule next_reply_frame [OF n assms(3)])
  moreover have "f (snd (query stmt w)) = f w1"
    by (simp add: query_def n assms(2) split: reply.split sum.split prod.split)
  ultimately show ?thesis using assms(1) by simp
qed

lemma commit_frame:
  assumes "commit base w = (r, w')" and "\<And>w d. f (w\<lparr>sv_db := d\<rparr>) = f w" and "\<And>w p. f (w\<lparr>sv_plan := p\<rparr>) = f w"
  shows "f w' = f w"
proof -
  obtain q w1 where n: "next_reply w = (q, w1)" by fastforce
  have "f w1 = f w" by (rule next_reply_frame [OF n assms(3)])
  moreover have "f (snd (commit base w)) = f w1"
    by (simp add: commit_def rollback_def n assms(2) split: reply.split)
  ultimately show ?thesis using assms(1) by simp
qed

end
