(* ===== verification/Host.thy ===== *)
theory Host
  imports Database
begin

text \<open>
  A machine the components run on: the database server together with the process's own clock, its
  supply of fresh UUIDs, the moment its context is cancelled (if ever), and its metric registry. It is
  the world on which the interfaces of the components are interpreted.
\<close>

record host = server +
  h_clock :: time
  h_cancel_at :: "time option"
  h_uuids :: "nat \<Rightarrow> uuid"
  h_next :: nat
  h_metrics :: "metric list"

definition canceled_by :: "'z host_scheme \<Rightarrow> time \<Rightarrow> bool" where
  "canceled_by w t \<longleftrightarrow> (case h_cancel_at w of None \<Rightarrow> False | Some c \<Rightarrow> c \<le> t)"

text \<open>
  Reading the clock does not move it; a timer that fires moves it to the end of the wait, one that is
  cut short moves it to the cancellation.
\<close>

definition host_timer :: "duration \<Rightarrow> 'z host_scheme \<Rightarrow> bool \<times> 'z host_scheme" where
  "host_timer d w =
     (let t = h_clock w + max 0 (sint d)
      in if canceled_by w t
         then (False, w\<lparr>h_clock := max (h_clock w) (the (h_cancel_at w))\<rparr>)
         else (True, w\<lparr>h_clock := t\<rparr>))"

definition host_runtime :: "('z host_scheme) runtime" where
  "host_runtime = \<lparr>
     rt_now = (\<lambda>w. (h_clock w, w)),
     rt_uuid = (\<lambda>w. (h_uuids w (h_next w), w\<lparr>h_next := Suc (h_next w)\<rparr>)),
     rt_ctx_err = (\<lambda>ctx w. if canceled_by w (h_clock w) then Some ctx_canceled else None),
     rt_timer = (\<lambda>ctx. host_timer),
     rt_count = (\<lambda>m w. w\<lparr>h_metrics := h_metrics w @ [m]\<rparr>)\<rparr>"

lemma host_runtime_simps [simp]:
  "rt_now host_runtime w = (h_clock w, w)"
  "rt_uuid host_runtime w = (h_uuids w (h_next w), w\<lparr>h_next := Suc (h_next w)\<rparr>)"
  "rt_ctx_err host_runtime ctx w = (if canceled_by w (h_clock w) then Some ctx_canceled else None)"
  "rt_timer host_runtime ctx d w = host_timer d w"
  "rt_count host_runtime m w = w\<lparr>h_metrics := h_metrics w @ [m]\<rparr>"
  by (simp_all add: host_runtime_def)

text \<open>The errors of lost round trips are the driver's: none of them is one of the code's sentinels.\<close>

definition foreign_error :: "goerr \<Rightarrow> bool" where
  "foreign_error e \<longleftrightarrow> \<not> errors_is e ErrNotFound \<and> \<not> errors_is e ErrNoRows \<and> \<not> errors_is e ErrInvalidRequest"

definition foreign_reply :: "reply \<Rightarrow> bool" where
  "foreign_reply r = (case r of Done \<Rightarrow> True | Lost e \<Rightarrow> foreign_error e | Applied e \<Rightarrow> foreign_error e)"

definition server_ok :: "'z server_scheme \<Rightarrow> bool" where
  "server_ok s \<longleftrightarrow> db_ok (sv_db s) \<and> list_all foreign_reply (sv_plan s)"

lemma next_reply_ok:
  "next_reply s = (r, s') \<Longrightarrow> list_all foreign_reply (sv_plan s) \<Longrightarrow>
     foreign_reply r \<and> list_all foreign_reply (sv_plan s')"
  by (cases "sv_plan s") (auto simp: next_reply_def foreign_reply_def)

lemma query_plan: "query stmt s = (r, s') \<Longrightarrow> sv_plan s' = sv_plan (snd (next_reply s))"
  by (auto simp: query_def split: prod.splits reply.splits sum.splits)

lemma query_plan_ok:
  "query stmt s = (r, s') \<Longrightarrow> list_all foreign_reply (sv_plan s) \<Longrightarrow> list_all foreign_reply (sv_plan s')"
  using next_reply_ok [of s "fst (next_reply s)" "snd (next_reply s)"] by (simp add: query_plan)

lemma query_error:
  assumes "query stmt s = (Inl e, s')" and "list_all foreign_reply (sv_plan s)"
  shows "foreign_error e \<or> stmt (sv_db s) = Inl e"
  using assms
  by (cases "next_reply s"; cases "fst (next_reply s)"; cases "stmt (sv_db s)")
     (auto simp: query_def foreign_reply_def dest: next_reply_ok)

lemma commit_plan_ok:
  "commit base s = (r, s') \<Longrightarrow> list_all foreign_reply (sv_plan s) \<Longrightarrow> list_all foreign_reply (sv_plan s')"
  by (cases "next_reply s"; cases "fst (next_reply s)")
     (auto simp: commit_def rollback_def dest: next_reply_ok)

lemma rollback_plan [simp]: "sv_plan (rollback base s) = sv_plan s"
  by (simp add: rollback_def)

lemma query_server_ok: "keeps db_ok stmt \<Longrightarrow> server_ok s \<Longrightarrow> query stmt s = (r, s') \<Longrightarrow> server_ok s'"
  using query_keeps [of db_ok stmt s r s'] query_plan_ok [of stmt s r s'] by (simp add: server_ok_def)

section \<open>Sample parameters\<close>

text \<open>
  Concrete parameters the witnesses evaluate on: a server that stores times in microseconds, a codec
  that decodes to one fixed envelope and payload, and a machine with empty tables.
\<close>

definition sample_pg :: pg where
  "sample_pg = \<lparr>pg_error = (\<lambda>v. errorf [Lit ''constraint violation'']),
     pg_timestamp = (\<lambda>t. t div 1000 * 1000), pg_jsonb = Some, pg_sort_key = (\<lambda>s. s)\<rparr>"

definition sample_codec :: "envelope \<Rightarrow> created_payload \<Rightarrow> codec" where
  "sample_codec env p = \<lparr>
     lib_quote = (\<lambda>s. CHR 0x22 # s @ [CHR 0x22]), lib_duration = itoa,
     lib_uuid_string = (\<lambda>u. nat_digits (unat u)),
     lib_uuid_parse = (\<lambda>s. if s \<noteq> '''' \<and> list_all is_digit s then Inr (of_int (digits_value s))
                           else Inl (errorf [Lit ''invalid UUID''])),
     lib_time_format = (\<lambda>t. nat_digits (nat t)),
     lib_time_parse = (\<lambda>s. if s \<noteq> '''' \<and> list_all is_digit s then Some (digits_value s) else None),
     marshal_envelope = (\<lambda>e. Inr ''envelope''), unmarshal_envelope = (\<lambda>s. Inr env),
     marshal_created = (\<lambda>p. Inr ''payload''), unmarshal_created = (\<lambda>s. Inr p),
     marshal_status_changed = (\<lambda>p. Inr ''changed'')\<rparr>"

definition empty_db :: db where
  "empty_db = \<lparr>orders = [], order_items = [], outbox_events = [], processed_events = []\<rparr>"

definition sample_host :: "db \<Rightarrow> reply list \<Rightarrow> host" where
  "sample_host d plan = \<lparr>sv_db = d, sv_now = 5000000, sv_plan = plan, sv_locked = [],
     h_clock = 4000000, h_cancel_at = None, h_uuids = (\<lambda>n. word_of_nat (n + 100)), h_next = 0,
     h_metrics = []\<rparr>"

lemmas sample_defs = sample_pg_def sample_codec_def sample_host_def empty_db_def

lemma sample_pg_simps [simp]:
  "pg_error sample_pg v = errorf [Lit ''constraint violation'']"
  "pg_timestamp sample_pg t = t div 1000 * 1000"
  "pg_jsonb sample_pg j = Some j"
  "pg_sort_key sample_pg k = k"
  by (simp_all add: sample_pg_def)

lemma sample_codec_simps [simp]:
  "marshal_envelope (sample_codec env p) e = Inr ''envelope''"
  "unmarshal_envelope (sample_codec env p) j = Inr env"
  "marshal_created (sample_codec env p) q = Inr ''payload''"
  "unmarshal_created (sample_codec env p) j = Inr p"
  "marshal_status_changed (sample_codec env p) c = Inr ''changed''"
  "lib_uuid_string (sample_codec env p) u = nat_digits (unat u)"
  by (simp_all add: sample_codec_def)

lemma sample_host_simps [simp]:
  "sv_db (sample_host d plan) = d"
  "sv_now (sample_host d plan) = 5000000"
  "sv_plan (sample_host d plan) = plan"
  "h_clock (sample_host d plan) = 4000000"
  "h_uuids (sample_host d plan) n = word_of_nat (n + 100)"
  "h_next (sample_host d plan) = 0"
  by (simp_all add: sample_host_def)

lemma empty_db_simps [simp]:
  "orders empty_db = []" "order_items empty_db = []" "outbox_events empty_db = []"
  "processed_events empty_db = []"
  by (simp_all add: empty_db_def)

lemma sample_pg_laws: "pg_laws sample_pg"
  by (simp add: pg_laws_def sample_pg_def zdiv_mono1)

lemma sample_codec_laws: "codec_laws ((=) env) ((=) p) (sample_codec env p)"
  by (simp add: codec_laws_def sample_codec_def)

lemma empty_db_ok: "db_ok empty_db"
  by (simp add: db_ok_def empty_db_def)

end
