(* ===== verification/Http_Server.thy ===== *)
theory Http_Server
  imports Host
begin

text \<open>
  What the handlers of internal/order/http.go and internal/platform/health/server.go use of net/http: the
  response writer as an interface, requests with a limited body, \<open>ServeMux\<close>, and the server's life.
  \<open>'r\<close> is the state of a response, \<open>'w\<close> the world beside it.
\<close>

section \<open>Responses\<close>

text \<open>\<open>http.ResponseWriter\<close>: \<open>Header().Set\<close>, \<open>WriteHeader\<close>, \<open>Write\<close>.\<close>

record 'r response_writer =
  wr_Set :: "string \<Rightarrow> string \<Rightarrow> 'r \<Rightarrow> 'r"
  wr_WriteHeader :: "nat \<Rightarrow> 'r \<Rightarrow> 'r"
  wr_Write :: "string \<Rightarrow> 'r \<Rightarrow> 'r"

text \<open>
  The server's writer: the first \<open>WriteHeader\<close> sends the status with the headers set by then, later ones
  are ignored, and a body without a status sends 200.
\<close>

record response =
  rs_Header :: "(string \<times> string) list"
  rs_sent :: "(nat \<times> (string \<times> string) list) option"
  rs_Body :: string

definition response_start :: response where
  "response_start = \<lparr>rs_Header = [], rs_sent = None, rs_Body = ''''\<rparr>"

definition header_set :: "string \<Rightarrow> string \<Rightarrow> (string \<times> string) list \<Rightarrow> (string \<times> string) list" where
  "header_set key v hs = (key, v) # filter (\<lambda>(k, _). k \<noteq> key) hs"

definition net_WriteHeader :: "nat \<Rightarrow> response \<Rightarrow> response" where
  "net_WriteHeader status r = (case rs_sent r of
      None \<Rightarrow> r\<lparr>rs_sent := Some (status, rs_Header r)\<rparr>
    | Some _ \<Rightarrow> r)"

definition net_writer :: "response response_writer" where
  "net_writer = \<lparr>wr_Set = (\<lambda>key v r. r\<lparr>rs_Header := header_set key v (rs_Header r)\<rparr>),
     wr_WriteHeader = net_WriteHeader,
     wr_Write = (\<lambda>body r. let r1 = net_WriteHeader 200 r in r1\<lparr>rs_Body := rs_Body r1 @ body\<rparr>)\<rparr>"

definition sent_status :: "response \<Rightarrow> nat option" where
  "sent_status r = map_option fst (rs_sent r)"

definition sent_header :: "response \<Rightarrow> string \<Rightarrow> string option" where
  "sent_header r key = (case rs_sent r of None \<Rightarrow> None | Some (_, hs) \<Rightarrow> map_of hs key)"

lemma net_writer_simps [simp]:
  "wr_Set net_writer key v r = r\<lparr>rs_Header := header_set key v (rs_Header r)\<rparr>"
  "wr_WriteHeader net_writer = net_WriteHeader"
  "wr_Write net_writer body r = (net_WriteHeader 200 r)\<lparr>rs_Body := rs_Body r @ body\<rparr>"
  by (simp_all add: net_writer_def Let_def net_WriteHeader_def split: option.split)

lemma map_of_header_set [simp]: "map_of (header_set key v hs) = (map_of hs)(key \<mapsto> v)"
proof -
  have "k \<noteq> key \<Longrightarrow> map_of (filter (\<lambda>(k, _). k \<noteq> key) hs) k = map_of hs k" for k
    by (induction hs) auto
  then show ?thesis by (auto simp: header_set_def fun_eq_iff)
qed

section \<open>Requests\<close>

text \<open>
  \<open>rq_Segments\<close> are the segments of the path after the leading slash, unescaped, a trailing slash giving a
  last empty one. \<open>ServeMux\<close> redirects a path that is not clean before any handler of the program runs;
  those requests are not modelled. Header keys are in canonical form, as the server delivers them.
\<close>

record body_reader =
  br_bytes :: string
  br_end :: goerr

record request =
  rq_Method :: string
  rq_Segments :: "string list"
  rq_Header :: "(string \<times> string) list"
  rq_Body :: body_reader
  rq_Context :: ctx
  rq_Pattern :: string
  rq_PathValue :: string

definition Header_Get :: "request \<Rightarrow> string \<Rightarrow> string" where
  "Header_Get rq key = (case find (\<lambda>(k, _). k = key) (rq_Header rq) of None \<Rightarrow> '''' | Some (_, v) \<Rightarrow> v)"

text \<open>\<open>http.MaxBytesReader\<close>: the first bytes, then an error of its own when there are more.\<close>

definition MaxBytesReader :: "body_reader \<Rightarrow> nat \<Rightarrow> body_reader" where
  "MaxBytesReader body limit = (if length (br_bytes body) \<le> limit then body
     else \<lparr>br_bytes = take limit (br_bytes body), br_end = errorf [Lit ''http: request body too large'']\<rparr>)"

text \<open>A handler may change the request it was given (\<open>ServeMux\<close> sets \<open>Pattern\<close> and the path value).\<close>

type_synonym ('r, 'w) handler = "'r response_writer \<Rightarrow> request \<Rightarrow> 'r \<Rightarrow> 'w \<Rightarrow> request \<times> 'r \<times> 'w"

section \<open>ServeMux\<close>

datatype segment = Exactly string | Wildcard

datatype pattern = Route (route_method: string) (route_segments: "segment list") (route_text: string) | CatchAll

fun segments_match :: "segment list \<Rightarrow> string list \<Rightarrow> bool" where
  "segments_match [] [] = True"
| "segments_match (Exactly s # ps) (x # xs) = (s = x \<and> segments_match ps xs)"
| "segments_match (Wildcard # ps) (x # xs) = (x \<notin> {'''', ''/''} \<and> segments_match ps xs)"
| "segments_match _ _ = False"

fun wildcard_value :: "segment list \<Rightarrow> string list \<Rightarrow> string" where
  "wildcard_value (Exactly s # ps) (x # xs) = wildcard_value ps xs"
| "wildcard_value (Wildcard # ps) (x # xs) = x"
| "wildcard_value _ _ = ''''"

text \<open>A pattern with GET also takes HEAD.\<close>

definition method_matches :: "string \<Rightarrow> string \<Rightarrow> bool" where
  "method_matches m method \<longleftrightarrow> m = method \<or> m = ''GET'' \<and> method = ''HEAD''"

fun pattern_path :: "pattern \<Rightarrow> request \<Rightarrow> bool" where
  "pattern_path (Route m segs txt) rq = segments_match segs (rq_Segments rq)"
| "pattern_path CatchAll rq = True"

fun pattern_matches :: "pattern \<Rightarrow> request \<Rightarrow> bool" where
  "pattern_matches (Route m segs txt) rq = (method_matches m (rq_Method rq) \<and> segments_match segs (rq_Segments rq))"
| "pattern_matches CatchAll rq = True"

fun matched_request :: "pattern \<Rightarrow> request \<Rightarrow> request" where
  "matched_request (Route m segs txt) rq = rq\<lparr>rq_Pattern := txt, rq_PathValue := wildcard_value segs (rq_Segments rq)\<rparr>"
| "matched_request CatchAll rq = rq\<lparr>rq_Pattern := ''/'', rq_PathValue := ''''\<rparr>"

definition http_Error :: "'r response_writer \<Rightarrow> string \<Rightarrow> nat \<Rightarrow> 'r \<Rightarrow> 'r" where
  "http_Error W message status r =
     wr_Write W (message @ [CHR 0x0A]) (wr_WriteHeader W status (wr_Set W ''X-Content-Type-Options'' ''nosniff''
       (wr_Set W ''Content-Type'' ''text/plain; charset=utf-8'' r)))"

text \<open>
  The first pattern that matches serves the request: the program's patterns overlap only with the catch-all,
  which is the least specific and comes last. Without a match the answer is 405 when another method would
  have matched (every such pattern of the program has the method GET) and 404 otherwise.
\<close>

definition mux_serve :: "(pattern \<times> ('r, 'w) handler) list \<Rightarrow> ('r, 'w) handler" where
  "mux_serve routes W rq r w = (case find (\<lambda>(p, _). pattern_matches p rq) routes of
      Some (p, h) \<Rightarrow> h W (matched_request p rq) r w
    | None \<Rightarrow>
        (rq\<lparr>rq_Pattern := '''', rq_PathValue := ''''\<rparr>,
         (if list_ex (\<lambda>(p, _). pattern_path p rq) routes
          then http_Error W ''Method Not Allowed'' 405 (wr_Set W ''Allow'' ''GET, HEAD'' r)
          else http_Error W ''404 page not found'' 404 r), w))"

section \<open>The server\<close>

text \<open>
  A server runs until its listener fails or the context is done, whichever the select sees first; \<open>Some e\<close>
  is the error of \<open>ListenAndServe\<close>, \<open>None\<close> the end of the context, and \<open>shutdown\<close> what \<open>Shutdown\<close> answers.
\<close>

record server_config =
  srv_Addr :: string
  srv_ReadHeaderTimeout :: duration
  srv_ReadTimeout :: duration
  srv_WriteTimeout :: duration
  srv_IdleTimeout :: duration

text \<open>\<open>writeJSON\<close>, the same function in both packages: a value that cannot be encoded leaves the body empty.\<close>

definition writeJSON :: "'r response_writer \<Rightarrow> nat \<Rightarrow> string option \<Rightarrow> 'r \<Rightarrow> 'r" where
  "writeJSON W status json r =
     (let r1 = wr_WriteHeader W status (wr_Set W ''Content-Type'' ''application/json'' r)
      in case json of None \<Rightarrow> r1 | Some text \<Rightarrow> wr_Write W (text @ [CHR 0x0A]) r1)"

lemma writeJSON_net:
  "rs_sent r = None \<Longrightarrow> writeJSON net_writer status json r =
     \<lparr>rs_Header = header_set ''Content-Type'' ''application/json'' (rs_Header r),
      rs_sent = Some (status, header_set ''Content-Type'' ''application/json'' (rs_Header r)),
      rs_Body = rs_Body r @ (case json of None \<Rightarrow> '''' | Some txt \<Rightarrow> txt @ [CHR 0x0A])\<rparr>"
  by (simp add: writeJSON_def Let_def net_WriteHeader_def split: option.split)

lemma http_Error_sent: "rs_sent r = None \<Longrightarrow> sent_status (http_Error net_writer m status r) = Some status"
  by (simp add: http_Error_def net_WriteHeader_def sent_status_def)

end
