(* ===== verification/Platform.thy ===== *)
theory Platform
  imports Http_Server
begin

text \<open>
  internal/platform: configuration from the environment (config/config.go), the log level
  (logging/logging.go), the connection pool (database/database.go), the operational endpoints
  (health/server.go) and the shutdown of a program with two goroutines (shutdown/shutdown.go).
\<close>

section \<open>Configuration\<close>

text \<open>\<open>getenv\<close> is \<open>os.Getenv\<close>: the empty string for a variable that is not set.\<close>

type_synonym getenv = "string \<Rightarrow> string"

definition env :: "getenv \<Rightarrow> string \<Rightarrow> string \<Rightarrow> string" where
  "env getenv name fallback = (let value = trim_space (getenv name) in if value \<noteq> '''' then value else fallback)"

definition splitNonEmpty :: "string \<Rightarrow> string list" where
  "splitNonEmpty value = filter (\<lambda>v. v \<noteq> '''') (map trim_space (split_on (CHR '','') value))"

record common =
  ServiceName :: string
  DatabaseURL :: string
  KafkaBrokers :: "string list"
  LogLevel :: string
  HealthAddr :: string

definition LoadCommon :: "getenv \<Rightarrow> string \<Rightarrow> string \<Rightarrow> common result" where
  "LoadCommon getenv serviceName defaultHealthAddr =
     (let databaseURL = getenv ''DATABASE_URL'' in
      if databaseURL = '''' then Inl (errorf [Lit ''DATABASE_URL is required'']) else
     (let brokers = splitNonEmpty (env getenv ''KAFKA_BROKERS'' ''localhost:29092'') in
      if brokers = [] then Inl (errorf [Lit ''KAFKA_BROKERS must contain at least one broker'']) else
        Inr \<lparr>ServiceName = serviceName, DatabaseURL = databaseURL, KafkaBrokers = brokers,
             LogLevel = env getenv ''LOG_LEVEL'' ''info'', HealthAddr = env getenv ''HEALTH_ADDR'' defaultHealthAddr\<rparr>))"

definition config_String :: "getenv \<Rightarrow> string \<Rightarrow> string \<Rightarrow> string" where
  "config_String getenv name fallback = env getenv name fallback"

definition config_Int :: "getenv \<Rightarrow> string \<Rightarrow> int64 \<Rightarrow> int64 result" where
  "config_Int getenv name fallback =
     (case atoi (env getenv name (itoa fallback)) of
        None \<Rightarrow> Inl (errorf [Lit name, Lit '' must be a positive integer''])
      | Some value \<Rightarrow>
          if sint value \<le> 0 then Inl (errorf [Lit name, Lit '' must be a positive integer'']) else Inr value)"

text \<open>\<open>time.ParseDuration\<close> is an argument, as \<open>Duration.String\<close> is.\<close>

definition config_Duration ::
  "('c) golib_scheme \<Rightarrow> (string \<Rightarrow> duration result) \<Rightarrow> getenv \<Rightarrow> string \<Rightarrow> duration \<Rightarrow> duration result" where
  "config_Duration L parse getenv name fallback =
     (case parse (env getenv name (lib_duration L fallback)) of
        Inl e \<Rightarrow> Inl (wrapfs [Lit name, Lit '' must be a positive duration: ''] e)
      | Inr value \<Rightarrow>
          if sint value \<le> 0 then Inl (errorf [Lit name, Lit '' must be a positive duration'']) else Inr value)"

section \<open>Logging and the database pool\<close>

text \<open>\<open>slog.Level\<close>, ordered by severity.\<close>

datatype log_level = LevelDebug | LevelInfo | LevelWarn | LevelError

fun severity :: "log_level \<Rightarrow> int" where
  "severity LevelDebug = - 4"
| "severity LevelInfo = 0"
| "severity LevelWarn = 4"
| "severity LevelError = 8"

instantiation log_level :: linorder
begin

definition less_eq_log_level :: "log_level \<Rightarrow> log_level \<Rightarrow> bool" where
  "less_eq_log_level l l' \<longleftrightarrow> severity l \<le> severity l'"

definition less_log_level :: "log_level \<Rightarrow> log_level \<Rightarrow> bool" where
  "less_log_level l l' \<longleftrightarrow> severity l < severity l'"

instance
proof
  fix l l' :: log_level
  assume "l \<le> l'" and "l' \<le> l"
  then show "l = l'"
    unfolding less_eq_log_level_def by (cases l; cases l') simp_all
qed (auto simp: less_eq_log_level_def less_log_level_def)

end

text \<open>\<open>strings.ToLower\<close> on ASCII; no other rune becomes one of the letters of the level names.\<close>

definition to_lower :: "string \<Rightarrow> string" where
  "to_lower s = map (\<lambda>c. if 65 \<le> byte c \<and> byte c \<le> 90 then char_of (byte c + 32) else c) s"

definition log_level_of :: "string \<Rightarrow> log_level" where
  "log_level_of level = (let l = to_lower level in
     if l = ''debug'' then LevelDebug else if l = ''warn'' then LevelWarn
     else if l = ''error'' then LevelError else LevelInfo)"

text \<open>The handler of \<open>logging.New\<close> writes a record when its level is at least the configured one.\<close>

definition log_enabled :: "string \<Rightarrow> log_level \<Rightarrow> bool" where
  "log_enabled level l \<longleftrightarrow> log_level_of level \<le> l"

record pool_config =
  MaxConns :: int32
  MinConns :: int32
  MaxConnLifetime :: duration
  MaxConnIdleTime :: duration

text \<open>
  pgxpool: \<open>ParseConfig\<close>, \<open>NewWithConfig\<close>, and the pool's \<open>Ping\<close> and \<open>Close\<close>. \<open>'k\<close> is what a parsed
  URL holds beside the four fields that the code sets.
\<close>

record ('k, 'p, 'w) pgxpool =
  px_ParseConfig :: "string \<Rightarrow> 'k result"
  px_NewWithConfig :: "'k \<Rightarrow> pool_config \<Rightarrow> 'w \<Rightarrow> 'p result \<times> 'w"
  px_Ping :: "'p \<Rightarrow> ctx \<Rightarrow> 'w \<Rightarrow> goerr option \<times> 'w"
  px_Close :: "'p \<Rightarrow> 'w \<Rightarrow> 'w"

definition pool_settings :: pool_config where
  "pool_settings = \<lparr>MaxConns = 20, MinConns = 2, MaxConnLifetime = 60 * minute, MaxConnIdleTime = 15 * minute\<rparr>"

definition database_Open :: "('k, 'p, 'w) pgxpool \<Rightarrow> ctx \<Rightarrow> string \<Rightarrow> 'w \<Rightarrow> 'p result \<times> 'w" where
  "database_Open X ctx url w =
     (case px_ParseConfig X url of
        Inl e \<Rightarrow> (Inl (wrapf ''parse database config: '' e), w)
      | Inr config \<Rightarrow>
     (case px_NewWithConfig X config pool_settings w of
        (Inl e, w1) \<Rightarrow> (Inl (wrapf ''create database pool: '' e), w1)
      | (Inr p, w1) \<Rightarrow>
     (case px_Ping X p (with_timeout ctx (5 * second)) w1 of
        (Some e, w2) \<Rightarrow> (Inl (wrapf ''ping database: '' e), px_Close X p w2)
      | (None, w2) \<Rightarrow> (Inr p, w2))))"

section \<open>Operational endpoints\<close>

type_synonym 'w readiness = "ctx \<Rightarrow> 'w \<Rightarrow> goerr option \<times> 'w"

definition status_json :: "string \<Rightarrow> string option" where
  "status_json status = Some (''{\"status\":\"'' @ status @ ''\"}'')"

definition health_live :: "('r, 'w) handler" where
  "health_live W rq r w = (rq, writeJSON W 200 (status_json ''ok'') r, w)"

definition health_ready :: "'w readiness \<Rightarrow> ('r, 'w) handler" where
  "health_ready ready W rq r w =
     (case ready (with_timeout (rq_Context rq) (2 * second)) w of
        (Some e, w1) \<Rightarrow> (rq, writeJSON W 503 (status_json ''not_ready'') r, w1)
      | (None, w1) \<Rightarrow> (rq, writeJSON W 200 (status_json ''ready'') r, w1))"

text \<open>\<open>promhttp.Handler\<close> is an argument.\<close>

definition health_Handler :: "'w readiness \<Rightarrow> ('r, 'w) handler \<Rightarrow> ('r, 'w) handler" where
  "health_Handler ready prom = mux_serve
     [(Route ''GET'' [Exactly ''health''] ''GET /health'', health_live),
      (Route ''GET'' [Exactly ''ready''] ''GET /ready'', health_ready ready),
      (Route ''GET'' [Exactly ''metrics''] ''GET /metrics'', prom)]"

text \<open>The readiness of the two programs with a Kafka producer, and of the API.\<close>

definition ready_both :: "(ctx \<Rightarrow> 'w \<Rightarrow> goerr option \<times> 'w) \<Rightarrow> (ctx \<Rightarrow> 'w \<Rightarrow> goerr option \<times> 'w) \<Rightarrow> 'w readiness" where
  "ready_both ping_pool ping_producer ctx w =
     (case ping_pool ctx w of
        (Some err, w1) \<Rightarrow> (Some err, w1)
      | (None, w1) \<Rightarrow> ping_producer ctx w1)"

definition health_server :: "string \<Rightarrow> server_config" where
  "health_server addr = \<lparr>srv_Addr = addr, srv_ReadHeaderTimeout = 5 * second, srv_ReadTimeout = 0, srv_WriteTimeout = 0,
     srv_IdleTimeout = 60 * second\<rparr>"

definition health_Serve :: "goerr option \<Rightarrow> (ctx \<Rightarrow> goerr option) \<Rightarrow> duration \<Rightarrow> goerr option" where
  "health_Serve failed shutdown shutdownTimeout = (case failed of
      Some err \<Rightarrow> if errors_is err ErrServerClosed then None else Some err
    | None \<Rightarrow> shutdown (with_timeout background shutdownTimeout))"

section \<open>Shutdown\<close>

text \<open>
  What happens while \<open>Wait\<close> runs, in order: one of the two goroutines hands over its result, the root context
  ends, or the timer fires, which only runs once \<open>cancel\<close> has been called.
\<close>

datatype wait_event = Result "goerr option" | RootDone | TimerFired

text \<open>\<open>None\<close>: still waiting. The flag says whether the root context is done.\<close>

fun wait_rest :: "duration \<Rightarrow> nat \<Rightarrow> goerr option \<Rightarrow> bool \<Rightarrow> wait_event list \<Rightarrow> goerr option option" where
  "wait_rest timeout 0 res done events = Some (if done then None else res)"
| "wait_rest timeout (Suc n) res done [] = None"
| "wait_rest timeout (Suc n) res done (Result err # events) =
     wait_rest timeout n (if res = None then err else res) done events"
| "wait_rest timeout (Suc n) res done (RootDone # events) = wait_rest timeout (Suc n) res True events"
| "wait_rest timeout (Suc n) res done (TimerFired # events) =
     Some (Some (errorf [Lit ''application shutdown exceeded '', DurText timeout]))"

fun Wait :: "duration \<Rightarrow> wait_event list \<Rightarrow> goerr option option" where
  "Wait timeout (Result err # events) = wait_rest timeout 1 err False events"
| "Wait timeout (RootDone # events) = wait_rest timeout 2 None True events"
| "Wait timeout (TimerFired # events) = Wait timeout events"
| "Wait timeout [] = None"

section \<open>Lemmas\<close>

lemma env_unset: "trim_space (getenv name) = '''' \<Longrightarrow> env getenv name fallback = fallback"
  by (simp add: env_def)

lemma env_set: "trim_space (getenv name) \<noteq> '''' \<Longrightarrow> env getenv name fallback = trim_space (getenv name)"
  by (simp add: env_def Let_def)

lemma split_on_nonempty: "split_on sep s \<noteq> []"
  by (induction s) (auto split: list.splits)

lemma split_on_no_sep: "p \<in> set (split_on sep s) \<Longrightarrow> sep \<notin> set p"
proof (induction s arbitrary: p)
  case (Cons c cs)
  then show ?case using split_on_nonempty [of sep cs] by (cases "split_on sep cs") (auto split: if_splits)
qed simp

lemma set_trim: "set (trim_space s) \<subseteq> set s"
proof -
  have "c \<in> set s" if "c \<in> set (trim_left s)" for c s
    using that
  proof (induction s rule: trim_left.induct)
    case (1 s)
    then show ?case by (subst (asm) trim_left.simps) (auto split: if_splits dest: in_set_dropD)
  qed
  moreover have "c \<in> set s" if "c \<in> set (trim_right s)" for c s
    using that
  proof (induction s rule: trim_right.induct)
    case (1 s)
    then show ?case by (subst (asm) trim_right.simps) (auto split: if_splits dest: in_set_takeD)
  qed
  ultimately show ?thesis unfolding trim_space_def by blast
qed

text \<open>The results in a list of events, and the events up to a number of results.\<close>

definition results_of :: "wait_event list \<Rightarrow> goerr option list" where
  "results_of events = concat (map (\<lambda>ev. case ev of Result err \<Rightarrow> [err] | _ \<Rightarrow> []) events)"

fun until_results :: "nat \<Rightarrow> wait_event list \<Rightarrow> wait_event list" where
  "until_results 0 events = []"
| "until_results (Suc n) [] = []"
| "until_results (Suc n) (Result err # events) = Result err # until_results n events"
| "until_results (Suc n) (RootDone # events) = RootDone # until_results (Suc n) events"
| "until_results (Suc n) (TimerFired # events) = TimerFired # until_results (Suc n) events"

definition first_failure :: "goerr option list \<Rightarrow> goerr option" where
  "first_failure rs = (case find (\<lambda>r. r \<noteq> None) rs of Some e \<Rightarrow> e | None \<Rightarrow> None)"

lemma results_of_simps [simp]:
  "results_of [] = []" "results_of (Result err # events) = err # results_of events"
  "results_of (RootDone # events) = results_of events" "results_of (TimerFired # events) = results_of events"
  by (simp_all add: results_of_def)

lemma wait_rest_results:
  "TimerFired \<notin> set events \<Longrightarrow> n \<le> length (results_of events) \<Longrightarrow>
     wait_rest timeout n res done events =
       Some (if done \<or> RootDone \<in> set (until_results n events) then None else first_failure (res # take n (results_of events)))"
proof (induction timeout n res "done" events rule: wait_rest.induct)
  case (3 timeout n res "done" err events)
  then show ?case by (simp add: first_failure_def)
qed (simp_all add: first_failure_def)

text \<open>Whatever LOG_LEVEL holds, errors are written, and the informational records unless it asks for less.\<close>

lemma log_enabled_cases:
  "log_enabled level LevelError"
  "log_enabled level LevelInfo \<longleftrightarrow> to_lower level \<notin> {''warn'', ''error''}"
  "log_enabled level LevelDebug \<longleftrightarrow> to_lower level = ''debug''"
  by (simp_all add: log_enabled_def log_level_of_def Let_def less_eq_log_level_def)

text \<open>
  The exit of a program with two goroutines: once both have handed over their results in time, \<open>Wait\<close>
  returns nil if the root context ended before the second result (a signal asked for the stop), and
  otherwise the first failure in the order of the results; it does not return before.
\<close>
lemma Wait_results:
  assumes "TimerFired \<notin> set events" and "2 \<le> length (results_of events)"
  shows "Wait timeout events = Some (if RootDone \<in> set (until_results 2 events) then None
    else first_failure (take 2 (results_of events)))"
proof (cases events)
  case (Cons ev rest)
  show ?thesis
  proof (cases ev)
    case (Result err)
    then show ?thesis
      using assms Cons by (simp add: wait_rest_results numeral_2_eq_2)
  next
    case RootDone
    then show ?thesis using assms Cons by (simp add: wait_rest_results numeral_2_eq_2)
  qed (use assms Cons in simp)
qed (use assms in simp)

section \<open>Properties\<close>

text \<open>
  \<open>config.Int\<close> yields a number exactly when it is positive and is the fallback of an unset (or blank)
  variable, or the decimal value of a set one.
\<close>
theorem config_Int_characterised:
  "config_Int getenv name fallback = Inr v \<longleftrightarrow> 0 < sint v
     \<and> (if trim_space (getenv name) = '''' then v = fallback else atoi (trim_space (getenv name)) = Some v)"
  by (auto simp: config_Int_def env_def Let_def split: option.splits)

text \<open>
  What \<open>LoadCommon\<close> accepts: a database URL, and at least one broker, each of them a non-empty name
  without a comma and without space around it; the defaults are acceptable.
\<close>
theorem LoadCommon_accepts:
  assumes "LoadCommon getenv service addr = Inr cfg"
  shows "DatabaseURL cfg = getenv ''DATABASE_URL'' \<and> DatabaseURL cfg \<noteq> '''' \<and> KafkaBrokers cfg \<noteq> []
    \<and> (\<forall>b \<in> set (KafkaBrokers cfg). b \<noteq> '''' \<and> CHR '','' \<notin> set b \<and> trim_space b = b)
    \<and> (trim_space (getenv ''KAFKA_BROKERS'') = '''' \<longrightarrow> KafkaBrokers cfg = [''localhost:29092''])"
proof -
  have part: "CHR '','' \<notin> set (trim_space p)" if "p \<in> set (split_on (CHR '','') s)" for p s
    using split_on_no_sep [OF that] set_trim by blast
  have "splitNonEmpty ''localhost:29092'' = [''localhost:29092'']"
    by (simp add: splitNonEmpty_def ascii_simps)
  then show ?thesis
    using assms part by (auto simp: LoadCommon_def Let_def splitNonEmpty_def env_unset split: if_splits)
qed

theorem LoadCommon_accepts_witness:
  "KafkaBrokers \<lparr>ServiceName = ''api'', DatabaseURL = ''postgres:'', KafkaBrokers = [''localhost:29092''], LogLevel = ''info'',
     HealthAddr = '':8080''\<rparr> \<noteq> []"
proof -
  have "splitNonEmpty ''localhost:29092'' = [''localhost:29092'']"
    by (simp add: splitNonEmpty_def ascii_simps)
  then have "LoadCommon (\<lambda>name. if name = ''DATABASE_URL'' then ''postgres:'' else '''') ''api'' '':8080'' =
      Inr \<lparr>ServiceName = ''api'', DatabaseURL = ''postgres:'', KafkaBrokers = [''localhost:29092''], LogLevel = ''info'', HealthAddr = '':8080''\<rparr>"
    by (simp add: LoadCommon_def Let_def env_def)
  from LoadCommon_accepts [OF this] show ?thesis by blast
qed

text \<open>Which of the endpoints a request reaches.\<close>

lemma single_segment [simp]: "segments_match [Exactly s] xs \<longleftrightarrow> xs = [s]"
  by (cases xs; cases "tl xs") auto

definition endpoint :: "string \<Rightarrow> string \<Rightarrow> pattern" where
  "endpoint path txt = Route ''GET'' [Exactly path] txt"

lemma health_dispatch:
  "health_Handler ready prom W rq r w =
    (if rq_Segments rq \<notin> {[''health''], [''ready''], [''metrics'']} then
       (rq\<lparr>rq_Pattern := '''', rq_PathValue := ''''\<rparr>, http_Error W ''404 page not found'' 404 r, w)
     else if \<not> method_matches ''GET'' (rq_Method rq) then
       (rq\<lparr>rq_Pattern := '''', rq_PathValue := ''''\<rparr>, http_Error W ''Method Not Allowed'' 405 (wr_Set W ''Allow'' ''GET, HEAD'' r), w)
     else if rq_Segments rq = [''health''] then health_live W (matched_request (endpoint ''health'' ''GET /health'') rq) r w
     else if rq_Segments rq = [''ready''] then health_ready ready W (matched_request (endpoint ''ready'' ''GET /ready'') rq) r w
     else prom W (rq\<lparr>rq_Pattern := ''GET /metrics'', rq_PathValue := ''''\<rparr>) r w)"
  by (simp add: health_Handler_def mux_serve_def endpoint_def)

lemma matched_context [simp]: "rq_Context (matched_request p rq) = rq_Context rq"
  by (cases p) simp_all

text \<open>
  C34. The operational endpoints tell the truth: GET (or HEAD) of /health is answered with 200, of /ready with
  200 exactly when the readiness check under a two second timeout finds nothing and with 503 otherwise, and
  of /metrics by the Prometheus handler, which alone decides what it answers. Another method on one of the
  three paths gets 405, another path 404; and apart from /metrics only /ready touches what is behind it.
\<close>
theorem endpoints_tell_the_truth:
  assumes "health_Handler ready prom net_writer rq response_start w = (rq', r, w')"
  defines "get \<equiv> rq_Method rq \<in> {''GET'', ''HEAD''}" and "asked \<equiv> ready (with_timeout (rq_Context rq) (2 * second)) w"
  shows "if get \<and> rq_Segments rq = [''metrics'']
    then (rq', r, w') = prom net_writer (rq\<lparr>rq_Pattern := ''GET /metrics'', rq_PathValue := ''''\<rparr>) response_start w
    else sent_status r = Some (if rq_Segments rq \<notin> {[''health''], [''ready''], [''metrics'']} then 404 else if \<not> get then 405
        else if rq_Segments rq = [''ready''] \<and> fst asked \<noteq> None then 503 else 200)
      \<and> w' = (if get \<and> rq_Segments rq = [''ready''] then snd asked else w)"
proof -
  have start: "rs_sent response_start = None" by (simp add: response_start_def)
  have sent: "sent_status (writeJSON net_writer status json response_start) = Some status" for status json
    by (simp add: writeJSON_net start sent_status_def)
  have get: "method_matches ''GET'' (rq_Method rq) = get" by (auto simp: method_matches_def get_def)
  obtain res w1 where a: "asked = (res, w1)" by fastforce
  note dispatch = assms(1) [unfolded health_dispatch get]
  consider (missing) "rq_Segments rq \<notin> {[''health''], [''ready''], [''metrics'']}"
    | (refused) "rq_Segments rq \<in> {[''health''], [''ready''], [''metrics'']}" "\<not> get"
    | (live) "rq_Segments rq = [''health'']" get | (asks) "rq_Segments rq = [''ready'']" get
    | (metrics) "rq_Segments rq = [''metrics'']" get by blast
  then show ?thesis
  proof cases
    case missing
    then show ?thesis using dispatch start by (auto simp: http_Error_sent)
  next
    case refused
    then show ?thesis using dispatch start by (auto simp: http_Error_sent)
  next
    case live
    then show ?thesis using dispatch by (auto simp: health_live_def sent)
  next
    case asks
    then show ?thesis using dispatch a by (cases res) (auto simp: health_ready_def asked_def sent)
  next
    case metrics
    then show ?thesis using dispatch by simp
  qed
qed

definition get_ready :: request where
  "get_ready = \<lparr>rq_Method = ''GET'', rq_Segments = [''ready''], rq_Header = [], rq_Body = \<lparr>br_bytes = '''', br_end = errorf []\<rparr>,
     rq_Context = background, rq_Pattern = '''', rq_PathValue = ''''\<rparr>"

theorem endpoints_tell_the_truth_witness:
  "sent_status (fst (snd (health_Handler (\<lambda>ctx w. (Some ctx_canceled, Suc w)) (\<lambda>W rq r w. (rq, r, w)) net_writer get_ready response_start 0)))
     = Some 503"
proof -
  let ?x = "health_Handler (\<lambda>ctx w. (Some ctx_canceled, Suc w)) (\<lambda>W rq r w. (rq, r, w)) net_writer get_ready response_start (0 :: nat)"
  have "?x = (fst ?x, fst (snd ?x), snd (snd ?x))" by simp
  from endpoints_tell_the_truth [OF this] show ?thesis by (simp add: get_ready_def)
qed

end
