(* ===== verification/Order_Store.thy ===== *)
theory Order_Store
  imports Host
begin

text \<open>
  internal/order/postgres.go and internal/order/service.go: the transaction that inserts an order, its
  items and its OrderCreated event, the read that puts an order together again, and the service that
  runs over any store. The interface \<open>Store\<close> of the Go code is the record \<open>store\<close>; its contract is the
  locale \<open>order_store\<close>, which the PostgreSQL store satisfies (interpretation \<open>pg_store\<close>).
\<close>

section \<open>PostgresStore\<close>

definition order_row_of :: "pg \<Rightarrow> order \<Rightarrow> order_row" where
  "order_row_of P ord = \<lparr>o_id = order_ID ord, o_customer_id = order_CustomerID ord,
     o_warehouse_id = order_WarehouseID ord, o_status = order_Status ord,
     o_currency = order_Currency ord, o_total_amount_minor = order_TotalAmountMinor ord,
     o_created_at = pg_timestamp P (order_CreatedAt ord),
     o_updated_at = pg_timestamp P (order_UpdatedAt ord)\<rparr>"

definition item_row_of :: "uuid \<Rightarrow> item \<Rightarrow> item_row" where
  "item_row_of oid i = \<lparr>i_order_id = oid, i_sku = SKU i, i_quantity = Quantity i,
     i_unit_price_minor = UnitPriceMinor i\<rparr>"

fun insert_items :: "pg \<Rightarrow> uuid \<Rightarrow> item list \<Rightarrow> 'z server_scheme \<Rightarrow> unit result \<times> 'z server_scheme" where
  "insert_items P oid [] s = (Inr (), s)"
| "insert_items P oid (i # rest) s =
     (case query (insert_item P (item_row_of oid i)) s of
        (Inl e, s1) \<Rightarrow> (Inl (wrapfs [Lit ''insert order item '', Quoted (SKU i), Lit '': ''] e), s1)
      | (Inr _, s1) \<Rightarrow> insert_items P oid rest s1)"

definition CreateWithEvent ::
  "pg \<Rightarrow> ('c) codec_scheme \<Rightarrow> order \<Rightarrow> envelope \<Rightarrow> 'z server_scheme \<Rightarrow> goerr option \<times> 'z server_scheme" where
  "CreateWithEvent P C created envelope s =
     (case begin_tx s of
        (Inl e, s1) \<Rightarrow> (Some (wrapf ''begin transaction: '' e), s1)
      | (Inr _, s1) \<Rightarrow>
     (case query (insert_order P (order_row_of P created)) s1 of
        (Inl e, s2) \<Rightarrow> (Some (wrapf ''insert order: '' e), rollback s1 s2)
      | (Inr _, s2) \<Rightarrow>
     (case insert_items P (order_ID created) (order_Items created) s2 of
        (Inl e, s3) \<Rightarrow> (Some e, rollback s1 s3)
      | (Inr _, s3) \<Rightarrow>
     (case marshal_envelope C envelope of
        Inl e \<Rightarrow> (Some (wrapf ''marshal outbox envelope: '' e), rollback s1 s3)
      | Inr payload \<Rightarrow>
     (case query (insert_outbox P (sv_now s3) (EventID envelope) (AggregateID envelope)
                    (EventType envelope) payload (OccurredAt envelope)) s3 of
        (Inl e, s4) \<Rightarrow> (Some (wrapf ''insert outbox event: '' e), rollback s1 s4)
      | (Inr _, s4) \<Rightarrow>
     (case commit s1 s4 of
        (Inl e, s5) \<Rightarrow> (Some (wrapf ''commit transaction: '' e), s5)
      | (Inr _, s5) \<Rightarrow> (None, s5)))))))"

definition no_rows :: goerr where
  "no_rows = GoErr [ErrNoRows] [Lit ''no rows in result set'']"

definition err_not_found :: goerr where
  "err_not_found = GoErr [ErrNotFound] [Lit ''order not found'']"

definition select_order :: "uuid \<Rightarrow> order_row stmt" where
  "select_order oid d =
     (case find (\<lambda>r. o_id r = oid) (orders d) of None \<Rightarrow> Inl no_rows | Some r \<Rightarrow> Inr (r, d))"

definition select_items :: "pg \<Rightarrow> uuid \<Rightarrow> item_row list stmt" where
  "select_items P oid d =
     Inr (sort_key (\<lambda>r. pg_sort_key P (i_sku r)) (filter (\<lambda>r. i_order_id r = oid) (order_items d)), d)"

definition item_of_row :: "item_row \<Rightarrow> item" where
  "item_of_row r = \<lparr>SKU = i_sku r, Quantity = i_quantity r, UnitPriceMinor = i_unit_price_minor r\<rparr>"

definition order_of_row :: "order_row \<Rightarrow> item_row list \<Rightarrow> order" where
  "order_of_row r is = \<lparr>order_ID = o_id r, order_CustomerID = o_customer_id r,
     order_WarehouseID = o_warehouse_id r, order_Status = o_status r, order_Currency = o_currency r,
     order_TotalAmountMinor = o_total_amount_minor r, order_Items = map item_of_row is,
     order_CreatedAt = o_created_at r, order_UpdatedAt = o_updated_at r\<rparr>"

text \<open>
  The two reads of \<open>Get\<close>; a failure while the item rows are read (\<open>rows.Err\<close>) is a round trip of its
  own. A scan of a row cannot fail: the columns are NOT NULL and have the types of the fields.
\<close>

definition Get_order :: "pg \<Rightarrow> uuid \<Rightarrow> 'z server_scheme \<Rightarrow> order result \<times> 'z server_scheme" where
  "Get_order P oid s =
     (case query (select_order oid) s of
        (Inl e, s1) \<Rightarrow>
          if errors_is e ErrNoRows then (Inl err_not_found, s1)
          else (Inl (wrapf ''select order: '' e), s1)
      | (Inr found, s1) \<Rightarrow>
     (case query (select_items P oid) s1 of
        (Inl e, s2) \<Rightarrow> (Inl (wrapf ''select order items: '' e), s2)
      | (Inr rows, s2) \<Rightarrow>
     (case query (\<lambda>d. Inr ((), d)) s2 of
        (Inl e, s3) \<Rightarrow> (Inl (wrapf ''iterate order items: '' e), s3)
      | (Inr _, s3) \<Rightarrow> (Inr (order_of_row found rows), s3))))"

section \<open>The store interface and the service\<close>

record 'w store =
  st_CreateWithEvent :: "ctx \<Rightarrow> order \<Rightarrow> envelope \<Rightarrow> 'w \<Rightarrow> goerr option \<times> 'w"
  st_Get :: "ctx \<Rightarrow> uuid \<Rightarrow> 'w \<Rightarrow> order result \<times> 'w"

definition postgres_store :: "pg \<Rightarrow> ('c) codec_scheme \<Rightarrow> ('z server_scheme) store" where
  "postgres_store P C = \<lparr>st_CreateWithEvent = (\<lambda>ctx. CreateWithEvent P C), st_Get = (\<lambda>ctx. Get_order P)\<rparr>"

definition created_payload_of :: "order \<Rightarrow> created_payload" where
  "created_payload_of ord = \<lparr>cp_CustomerID = order_CustomerID ord, cp_WarehouseID = order_WarehouseID ord,
     cp_Currency = order_Currency ord, cp_TotalAmountMinor = order_TotalAmountMinor ord,
     cp_Items = order_Items ord\<rparr>"

text \<open>\<open>order.New\<close> and \<open>event.New\<close> with their clock readings and ids taken from the run time.\<close>

definition run_New_order :: "'w runtime \<Rightarrow> create_command \<Rightarrow> 'w \<Rightarrow> order result \<times> 'w" where
  "run_New_order R c w =
     (case validate c of
        Inl e \<Rightarrow> (Inl e, w)
      | Inr _ \<Rightarrow> (case rt_now R w of (now, w1) \<Rightarrow>
                  (case rt_uuid R w1 of (oid, w2) \<Rightarrow> (New_order now oid c, w2))))"

definition run_New_envelope ::
  "'w runtime \<Rightarrow> string \<Rightarrow> uuid \<Rightarrow> string \<Rightarrow> string result \<Rightarrow> 'w \<Rightarrow> envelope result \<times> 'w" where
  "run_New_envelope R ty agg rid raw w =
     (case raw of
        Inl e \<Rightarrow> (Inl (wrapf ''marshal event payload: '' e), w)
      | Inr _ \<Rightarrow> (case rt_uuid R w of (eid, w1) \<Rightarrow>
                  (case rt_now R w1 of (now, w2) \<Rightarrow> (New_envelope eid now ty agg rid raw, w2))))"

definition service_request_id ::
  "'w runtime \<Rightarrow> ('c) codec_scheme \<Rightarrow> ctx \<Rightarrow> 'w \<Rightarrow> string \<times> 'w" where
  "service_request_id R C ctx w =
     (if RequestID ctx = '''' then (case rt_uuid R w of (u, w1) \<Rightarrow> (lib_uuid_string C u, w1))
      else (RequestID ctx, w))"

definition Service_Create ::
  "'w runtime \<Rightarrow> ('c) codec_scheme \<Rightarrow> 'w store \<Rightarrow> ctx \<Rightarrow> create_command \<Rightarrow> 'w \<Rightarrow> order result \<times> 'w" where
  "Service_Create R C st ctx command w =
     (case run_New_order R command w of
        (Inl e, w1) \<Rightarrow> (Inl e, w1)
      | (Inr created, w1) \<Rightarrow>
     (case service_request_id R C ctx w1 of (requestID, w2) \<Rightarrow>
     (case run_New_envelope R OrderCreated (order_ID created) requestID
             (marshal_created C (created_payload_of created)) w2 of
        (Inl e, w3) \<Rightarrow> (Inl (wrapf ''build order created event: '' e), w3)
      | (Inr envelope, w3) \<Rightarrow>
     (case st_CreateWithEvent st ctx created envelope w3 of
        (Some e, w4) \<Rightarrow> (Inl (wrapf ''create order: '' e), w4)
      | (None, w4) \<Rightarrow> (Inr created, w4)))))"

definition Service_Get :: "'w store \<Rightarrow> ctx \<Rightarrow> uuid \<Rightarrow> 'w \<Rightarrow> order result \<times> 'w" where
  "Service_Get st ctx oid w = st_Get st ctx oid w"

section \<open>Atomicity of the creation transaction\<close>

text \<open>The one change the transaction may make: the order, its items and the event, all together.\<close>

definition created_db ::
  "pg \<Rightarrow> time \<Rightarrow> order \<Rightarrow> envelope \<Rightarrow> string \<Rightarrow> db \<Rightarrow> db" where
  "created_db P now created envelope json d = d\<lparr>
     orders := orders d @ [order_row_of P created],
     order_items := order_items d @ map (item_row_of (order_ID created)) (order_Items created),
     outbox_events := outbox_events d @ [fresh_outbox_row P now (EventID envelope)
        (AggregateID envelope) (EventType envelope) json (OccurredAt envelope)]\<rparr>"

definition create_effect ::
  "pg \<Rightarrow> ('c) codec_scheme \<Rightarrow> time \<Rightarrow> order \<Rightarrow> envelope \<Rightarrow> db \<Rightarrow> db \<Rightarrow> bool" where
  "create_effect P C now created envelope d d' \<longleftrightarrow>
     (\<exists>payload json. marshal_envelope C envelope = Inr payload \<and> pg_jsonb P payload = Some json
        \<and> d' = created_db P now created envelope json d
        \<and> order_ID created \<notin> set (map o_id (orders d)) \<and> (db_ok d \<longrightarrow> db_ok d'))"

lemma insert_items_Inr:
  "insert_items P oid is s = (Inr (), s') \<Longrightarrow>
     sv_db s' = (sv_db s)\<lparr>order_items := order_items (sv_db s) @ map (item_row_of oid) is\<rparr>
     \<and> sv_now s' = sv_now s \<and> (db_ok (sv_db s) \<longrightarrow> db_ok (sv_db s'))"
proof (induction P oid "is" s rule: insert_items.induct)
  case (2 P oid i rest s)
  then obtain s1 where q: "query (insert_item P (item_row_of oid i)) s = (Inr (), s1)"
    and rec: "insert_items P oid rest s1 = (Inr (), s')"
    by (auto split: prod.splits sum.splits)
  have "sv_db s1 = (sv_db s)\<lparr>order_items := order_items (sv_db s) @ [item_row_of oid i]\<rparr>"
    using query_Inr [OF q] by (auto simp: insert_item_def split: if_splits)
  moreover have "db_ok (sv_db s) \<longrightarrow> db_ok (sv_db s1)"
    using query_keeps [OF insert_item_keeps] q by blast
  ultimately show ?case
    using "2.IH" [OF q [symmetric] refl rec] query_now [OF q] by auto
qed simp

lemma insert_order_Inr:
  "query (insert_order P r) s = (Inr (), s') \<Longrightarrow>
     sv_db s' = (sv_db s)\<lparr>orders := orders (sv_db s) @ [r]\<rparr> \<and> o_id r \<notin> set (map o_id (orders (sv_db s)))"
  by (drule query_Inr) (auto simp: insert_order_def split: if_splits)

lemma insert_outbox_Inr:
  "query (insert_outbox P now eid agg ty payload created) s = (Inr (), s') \<Longrightarrow>
     \<exists>json. pg_jsonb P payload = Some json \<and> sv_db s' = (sv_db s)\<lparr>outbox_events :=
       outbox_events (sv_db s) @ [fresh_outbox_row P now eid agg ty json created]\<rparr>"
  by (drule query_Inr) (auto simp: insert_outbox_def split: if_splits option.splits)

lemma CreateWithEvent_cases:
  assumes "CreateWithEvent P C created envelope s = (r, s')"
  shows "(r = None \<and> create_effect P C (sv_now s) created envelope (sv_db s) (sv_db s'))
    \<or> (\<exists>e. r = Some e \<and> sv_db s' = sv_db s)
    \<or> (\<exists>e. r = Some e \<and> create_effect P C (sv_now s) created envelope (sv_db s) (sv_db s'))"
proof (cases "\<exists>e. r = Some e \<and> sv_db s' = sv_db s")
  case False
  obtain b s1 where b: "begin_tx s = (b, s1)" by fastforce
  note s1 = begin_tx_db [OF b]
  from False assms b s1 obtain s2 s3 s4 payload c where
    o: "query (insert_order P (order_row_of P created)) s1 = (Inr (), s2)"
    and it: "insert_items P (order_ID created) (order_Items created) s2 = (Inr (), s3)"
    and m: "marshal_envelope C envelope = Inr payload"
    and ob: "query (insert_outbox P (sv_now s3) (EventID envelope) (AggregateID envelope)
               (EventType envelope) payload (OccurredAt envelope)) s3 = (Inr (), s4)"
    and c: "commit s1 s4 = (c, s')" and r: "c = Inr () \<and> r = None \<or> (\<exists>e. c = Inl e \<and> r \<noteq> None)"
    by (auto simp: CreateWithEvent_def split: prod.splits sum.splits)
  have now: "sv_now s3 = sv_now s"
    using insert_items_Inr [OF it] query_now [OF o] s1 by simp
  have keep: "db_ok (sv_db s) \<longrightarrow> db_ok (sv_db s4)"
    using query_keeps [OF insert_order_keeps _ o] insert_items_Inr [OF it]
      query_keeps [OF insert_outbox_keeps _ ob] s1 by auto
  have "create_effect P C (sv_now s) created envelope (sv_db s) (sv_db s4)"
    using insert_outbox_Inr [OF ob] insert_items_Inr [OF it] insert_order_Inr [OF o] m keep s1
    by (auto simp: create_effect_def created_db_def now order_row_of_def)
  with r False s1 show ?thesis
    by (cases rule: commit_cases [OF c]) auto
qed simp

section \<open>The contract of a store\<close>

text \<open>
  A store shows, for each id, at most one order. A successful \<open>CreateWithEvent\<close> adds the order in the
  form the store keeps it (\<open>canon\<close>); a failed one adds it or changes nothing; \<open>Get\<close> reads the view and
  reports \<open>ErrNotFound\<close> only where there is nothing. Reading the clock and taking ids do not disturb it.
\<close>

locale order_store =
  fixes st :: "'w store"
    and R :: "'w runtime"
    and inv :: "'w \<Rightarrow> bool"
    and view :: "'w \<Rightarrow> uuid \<Rightarrow> order option"
    and canon :: "order \<Rightarrow> order"
  assumes create_ok: "inv w \<Longrightarrow> st_CreateWithEvent st ctx ord env w = (None, w') \<Longrightarrow>
      inv w' \<and> view w' = (view w)(order_ID ord \<mapsto> canon ord)"
    and create_err: "inv w \<Longrightarrow> st_CreateWithEvent st ctx ord env w = (Some e, w') \<Longrightarrow>
      inv w' \<and> (view w' = view w \<or> view w' = (view w)(order_ID ord \<mapsto> canon ord))"
    and get_ok: "inv w \<Longrightarrow> st_Get st ctx i w = (Inr ord, w') \<Longrightarrow>
      inv w' \<and> view w' = view w \<and> view w i = Some ord"
    and get_err: "inv w \<Longrightarrow> st_Get st ctx i w = (Inl e, w') \<Longrightarrow>
      inv w' \<and> view w' = view w \<and> (errors_is e ErrNotFound \<longrightarrow> view w i = None)"
    and now_inv: "inv w \<Longrightarrow> rt_now R w = (t, w') \<Longrightarrow> inv w' \<and> view w' = view w"
    and uuid_inv: "inv w \<Longrightarrow> rt_uuid R w = (u, w') \<Longrightarrow> inv w' \<and> view w' = view w"
begin

lemma run_New_order_view:
  "inv w \<Longrightarrow> run_New_order R c w = (r, w') \<Longrightarrow> inv w' \<and> view w' = view w"
  by (auto simp: run_New_order_def split: sum.splits prod.splits) (metis now_inv uuid_inv)+

lemma run_New_envelope_view:
  "inv w \<Longrightarrow> run_New_envelope R ty agg rid raw w = (r, w') \<Longrightarrow> inv w' \<and> view w' = view w"
  by (auto simp: run_New_envelope_def split: sum.splits prod.splits) (metis now_inv uuid_inv)+

lemma request_id_view:
  "inv w \<Longrightarrow> service_request_id R C ctx w = (rid, w') \<Longrightarrow> inv w' \<and> view w' = view w"
  by (auto simp: service_request_id_def dest: uuid_inv split: if_splits prod.splits)

lemma Service_Create_view:
  assumes "inv w" and "Service_Create R C st ctx command w = (r, w')"
  shows "inv w' \<and> (case r of
      Inr ord \<Rightarrow> view w' = (view w)(order_ID ord \<mapsto> canon ord)
    | Inl e \<Rightarrow> view w' = view w \<or> (\<exists>ord. view w' = (view w)(order_ID ord \<mapsto> canon ord)))"
proof -
  obtain x1 w1 where 1: "run_New_order R command w = (x1, w1)" by fastforce
  obtain rid w2 where 2: "service_request_id R C ctx w1 = (rid, w2)" by fastforce
  note v1 = run_New_order_view [OF assms(1) 1]
  note v2 = request_id_view [OF conjunct1 [OF v1] 2]
  show ?thesis
  proof (cases x1)
    case (Inl e)
    then show ?thesis using assms(2) v1 by (auto simp: Service_Create_def 1)
  next
    case (Inr created)
    obtain x3 w3 where 3: "run_New_envelope R OrderCreated (order_ID created) rid
       (marshal_created C (created_payload_of created)) w2 = (x3, w3)" by fastforce
    note v3 = run_New_envelope_view [OF conjunct1 [OF v2] 3]
    show ?thesis
    proof (cases x3)
      case (Inl e)
      then show ?thesis using assms(2) v1 v2 v3 Inr by (auto simp: Service_Create_def 1 2 3)
    next
      case (Inr env)
      obtain x4 w4 where 4: "st_CreateWithEvent st ctx created env w3 = (x4, w4)" by fastforce
      show ?thesis
        using assms(2) v1 v2 v3 Inr \<open>x1 = Inr created\<close> 4 create_ok [of w3 ctx created env w4]
          create_err [of w3 ctx created env _ w4]
        by (cases x4) (auto simp: Service_Create_def 1 2 3)
    qed
  qed
qed

lemma create_then_get:
  assumes "inv w" and "Service_Create R C st ctx command w = (Inr ord, w1)"
    and "Service_Get st ctx' (order_ID ord) w1 = (r, w2)"
  shows "case r of Inr found \<Rightarrow> found = canon ord | Inl e \<Rightarrow> \<not> errors_is e ErrNotFound"
  using Service_Create_view [OF assms(1,2)] assms(3) get_ok [of w1 ctx' "order_ID ord" _ w2]
    get_err [of w1 ctx' "order_ID ord" _ w2]
  by (cases r) (auto simp: Service_Get_def)

end

lemma run_New_envelope_frame:
  fixes w :: "'z host_scheme"
  assumes "run_New_envelope host_runtime ty agg rid raw w = (r, w')" and "\<And>w n. f (w\<lparr>h_next := n\<rparr>) = f w"
  shows "f w' = f w"
proof -
  have "f (snd (run_New_envelope host_runtime ty agg rid raw w)) = f w"
    by (simp add: run_New_envelope_def assms(2) split: sum.split)
  then show ?thesis using assms(1) by simp
qed

section \<open>PostgreSQL as a store\<close>

definition canon_order :: "pg \<Rightarrow> order \<Rightarrow> order" where
  "canon_order P ord = ord\<lparr>
     order_Items := sort_key (\<lambda>i. pg_sort_key P (SKU i)) (order_Items ord),
     order_CreatedAt := pg_timestamp P (order_CreatedAt ord),
     order_UpdatedAt := pg_timestamp P (order_UpdatedAt ord)\<rparr>"

definition db_view :: "pg \<Rightarrow> db \<Rightarrow> uuid \<Rightarrow> order option" where
  "db_view P d i = map_option
     (\<lambda>r. order_of_row r (sort_key (\<lambda>r. pg_sort_key P (i_sku r)) (filter (\<lambda>r. i_order_id r = i) (order_items d))))
     (find (\<lambda>r. o_id r = i) (orders d))"

lemma insort_key_map: "insort_key f (g x) (map g ys) = map g (insort_key (\<lambda>x. f (g x)) x ys)"
  by (induction ys) simp_all

lemma sort_key_map: "sort_key f (map g xs) = map g (sort_key (\<lambda>x. f (g x)) xs)"
  by (induction xs) (simp_all add: insort_key_map)

lemma item_of_row_of [simp]: "item_of_row (item_row_of oid i) = i"
  by (simp add: item_of_row_def item_row_of_def)

lemma i_sku_item_row_of: "i_sku (item_row_of oid i) = SKU i"
  by (simp add: item_row_of_def)

lemma o_id_order_row_of [simp]: "o_id (order_row_of P ord) = order_ID ord"
  by (simp add: order_row_of_def)

lemma order_of_order_row: "order_of_row (order_row_of P ord) is = ord\<lparr>order_Items := map item_of_row is,
    order_CreatedAt := pg_timestamp P (order_CreatedAt ord),
    order_UpdatedAt := pg_timestamp P (order_UpdatedAt ord)\<rparr>"
  by (cases ord) (simp add: order_of_row_def order_row_of_def)

lemma find_append: "find p (xs @ ys) = (case find p xs of None \<Rightarrow> find p ys | Some x \<Rightarrow> Some x)"
  by (induction xs) auto

lemma find_order_None: "find (\<lambda>r. o_id r = i) rs = None \<longleftrightarrow> i \<notin> set (map o_id rs)"
  by (auto simp: find_None_iff)

lemma db_view_created:
  assumes "db_ok d" and "order_ID ord \<notin> set (map o_id (orders d))"
  shows "db_view P (created_db P now ord env json d) = (db_view P d)(order_ID ord \<mapsto> canon_order P ord)"
proof
  fix i
  have none: "filter (\<lambda>r. i_order_id r = order_ID ord) (order_items d) = []"
    using assms unfolding db_ok_def filter_empty_conv list_all_iff by metis
  have other: "i \<noteq> order_ID ord \<Longrightarrow>
      filter (\<lambda>r. i_order_id r = i) (map (item_row_of (order_ID ord)) xs) = []" for xs
    by (auto simp: filter_empty_conv item_row_of_def)
  have own: "filter (\<lambda>r. i_order_id r = order_ID ord) (map (item_row_of (order_ID ord)) xs)
      = map (item_row_of (order_ID ord)) xs" for xs
    by (induction xs) (auto simp: item_row_of_def)
  have fresh: "find (\<lambda>r. o_id r = order_ID ord) (orders d) = None"
    using assms(2) by (simp add: find_order_None)
  show "db_view P (created_db P now ord env json d) i
      = ((db_view P d)(order_ID ord \<mapsto> canon_order P ord)) i"
  proof (cases "i = order_ID ord")
    case True
    show ?thesis
      unfolding True
      by (simp add: db_view_def created_db_def find_append fresh none own sort_key_map
          order_of_order_row canon_order_def comp_def i_sku_item_row_of)
  next
    case False
    then show ?thesis
      by (simp add: db_view_def created_db_def find_append other order_row_of_def split: option.split)
  qed
qed

lemma insert_items_plan_ok:
  "insert_items P oid is s = (r, s') \<Longrightarrow> list_all foreign_reply (sv_plan s) \<Longrightarrow> list_all foreign_reply (sv_plan s')"
proof (induction P oid "is" s arbitrary: r rule: insert_items.induct)
  case (2 P oid i rest s)
  obtain x s1 where q: "query (insert_item P (item_row_of oid i)) s = (x, s1)" by fastforce
  with 2 query_plan_ok [OF q] show ?case by (cases x) auto
qed simp

lemma begin_tx_plan_ok:
  "begin_tx s = (r, s') \<Longrightarrow> list_all foreign_reply (sv_plan s) \<Longrightarrow> list_all foreign_reply (sv_plan s')"
  unfolding begin_tx_def by (rule query_plan_ok)

lemma CreateWithEvent_plan_ok:
  "CreateWithEvent P C created envelope s = (r, s') \<Longrightarrow> list_all foreign_reply (sv_plan s) \<Longrightarrow>
     list_all foreign_reply (sv_plan s')"
  by (auto simp: CreateWithEvent_def split: prod.splits sum.splits
      dest!: begin_tx_plan_ok query_plan_ok insert_items_plan_ok commit_plan_ok)

lemma select_order_query:
  assumes "query (select_order i) s = (r, s')" and "server_ok s"
  shows "server_ok s' \<and> sv_db s' = sv_db s \<and> (case r of
      Inr row \<Rightarrow> find (\<lambda>r. o_id r = i) (orders (sv_db s)) = Some row
    | Inl e \<Rightarrow> errors_is e ErrNoRows \<longrightarrow> find (\<lambda>r. o_id r = i) (orders (sv_db s)) = None)"
proof -
  have "keeps I (select_order i)" for I
    by (rule keepsI) (auto simp: select_order_def split: option.splits)
  then have "server_ok s'" and db: "sv_db s' = sv_db s"
    using assms query_server_ok [of "select_order i"] query_keeps [of "\<lambda>d. d = sv_db s" "select_order i"]
    by blast+
  then show ?thesis
    using assms query_error [of "select_order i" s] query_Inr [of "select_order i" s]
    by (cases r) (auto simp: server_ok_def foreign_error_def select_order_def split: option.splits)
qed

lemma read_query:
  assumes "query (\<lambda>d. Inr (f d, d)) s = (r, s')" and "server_ok s"
  shows "server_ok s' \<and> sv_db s' = sv_db s \<and> (case r of Inr a \<Rightarrow> a = f (sv_db s) | Inl e \<Rightarrow> foreign_error e)"
proof -
  have "keeps I (\<lambda>d. Inr (f d, d))" for I
    by (rule keepsI) auto
  then have "server_ok s'" and db: "sv_db s' = sv_db s"
    using assms query_server_ok [of "\<lambda>d. Inr (f d, d)"] query_keeps [of "\<lambda>d. d = sv_db s" "\<lambda>d. Inr (f d, d)"]
    by blast+
  then show ?thesis
    using assms query_error [of "\<lambda>d. Inr (f d, d)" s] query_Inr [of "\<lambda>d. Inr (f d, d)" s]
    by (cases r) (auto simp: server_ok_def)
qed

lemma Get_order_spec:
  assumes "Get_order P i s = (r, s')" and "server_ok s"
  shows "server_ok s' \<and> sv_db s' = sv_db s \<and> (case r of
      Inr ord \<Rightarrow> db_view P (sv_db s) i = Some ord
    | Inl e \<Rightarrow> errors_is e ErrNotFound \<longrightarrow> db_view P (sv_db s) i = None)"
proof -
  obtain x1 s1 where 1: "query (select_order i) s = (x1, s1)" by fastforce
  obtain x2 s2 where 2: "query (select_items P i) s1 = (x2, s2)" by fastforce
  obtain x3 s3 where 3: "query (\<lambda>d. Inr ((), d)) s2 = (x3, s3)" by fastforce
  note r1 = select_order_query [OF 1 assms(2)]
  note r2 = read_query [OF 2 [unfolded select_items_def] conjunct1 [OF r1]]
  note r3 = read_query [OF 3 conjunct1 [OF r2]]
  have nf: "errors_is err_not_found ErrNotFound"
    by (simp add: err_not_found_def errors_is_def)
  show ?thesis
  proof (cases x1)
    case (Inl e)
    have "foreign_error e \<or> errors_is e ErrNoRows \<and> \<not> errors_is e ErrNotFound"
      using query_error [of "select_order i" s e s1] 1 Inl assms(2)
      by (auto simp: server_ok_def select_order_def no_rows_def errors_is_def split: option.splits)
    with Inl show ?thesis
      using assms(1) r1 by (auto simp: Get_order_def 1 db_view_def foreign_error_def split: if_splits)
  next
    case (Inr row)
    then show ?thesis
      using assms(1) r1 r2 r3 by (cases x2; cases x3)
        (auto simp: Get_order_def 1 2 3 db_view_def foreign_error_def)
  qed
qed

interpretation pg_store: order_store "postgres_store P C" host_runtime server_ok
    "\<lambda>w. db_view P (sv_db w)" "canon_order P"
  for P and C :: "('c) codec_scheme"
proof (unfold_locales, goal_cases)
  case (1 w ctx ord env w')
  then show ?case
    using CreateWithEvent_cases [of P C ord env w None w'] CreateWithEvent_plan_ok [of P C ord env w None w']
    by (auto simp: postgres_store_def create_effect_def server_ok_def db_view_created)
next
  case (2 w ctx ord env e w')
  then show ?case
    using CreateWithEvent_cases [of P C ord env w "Some e" w'] CreateWithEvent_plan_ok [of P C ord env w "Some e" w']
    by (auto simp: postgres_store_def create_effect_def server_ok_def db_view_created)
next
  case (3 w ctx i ord w')
  then show ?case using Get_order_spec [of P i w "Inr ord" w'] by (auto simp: postgres_store_def)
next
  case (4 w ctx i e w')
  then show ?case using Get_order_spec [of P i w "Inl e" w'] by (auto simp: postgres_store_def)
qed (auto simp: server_ok_def)

section \<open>A valid order is accepted\<close>

lemma insert_items_quiet:
  "sv_plan s = [] \<Longrightarrow> list_all (\<lambda>i. text_ok (SKU i) \<and> item_row_ok (item_row_of oid i)) is \<Longrightarrow>
     distinct (map SKU is) \<Longrightarrow> oid \<in> set (map o_id (orders (sv_db s))) \<Longrightarrow>
     list_all (\<lambda>i. (oid, SKU i) \<notin> set (map item_key (order_items (sv_db s)))) is \<Longrightarrow>
     insert_items P oid is s =
       (Inr (), s\<lparr>sv_db := (sv_db s)\<lparr>order_items := order_items (sv_db s) @ map (item_row_of oid) is\<rparr>\<rparr>)"
proof (induction P oid "is" s rule: insert_items.induct)
  case (2 P oid i rest s)
  let ?s1 = "s\<lparr>sv_db := (sv_db s)\<lparr>order_items := order_items (sv_db s) @ [item_row_of oid i]\<rparr>\<rparr>"
  have key: "item_key (item_row_of oid i) = (oid, SKU i)" for i
    by (simp add: item_key_def item_row_of_def)
  have "insert_item P (item_row_of oid i) (sv_db s)
      = Inr ((), (sv_db s)\<lparr>order_items := order_items (sv_db s) @ [item_row_of oid i]\<rparr>)"
    using 2 by (simp add: insert_item_def key i_sku_item_row_of) (simp add: item_row_of_def)
  then have q: "query (insert_item P (item_row_of oid i)) s = (Inr (), ?s1)"
    using 2 by (simp add: query_quiet)
  have "list_all (\<lambda>j. (oid, SKU j) \<notin> set (map item_key (order_items (sv_db ?s1)))) rest"
    unfolding list_all_iff
  proof
    fix j assume j: "j \<in> set rest"
    then have "SKU j \<in> SKU ` set rest" by simp
    moreover have "SKU i \<notin> SKU ` set rest" using "2.prems"(3) by simp
    ultimately have "SKU j \<noteq> SKU i" by metis
    then show "(oid, SKU j) \<notin> set (map item_key (order_items (sv_db ?s1)))"
      using "2.prems"(5) j by (simp add: key list_all_iff)
  qed
  then show ?case
    using "2.IH" [OF q [symmetric] refl] 2 by (simp add: q)
qed simp

lemma item_ok_row: "item_ok i \<Longrightarrow> item_row_ok (item_row_of oid i)"
  using rune_count_pos [of "SKU i"]
  by (cases "SKU i = []") (auto simp: item_ok_def item_row_ok_def item_row_of_def)

lemma order_created_text: "text_ok OrderCreated" "OrderCreated \<noteq> ''''"
  by (simp_all add: text_ok_def valid_utf8_ascii OrderCreated_def)

lemma New_order_Inr:
  "New_order now oid c = Inr ord \<Longrightarrow> command_ok c \<and> order_ID ord = oid \<and> order_Items ord = cmd_Items c
     \<and> order_row_ok (order_row_of P ord)"
  using validate_Inr [of c] order_amount_pos [of c]
  by (auto simp: New_order_def order_row_of_def order_row_ok_def order_status_enum_def status_defs
      split: sum.splits)

lemma CreateWithEvent_quiet:
  assumes "New_order now oid c = Inr ord"
    and "db_ok (sv_db s)" and "sv_plan s = []" and "oid \<notin> set (map o_id (orders (sv_db s)))"
    and "EventID env \<notin> set (map ob_id (outbox_events (sv_db s)))" and "EventType env = OrderCreated"
    and "marshal_envelope C env = Inr payload" and "pg_jsonb P payload = Some json"
    and "list_all (\<lambda>i. text_ok (SKU i)) (cmd_Items c)"
  shows "CreateWithEvent P C ord env s =
     (None, s\<lparr>sv_db := created_db P (sv_now s) ord env json (sv_db s)\<rparr>)"
proof -
  note new = New_order_Inr [OF assms(1), of P]
  let ?s1 = "s\<lparr>sv_db := (sv_db s)\<lparr>orders := orders (sv_db s) @ [order_row_of P ord]\<rparr>\<rparr>"
  let ?d2 = "(sv_db ?s1)\<lparr>order_items := order_items (sv_db s) @ map (item_row_of oid) (cmd_Items c)\<rparr>"
  have b: "begin_tx s = (Inr (), s)"
    using assms(3) by (simp add: begin_tx_def query_quiet)
  have o: "query (insert_order P (order_row_of P ord)) s = (Inr (), ?s1)"
    using assms(3,4) new by (intro query_quiet) (auto simp: insert_order_def order_row_ok_def)
  have fresh: "(oid, k) \<notin> set (map item_key (order_items (sv_db s)))" for k
    using assms(2,4) by (auto simp: db_ok_def item_key_def list_all_iff)
  have "insert_items P oid (cmd_Items c) ?s1 = (Inr (), ?s1\<lparr>sv_db := ?d2\<rparr>)"
    using assms(3,9) new fresh item_ok_row
    by (subst insert_items_quiet) (auto simp: command_ok_def list_all_iff)
  moreover have "query (insert_outbox P (sv_now s) (EventID env) (AggregateID env) (EventType env)
        payload (OccurredAt env)) (s\<lparr>sv_db := ?d2\<rparr>)
      = (Inr (), s\<lparr>sv_db := created_db P (sv_now s) ord env json (sv_db s)\<rparr>)"
    using assms order_created_text new
    by (subst query_quiet [where a = "()" and d = "created_db P (sv_now s) ord env json (sv_db s)"])
       (auto simp: insert_outbox_def created_db_def fresh_outbox_row_def outbox_row_ok_def)
  ultimately show ?thesis
    using new assms(3,7) by (simp add: CreateWithEvent_def b o commit_def next_reply_def)
qed

section \<open>Properties\<close>

definition sample_order :: order where
  "sample_order = \<lparr>order_ID = 1, order_CustomerID = 7, order_WarehouseID = 9,
     order_Status = StatusPending, order_Currency = CurrencyRUB, order_TotalAmountMinor = 3048,
     order_Items = cmd_Items sample_command, order_CreatedAt = 4000500, order_UpdatedAt = 4000500\<rparr>"

definition sample_envelope :: envelope where
  "sample_envelope = \<lparr>EventID = 2, EventType = OrderCreated, AggregateID = 1, env_RequestID = ''req-1'',
     OccurredAt = 4000600, Version = 1, Payload = ''payload''\<rparr>"

abbreviation C0 :: codec where
  "C0 \<equiv> sample_codec sample_envelope (created_payload_of sample_order)"

lemma sample_New_order: "New_order 4000500 1 sample_command = Inr sample_order"
  by (simp add: New_order_def validate_sample) (simp add: sample_order_def sample_command_def)

text \<open>
  C4. The creation transaction is atomic whatever its round trips answer: afterwards the database is
  either exactly as before, and the caller has an error, or it holds the order, all its items and its
  outbox event together (with the schema intact). A lost answer to the commit is the only way to an
  error with the rows in place, and a missing row never survives.
\<close>
theorem CreateWithEvent_atomic:
  assumes "CreateWithEvent P C created envelope s = (r, s')"
  shows "(r \<noteq> None \<and> sv_db s' = sv_db s)
     \<or> create_effect P C (sv_now s) created envelope (sv_db s) (sv_db s')"
  using CreateWithEvent_cases [OF assms] by auto

theorem CreateWithEvent_atomic_witness:
  "\<exists>r s'. (r \<noteq> None \<and> sv_db s' = empty_db)
     \<or> create_effect sample_pg C0 5000000 sample_order sample_envelope empty_db (sv_db (s' :: host))"
  using CreateWithEvent_atomic [OF prod.collapse [symmetric],
      of sample_pg C0 sample_order sample_envelope
         "sample_host empty_db [Done, Done, Done, Lost ctx_canceled]"]
  by (fastforce simp: sample_host_def)

text \<open>
  Every order that validation accepts is one the schema accepts: with fresh ids, SKUs PostgreSQL can
  store as text, and no failure on the way, the transaction commits the order, its items and a PENDING
  event that is due at once.
\<close>
theorem CreateWithEvent_accepts_valid_orders:
  assumes "New_order now oid c = Inr ord" and "db_ok (sv_db s)" and "sv_plan s = []"
    and "oid \<notin> set (map o_id (orders (sv_db s)))"
    and "EventID env \<notin> set (map ob_id (outbox_events (sv_db s)))" and "EventType env = OrderCreated"
    and "marshal_envelope C env = Inr payload" and "pg_jsonb P payload = Some json"
    and "list_all (\<lambda>i. text_ok (SKU i)) (cmd_Items c)"
  shows "CreateWithEvent P C ord env s =
     (None, s\<lparr>sv_db := created_db P (sv_now s) ord env json (sv_db s)\<rparr>)"
  using assms by (rule CreateWithEvent_quiet)

lemma sample_skus_text: "list_all (\<lambda>i. text_ok (SKU i)) (cmd_Items sample_command)"
  by (simp add: sample_command_def text_ok_def valid_utf8_ascii)

theorem CreateWithEvent_accepts_valid_orders_witness:
  "fst (CreateWithEvent sample_pg C0 sample_order sample_envelope (sample_host empty_db [])) = None"
  by (subst CreateWithEvent_accepts_valid_orders [OF sample_New_order _ _ _ _ _ _ _ sample_skus_text,
        where payload = "''envelope''" and json = "''envelope''"])
     (simp_all add: db_ok_def sample_defs sample_envelope_def)

text \<open>
  C22. Create, then get: when \<open>Service.Create\<close> over the PostgreSQL store reports success, a later
  \<open>Service.Get\<close> of the returned id finds the order; what it returns is the created order with its items
  in collation order and its times at the resolution of the column, and it never says "not found".
\<close>
theorem Service_create_then_get:
  assumes "server_ok w"
    and "Service_Create host_runtime C (postgres_store P C) ctx command w = (Inr ord, w1)"
    and "Service_Get (postgres_store P C) ctx' (order_ID ord) w1 = (r, w2)"
  shows "case r of Inr found \<Rightarrow> found = canon_order P ord | Inl e \<Rightarrow> \<not> errors_is e ErrNotFound"
  using assms by (rule pg_store.create_then_get)

text \<open>
  A command that validation rejects reaches nothing: \<open>Service.Create\<close> returns the validation error
  before it reads the clock, takes an id or touches the store.
\<close>
theorem Service_Create_rejects_before_effects:
  assumes "\<not> command_ok command"
  shows "\<exists>e. Service_Create R C st ctx command w = (Inl e, w) \<and> errors_is e ErrInvalidRequest"
  using assms by (cases command rule: validate_cases) (auto simp: Service_Create_def run_New_order_def)

theorem Service_Create_rejects_before_effects_witness:
  "\<exists>e. Service_Create host_runtime C0 (postgres_store sample_pg C0) background overflow_command
         (sample_host empty_db []) = (Inl e, sample_host empty_db []) \<and> errors_is e ErrInvalidRequest"
proof -
  have "\<not> command_ok overflow_command"
    using validate_accepts [of overflow_command] validate_overflow by auto
  then show ?thesis by (rule Service_Create_rejects_before_effects)
qed

lemmas statement_defs = query_def next_reply_def begin_tx_def commit_def rollback_def insert_order_def
  insert_item_def insert_outbox_def fresh_outbox_row_def select_order_def select_items_def
  order_row_ok_def item_row_ok_def outbox_row_ok_def item_key_def order_status_enum_def text_ok_def
  item_row_of_def order_row_of_def valid_utf8_ascii

lemmas service_defs = Service_Create_def run_New_order_def run_New_envelope_def service_request_id_def
  New_order_def New_envelope_def Envelope_Validate_def postgres_store_def time_is_zero_def
  Service_Get_def Get_order_def CreateWithEvent_def order_of_row_def item_of_row_def created_payload_of_def

definition created_order :: order where
  "created_order = sample_order\<lparr>order_ID := 100, order_CreatedAt := 4000000, order_UpdatedAt := 4000000\<rparr>"

lemma sample_run_New_order:
  "run_New_order host_runtime sample_command (sample_host empty_db []) =
     (Inr created_order, (sample_host empty_db [])\<lparr>h_next := 1\<rparr>)"
  by (simp add: run_New_order_def New_order_def validate_sample)
     (simp add: created_order_def sample_order_def sample_command_def)

lemma sample_create:
  "fst (Service_Create host_runtime C0 (postgres_store sample_pg C0) (WithRequestID background ''req-1'')
      sample_command (sample_host empty_db [])) = Inr created_order"
  by (simp add: Service_Create_def sample_run_New_order)
     (simp add: service_defs statement_defs ascii_simps status_defs
      event_type_defs uuid_nil_def created_order_def sample_order_def sample_command_def)

abbreviation sample_service_run :: "order result \<times> host" where
  "sample_service_run \<equiv> Service_Create host_runtime C0 (postgres_store sample_pg C0)
     (WithRequestID background ''req-1'') sample_command (sample_host empty_db [])"

theorem Service_create_then_get_witness:
  "case fst (Service_Get (postgres_store sample_pg C0) background 100 (snd sample_service_run)) of
      Inr found \<Rightarrow> found = canon_order sample_pg created_order | Inl e \<Rightarrow> \<not> errors_is e ErrNotFound"
proof -
  have ok: "server_ok (sample_host empty_db [])"
    using empty_db_ok by (simp add: server_ok_def)
  have run: "sample_service_run = (Inr created_order, snd sample_service_run)"
    using sample_create by (metis prod.collapse)
  have oid: "order_ID created_order = 100"
    by (simp add: created_order_def)
  show ?thesis
    using Service_create_then_get [OF ok run prod.collapse [symmetric], of background]
    unfolding oid .
qed

definition nul_command :: create_command where
  "nul_command = \<lparr>cmd_CustomerID = 7, cmd_WarehouseID = 9,
     cmd_Items = [\<lparr>SKU = [CHR 0x00], Quantity = 1, UnitPriceMinor = 1\<rparr>]\<rparr>"

text \<open>
  Validation and the schema disagree on one kind of SKU: \<open>validate\<close> accepts the one byte SKU U+0000
  (it is not white space and has one character), but \<open>TEXT\<close> cannot hold it, so the creation transaction
  of such an order always fails, with an error that is not \<open>ErrInvalidRequest\<close>: the client is told 500
  where the request is at fault.
\<close>
theorem nul_sku_passes_validation_but_not_the_schema:
  "validate nul_command = Inr 1
   \<and> (pg_laws P \<and> New_order now oid nul_command = Inr ord \<and> sv_plan s = [] \<longrightarrow>
       (\<exists>e. fst (CreateWithEvent P C ord env s) = Some e \<and> \<not> errors_is e ErrInvalidRequest))"
  by (auto simp: CreateWithEvent_def New_order_def validate_def nul_command_def sample_simps statement_defs
      pg_laws_def split: sum.splits)

theorem nul_sku_passes_validation_but_not_the_schema_witness:
  "\<exists>e. fst (CreateWithEvent sample_pg C0
      \<lparr>order_ID = 1, order_CustomerID = 7, order_WarehouseID = 9, order_Status = StatusPending,
       order_Currency = CurrencyRUB, order_TotalAmountMinor = 1, order_Items = cmd_Items nul_command,
       order_CreatedAt = 1, order_UpdatedAt = 1\<rparr> sample_envelope (sample_host empty_db [])) = Some e
    \<and> \<not> errors_is e ErrInvalidRequest"
proof -
  have v: "validate nul_command = Inr 1"
    using nul_sku_passes_validation_but_not_the_schema by blast
  show ?thesis
    by (rule nul_sku_passes_validation_but_not_the_schema [THEN conjunct2, rule_format, where now = 1 and oid = 1])
       (simp add: New_order_def v sample_pg_laws sample_host_def, simp add: nul_command_def)
qed

end
