(* ===== verification/Order_Http.thy ===== *)
theory Order_Http
  imports Http_Server Order_Store
begin

text \<open>
  internal/order/http.go: the two handlers, their error bodies, the middlewares for the request id and the
  metrics, and the routes. Decoding and encoding JSON are arguments; \<open>json.Decoder\<close> reads from a
  \<open>body_reader\<close> and leaves the rest of it. Logging is left out.
\<close>

section \<open>Definitions\<close>

record create_request =
  rq_CustomerID :: string
  rq_WarehouseID :: string
  rq_Items :: "item list"

record error_response =
  er_Code :: string
  er_Message :: string
  er_RequestID :: string

record http_codec = codec +
  decode_request :: "body_reader \<Rightarrow> create_request result \<times> body_reader"
  decode_empty :: "body_reader \<Rightarrow> goerr option \<times> body_reader"
  encode_order :: "order \<Rightarrow> string option"
  encode_error :: "error_response \<Rightarrow> string option"

definition writeError ::
  "('c) http_codec_scheme \<Rightarrow> 'r response_writer \<Rightarrow> request \<Rightarrow> nat \<Rightarrow> string \<Rightarrow> string \<Rightarrow> 'r \<Rightarrow> 'r" where
  "writeError C W rq status code message r =
     writeJSON W status (encode_error C \<lparr>er_Code = code, er_Message = message, er_RequestID = RequestID (rq_Context rq)\<rparr>) r"

text \<open>The body of a creation request: the command, or the message of the 400.\<close>

definition parse_create :: "('c) http_codec_scheme \<Rightarrow> body_reader \<Rightarrow> string + create_command" where
  "parse_create C body =
     (case decode_request C (MaxBytesReader body (2 ^ 20)) of
        (Inl e, rest) \<Rightarrow> Inl ''request body is not valid JSON''
      | (Inr parsed, rest) \<Rightarrow>
     (if \<not> (case fst (decode_empty C rest) of None \<Rightarrow> False | Some e \<Rightarrow> errors_is e IoEOF) then
        Inl ''request body must contain one JSON object''
      else
     (case lib_uuid_parse C (rq_CustomerID parsed) of
        Inl e \<Rightarrow> Inl ''customer_id must be a UUID''
      | Inr customerID \<Rightarrow>
     (case lib_uuid_parse C (rq_WarehouseID parsed) of
        Inl e \<Rightarrow> Inl ''warehouse_id must be a UUID''
      | Inr warehouseID \<Rightarrow> Inr \<lparr>cmd_CustomerID = customerID, cmd_WarehouseID = warehouseID, cmd_Items = rq_Items parsed\<rparr>))))"

definition HTTPHandler_create ::
  "'w runtime \<Rightarrow> ('c) http_codec_scheme \<Rightarrow> 'w store \<Rightarrow> ('r, 'w) handler" where
  "HTTPHandler_create R C st W rq r w =
     (case parse_create C (rq_Body rq) of
        Inl message \<Rightarrow> (rq, writeError C W rq 400 ''invalid_request'' message r, w)
      | Inr command \<Rightarrow>
     (case Service_Create R C st (with_timeout (rq_Context rq) (5 * second)) command w of
        (Inl e, w1) \<Rightarrow>
          (if errors_is e ErrInvalidRequest then (rq, writeError C W rq 422 ''validation_error'' (err_string C e) r, w1)
           else (rq, writeError C W rq 500 ''internal_error'' ''could not create order'' r, w1))
      | (Inr created, w1) \<Rightarrow>
          (rq, writeJSON W 201 (encode_order C created)
             (wr_Set W ''Location'' (''/api/v1/orders/'' @ lib_uuid_string C (order_ID created)) r), w1)))"

text \<open>The writer keeps the body that a handler writes for HEAD too; net/http leaves it off the wire.\<close>

definition HTTPHandler_get :: "('c) http_codec_scheme \<Rightarrow> 'w store \<Rightarrow> ('r, 'w) handler" where
  "HTTPHandler_get C st W rq r w =
     (case lib_uuid_parse C (rq_PathValue rq) of
        Inl e \<Rightarrow> (rq, writeError C W rq 400 ''invalid_request'' ''order id must be a UUID'' r, w)
      | Inr oid \<Rightarrow>
     (case Service_Get st (with_timeout (rq_Context rq) (3 * second)) oid w of
        (Inl e, w1) \<Rightarrow>
          (if errors_is e ErrNotFound then (rq, writeError C W rq 404 ''not_found'' ''order was not found'' r, w1)
           else (rq, writeError C W rq 500 ''internal_error'' ''could not get order'' r, w1))
      | (Inr found, w1) \<Rightarrow> (rq, writeJSON W 200 (encode_order C found) r, w1)))"

text \<open>The request id of a request: its header when that has 1 to 128 bytes without the space around, else a new one.\<close>

definition request_id :: "'w runtime \<Rightarrow> ('c) golib_scheme \<Rightarrow> request \<Rightarrow> 'w \<Rightarrow> string \<times> 'w" where
  "request_id R L rq w =
     (let requestID = trim_space (Header_Get rq ''X-Request-Id'')
      in if requestID = '''' \<or> length requestID > 128
         then (case rt_uuid R w of (u, w1) \<Rightarrow> (lib_uuid_string L u, w1))
         else (requestID, w))"

definition requestIDMiddleware ::
  "'w runtime \<Rightarrow> ('c) golib_scheme \<Rightarrow> ('r, 'w) handler \<Rightarrow> ('r, 'w) handler" where
  "requestIDMiddleware R L next W rq r w =
     (case request_id R L rq w of (requestID, w1) \<Rightarrow>
     (case rt_now R w1 of (started, w2) \<Rightarrow>
     (case next W (rq\<lparr>rq_Context := WithRequestID (rq_Context rq) requestID\<rparr>) (wr_Set W ''X-Request-Id'' requestID r) w2 of
        (rq', r1, w3) \<Rightarrow> (rq, r1, w3))))"

text \<open>\<open>statusWriter\<close>: the wrapped writer's state beside the last status; 0 means none.\<close>

definition status_WriteHeader :: "'r response_writer \<Rightarrow> nat \<Rightarrow> nat \<times> 'r \<Rightarrow> nat \<times> 'r" where
  "status_WriteHeader W status = (\<lambda>(old, r). (status, wr_WriteHeader W status r))"

definition status_Write :: "'r response_writer \<Rightarrow> string \<Rightarrow> nat \<times> 'r \<Rightarrow> nat \<times> 'r" where
  "status_Write W body = (\<lambda>(old, r).
     (case (if old = 0 then status_WriteHeader W 200 (old, r) else (old, r)) of (status, r1) \<Rightarrow> (status, wr_Write W body r1)))"

definition statusWriter :: "'r response_writer \<Rightarrow> (nat \<times> 'r) response_writer" where
  "statusWriter W = \<lparr>wr_Set = (\<lambda>key v (status, r). (status, wr_Set W key v r)),
     wr_WriteHeader = status_WriteHeader W, wr_Write = status_Write W\<rparr>"

definition metricsMiddleware :: "'w runtime \<Rightarrow> (nat \<times> 'r, 'w) handler \<Rightarrow> ('r, 'w) handler" where
  "metricsMiddleware R next W rq r w =
     (case rt_now R w of (started, w1) \<Rightarrow>
     (case next (statusWriter W) rq (0, r) w1 of (rq', (written, r1), w2) \<Rightarrow>
        (let route = (if rq_Pattern rq' = '''' then ''unmatched'' else rq_Pattern rq');
             status = (if written = 0 then 200 else written);
             w3 = rt_count R (HTTPRequests (rq_Method rq) route (nat_digits status)) w2
         in (rq', r1, rt_count R (HTTPRequestDuration (rq_Method rq) route) w3))))"

definition order_routes ::
  "'w runtime \<Rightarrow> ('c) http_codec_scheme \<Rightarrow> 'w store \<Rightarrow> ('r, 'w) handler \<Rightarrow> (pattern \<times> ('r, 'w) handler) list" where
  "order_routes R C st operational =
     [(Route ''POST'' [Exactly ''api'', Exactly ''v1'', Exactly ''orders''] ''POST /api/v1/orders'', HTTPHandler_create R C st),
      (Route ''GET'' [Exactly ''api'', Exactly ''v1'', Exactly ''orders'', Wildcard] ''GET /api/v1/orders/{id}'', HTTPHandler_get C st),
      (CatchAll, operational)]"

definition Routes ::
  "'w runtime \<Rightarrow> ('c) http_codec_scheme \<Rightarrow> 'w store \<Rightarrow> (nat \<times> 'r, 'w) handler \<Rightarrow> ('r, 'w) handler" where
  "Routes R C st operational = requestIDMiddleware R C (metricsMiddleware R (mux_serve (order_routes R C st operational)))"

definition order_server :: "string \<Rightarrow> server_config" where
  "order_server addr = \<lparr>srv_Addr = addr, srv_ReadHeaderTimeout = 5 * second, srv_ReadTimeout = 10 * second,
     srv_WriteTimeout = 10 * second, srv_IdleTimeout = 60 * second\<rparr>"

definition ListenAndServe :: "goerr option \<Rightarrow> (ctx \<Rightarrow> goerr option) \<Rightarrow> duration \<Rightarrow> goerr option" where
  "ListenAndServe failed shutdown shutdownTimeout = (case failed of
      Some err \<Rightarrow> if errors_is err ErrServerClosed then None else Some (wrapf ''serve HTTP: '' err)
    | None \<Rightarrow> (case shutdown (with_timeout background shutdownTimeout) of
        Some err \<Rightarrow> Some (wrapf ''shutdown HTTP server: '' err)
      | None \<Rightarrow> None))"

section \<open>Which errors creation can return\<close>

text \<open>The errors of encoding are the library's: none of them is one of the code's sentinels.\<close>

definition codec_errors :: "('c) codec_scheme \<Rightarrow> bool" where
  "codec_errors C \<longleftrightarrow> (\<forall>env e. marshal_envelope C env = Inl e \<longrightarrow> foreign_error e)
     \<and> (\<forall>p e. marshal_created C p = Inl e \<longrightarrow> foreign_error e)"

lemma foreign_wrap [simp]:
  "foreign_error (wrapf what e) = foreign_error e" "foreign_error (wrapfs fs e) = foreign_error e"
  by (simp_all add: foreign_error_def)

lemma foreign_errorf [simp]: "foreign_error (errorf fs)"
  by (simp add: foreign_error_def)

lemma query_foreign:
  assumes "query stmt s = (Inl e, s')" and "list_all foreign_reply (sv_plan s)" and "\<And>d e. stmt d = Inl e \<Longrightarrow> foreign_error e"
  shows "foreign_error e"
  using query_error [OF assms(1,2)] assms(3) by blast

lemma commit_foreign:
  assumes "commit base s = (Inl e, s')" and "list_all foreign_reply (sv_plan s)"
  shows "foreign_error e"
  using assms by (cases "sv_plan s") (auto simp: commit_def next_reply_def foreign_reply_def split: reply.splits)

lemma insert_foreign:
  assumes "pg_laws P"
  shows "insert_order P r d = Inl e \<Longrightarrow> foreign_error e" "insert_item P i d = Inl e \<Longrightarrow> foreign_error e"
    "insert_outbox P now eid agg ty payload created d = Inl e \<Longrightarrow> foreign_error e"
  using assms
  by (auto simp: pg_laws_def foreign_error_def insert_order_def insert_item_def insert_outbox_def split: if_splits option.splits)

lemma insert_items_foreign:
  "insert_items P oid is s = (Inl e, s') \<Longrightarrow> list_all foreign_reply (sv_plan s) \<Longrightarrow> pg_laws P \<Longrightarrow> foreign_error e"
proof (induction P oid "is" s rule: insert_items.induct)
  case (2 P oid i rest s)
  obtain x s1 where q: "query (insert_item P (item_row_of oid i)) s = (x, s1)" by fastforce
  then have "list_all foreign_reply (sv_plan s1)" using query_plan_ok 2(3) by blast
  moreover have "foreign_error f" if "x = Inl f" for f
    using query_foreign [OF q [unfolded that] 2(3) insert_foreign(2) [OF 2(4)]] .
  ultimately show ?case using 2 q by (cases x) auto
qed simp

lemma CreateWithEvent_foreign:
  assumes "CreateWithEvent P C created env s = (Some e, s')" and "list_all foreign_reply (sv_plan s)"
    and "pg_laws P" and "codec_errors C"
  shows "foreign_error e"
proof -
  obtain x1 s1 where 1: "begin_tx s = (x1, s1)" by fastforce
  note p1 = begin_tx_plan_ok [OF 1 assms(2)]
  obtain x2 s2 where 2: "query (insert_order P (order_row_of P created)) s1 = (x2, s2)" by fastforce
  note p2 = query_plan_ok [OF 2 p1]
  obtain x3 s3 where 3: "insert_items P (order_ID created) (order_Items created) s2 = (x3, s3)" by fastforce
  note p3 = insert_items_plan_ok [OF 3 p2]
  have 11: "foreign_error f" if "x1 = Inl f" for f
    using 1 assms(2) that unfolding begin_tx_def by (auto intro: query_foreign [of _ s])
  have 21: "foreign_error f" if "x2 = Inl f" for f
    using query_foreign [OF 2 [unfolded that] p1 insert_foreign(1) [OF assms(3)]] .
  have 31: "foreign_error f" if "x3 = Inl f" for f
    using insert_items_foreign [OF 3 [unfolded that] p2 assms(3)] .
  show ?thesis
  proof (cases "marshal_envelope C env")
    case (Inl f)
    then have "foreign_error f" using assms(4) by (auto simp: codec_errors_def)
    then show ?thesis
      using assms(1) 11 21 31 by (auto simp: CreateWithEvent_def 1 2 3 Inl split: sum.splits)
  next
    case (Inr payload)
    obtain x4 s4 where 4: "query (insert_outbox P (sv_now s3) (EventID env) (AggregateID env) (EventType env) payload (OccurredAt env)) s3
      = (x4, s4)" by fastforce
    note p4 = query_plan_ok [OF 4 p3]
    obtain x5 s5 where 5: "commit s1 s4 = (x5, s5)" by fastforce
    have 41: "foreign_error f" if "x4 = Inl f" for f
      using query_foreign [OF 4 [unfolded that] p3 insert_foreign(3) [OF assms(3)]] .
    have "foreign_error f" if "x5 = Inl f" for f
      using commit_foreign [OF 5 [unfolded that] p4] .
    then show ?thesis
      using assms(1) 11 21 31 41 by (auto simp: CreateWithEvent_def 1 2 3 4 5 Inr split: sum.splits)
  qed
qed

lemma insert_items_frame:
  assumes "insert_items P oid is w = (r, w')" and db: "\<And>w d. f (w\<lparr>sv_db := d\<rparr>) = f w" and plan: "\<And>w p. f (w\<lparr>sv_plan := p\<rparr>) = f w"
  shows "f w' = f w"
  using assms(1)
proof (induction P oid "is" w arbitrary: r rule: insert_items.induct)
  case (2 P oid i rest w)
  obtain x w1 where q: "query (insert_item P (item_row_of oid i)) w = (x, w1)" by fastforce
  have "f w1 = f w" using q db plan by (rule query_frame)
  then show ?case using 2 q by (cases x) auto
qed simp

lemma CreateWithEvent_frame:
  fixes f :: "'z server_scheme \<Rightarrow> 'b"
  assumes "CreateWithEvent P C created env w = (r, w')"
    and db: "\<And>w d. f (w\<lparr>sv_db := d\<rparr>) = f w" and plan: "\<And>w p. f (w\<lparr>sv_plan := p\<rparr>) = f w"
  shows "f w' = f w"
proof -
  have q: "f s' = f s" if "query stmt s = (x, s')" for stmt :: "unit stmt" and s x s'
    using that db plan by (rule query_frame)
  have i: "f s' = f s" if "insert_items P oid is s = (x, s')" for oid "is" s x s'
    using that db plan by (rule insert_items_frame)
  have c: "f s' = f s" if "commit base s = (x, s')" for base s x s'
    using that db plan by (rule commit_frame)
  have r: "f (rollback base s) = f s" for base s unfolding rollback_def by (rule db)
  show ?thesis
    using assms(1) unfolding CreateWithEvent_def begin_tx_def
    by (auto simp: r dest!: q i c split: prod.splits sum.splits)
qed

text \<open>\<open>Service.Create\<close> over PostgreSQL, outcome by outcome.\<close>

definition creation ::
  "pg \<Rightarrow> ('c) codec_scheme \<Rightarrow> ctx \<Rightarrow> create_command \<Rightarrow> time \<Rightarrow> db \<Rightarrow> order \<Rightarrow> db \<Rightarrow> bool" where
  "creation P C ctx command now d created d' \<longleftrightarrow>
     (\<exists>t. New_order t (order_ID created) command = Inr created)
     \<and> (\<exists>env. create_effect P C now created env d d' \<and> envelope_ok env \<and> EventType env = OrderCreated
          \<and> AggregateID env = order_ID created \<and> (RequestID ctx \<noteq> '''' \<longrightarrow> env_RequestID env = RequestID ctx))"

lemma Service_Create_host:
  fixes w :: "'z host_scheme"
  assumes "Service_Create host_runtime C (postgres_store P C) ctx command w = (x, w')"
  shows "h_metrics w' = h_metrics w \<and> (case x of
      Inr created \<Rightarrow> creation P C ctx command (sv_now w) (sv_db w) created (sv_db w')
    | Inl e \<Rightarrow> (sv_db w' = sv_db w \<or> (\<exists>created. creation P C ctx command (sv_now w) (sv_db w) created (sv_db w')))
        \<and> (\<not> command_ok command \<longrightarrow> w' = w \<and> errors_is e ErrInvalidRequest)
        \<and> (command_ok command \<and> list_all foreign_reply (sv_plan w) \<and> pg_laws P \<and> codec_errors C \<longrightarrow> foreign_error e))"
proof (cases command rule: validate_cases)
  case (invalid e)
  then show ?thesis using assms by (auto simp: Service_Create_def run_New_order_def)
next
  case (ok t)
  obtain created where c: "run_New_order host_runtime command w = (Inr created, w\<lparr>h_next := Suc (h_next w)\<rparr>)"
    "New_order (h_clock w) (order_ID created) command = Inr created"
    using ok by (auto simp: run_New_order_def New_order_def)
  let ?w1 = "w\<lparr>h_next := Suc (h_next w)\<rparr>"
  obtain rid w2 where r: "service_request_id host_runtime C ctx ?w1 = (rid, w2)" by fastforce
  obtain n where w2: "w2 = w\<lparr>h_next := n\<rparr>" and rid: "RequestID ctx \<noteq> '''' \<Longrightarrow> rid = RequestID ctx"
    using r by (auto simp: service_request_id_def split: if_splits)
  obtain y w3 where e: "run_New_envelope host_runtime OrderCreated (order_ID created) rid (marshal_created C (created_payload_of created)) w2 = (y, w3)"
    by fastforce
  obtain m where w3: "w3 = w\<lparr>h_next := m\<rparr>" using e w2 by (auto simp: run_New_envelope_def split: sum.splits)
  show ?thesis
  proof (cases y)
    case (Inl err)
    have "codec_errors C \<longrightarrow> foreign_error err"
      using e Inl
      by (auto simp: run_New_envelope_def New_envelope_def codec_errors_def Let_def foreign_error_def
          dest: Envelope_Validate_no_sentinel split: sum.splits option.splits)
    then show ?thesis using assms ok by (auto simp: Service_Create_def c r e Inl w3)
  next
    case (Inr env)
    have env: "envelope_ok env" "EventType env = OrderCreated" "AggregateID env = order_ID created" "env_RequestID env = rid"
      using e Inr by (auto simp: run_New_envelope_def New_envelope_Inr split: sum.splits)
    obtain z w4 where s: "CreateWithEvent P C created env w3 = (z, w4)" by fastforce
    have m: "h_metrics w4 = h_metrics w" using CreateWithEvent_frame [OF s, of h_metrics] w3 by simp
    have eff: "creation P C ctx command (sv_now w) (sv_db w) created (sv_db w4)"
      if "create_effect P C (sv_now w3) created env (sv_db w3) (sv_db w4)"
      using that c(2) env rid w3 unfolding creation_def by auto
    have foreign: "foreign_error f" if "z = Some f" "list_all foreign_reply (sv_plan w)" "pg_laws P" "codec_errors C" for f
      using CreateWithEvent_foreign [OF s [unfolded that(1)]] that w3 by simp
    have x: "x = (case z of None \<Rightarrow> Inr created | Some f \<Rightarrow> Inl (wrapf ''create order: '' f))" "w' = w4"
      using assms by (auto simp: Service_Create_def c r e Inr postgres_store_def s split: option.splits)
    show ?thesis
      using CreateWithEvent_cases [OF s] m eff foreign ok w3 by (cases z) (auto simp: x)
  qed
qed

section \<open>Through the middlewares\<close>

lemma statusWriter_simps [simp]:
  "wr_Set (statusWriter W) key v = (\<lambda>(status, r). (status, wr_Set W key v r))"
  "wr_WriteHeader (statusWriter W) status = (\<lambda>(old, r). (status, wr_WriteHeader W status r))"
  "wr_Write (statusWriter W) body = status_Write W body"
  by (simp_all add: statusWriter_def status_WriteHeader_def)

text \<open>The wrapped writer does what the inner one does, and remembers the status.\<close>

lemma writeJSON_status [simp]: "0 < status \<Longrightarrow> writeJSON (statusWriter W) status json (old, r) = (status, writeJSON W status json r)"
  by (simp add: writeJSON_def Let_def status_Write_def split: option.split)

lemma writeError_status [simp]:
  "0 < status \<Longrightarrow> writeError C (statusWriter W) rq status code message (old, r) = (status, writeError C W rq status code message r)"
  by (simp add: writeError_def)

lemma http_Error_status [simp]: "0 < status \<Longrightarrow> http_Error (statusWriter W) message status (old, r) = (status, http_Error W message status r)"
  by (simp add: http_Error_def status_Write_def)

lemma writeJSON_sent:
  assumes "rs_sent r = None" shows "sent_status (writeJSON net_writer status json r) = Some status"
    and "sent_header (writeJSON net_writer status json r) key
      = (if key = ''Content-Type'' then Some ''application/json'' else map_of (rs_Header r) key)"
    and "rs_Body (writeJSON net_writer status json r) = rs_Body r @ (case json of None \<Rightarrow> '''' | Some txt \<Rightarrow> txt @ [CHR 0x0A])"
  using assms by (simp_all add: writeJSON_net sent_status_def sent_header_def)

lemma writeError_sent:
  assumes "rs_sent r = None" shows "sent_status (writeError C net_writer rq status code message r) = Some status"
    and "sent_header (writeError C net_writer rq status code message r) key
      = (if key = ''Content-Type'' then Some ''application/json'' else map_of (rs_Header r) key)"
  using assms by (simp_all add: writeError_def writeJSON_sent)

text \<open>A handler that answers once, so that what \<open>statusWriter\<close> remembers is what the client gets.\<close>

definition answers_once :: "(nat \<times> response, 'w) handler \<Rightarrow> bool" where
  "answers_once h \<longleftrightarrow> (\<forall>rq r w rq' status r' w'. rs_sent r = None \<longrightarrow>
     h (statusWriter net_writer) rq (0, r) w = (rq', (status, r'), w') \<longrightarrow> sent_status r' = Some status \<and> status \<noteq> 0)"

lemma answers_once_create: "answers_once (HTTPHandler_create R C st)"
  unfolding answers_once_def HTTPHandler_create_def
  by (auto simp: writeError_sent writeJSON_sent split: sum.splits prod.splits if_splits)

lemma answers_once_get: "answers_once (HTTPHandler_get C st)"
  unfolding answers_once_def HTTPHandler_get_def
  by (auto simp: writeError_sent writeJSON_sent split: sum.splits prod.splits if_splits)

lemma answers_once_mux:
  assumes "\<forall>(p, h) \<in> set routes. answers_once h"
  shows "answers_once (mux_serve routes)"
  unfolding answers_once_def
proof (intro allI impI)
  fix rq r w rq' status r' w'
  assume r: "rs_sent r = None" and run: "mux_serve routes (statusWriter net_writer) rq (0, r) w = (rq', (status, r'), w')"
  show "sent_status r' = Some status \<and> status \<noteq> 0"
  proof (cases "find (\<lambda>(p, _). pattern_matches p rq) routes")
    case None
    then show ?thesis using run r by (auto simp: mux_serve_def http_Error_sent split: if_splits)
  next
    case (Some ph)
    obtain p h where ph: "ph = (p, h)" by fastforce
    have "answers_once h" using assms find_SomeD [OF Some] ph by auto
    moreover have "h (statusWriter net_writer) (matched_request p rq) (0, r) w = (rq', (status, r'), w')"
      using run by (simp add: mux_serve_def Some ph)
    ultimately show ?thesis using r unfolding answers_once_def by blast
  qed
qed

lemma Routes_run:
  assumes "mux_serve (order_routes R C st operational) (statusWriter net_writer)
      (rq\<lparr>rq_Context := WithRequestID (rq_Context rq) rid\<rparr>)
      (0, response_start\<lparr>rs_Header := [(''X-Request-Id'', rid)]\<rparr>) (snd (rt_now R (snd (rt_now R w1)))) = (rq1, (status, r1), w2)"
    and "request_id R C rq w = (rid, w1)"
  shows "Routes R C st operational net_writer rq response_start w = (rq, r1,
    let route = (if rq_Pattern rq1 = '''' then ''unmatched'' else rq_Pattern rq1)
    in rt_count R (HTTPRequestDuration (rq_Method rq) route)
         (rt_count R (HTTPRequests (rq_Method rq) route (nat_digits (if status = 0 then 200 else status))) w2))"
proof -
  obtain t wa where t: "rt_now R w1 = (t, wa)" by fastforce
  obtain u wb where u: "rt_now R wa = (u, wb)" by fastforce
  show ?thesis
    using assms
    by (simp add: Routes_def requestIDMiddleware_def metricsMiddleware_def Let_def header_set_def response_start_def t u)
qed

lemma mux_create:
  assumes "rq_Method rq = ''POST''" and "rq_Segments rq = [''api'', ''v1'', ''orders'']"
  shows "mux_serve (order_routes R C st operational) W rq r w
    = HTTPHandler_create R C st W (rq\<lparr>rq_Pattern := ''POST /api/v1/orders'', rq_PathValue := ''''\<rparr>) r w"
  using assms by (simp add: mux_serve_def order_routes_def method_matches_def)

lemma mux_get:
  assumes "rq_Method rq \<in> {''GET'', ''HEAD''}" and "rq_Segments rq = [''api'', ''v1'', ''orders'', oid]" and "oid \<notin> {'''', ''/''}"
  shows "mux_serve (order_routes R C st operational) W rq r w
    = HTTPHandler_get C st W (rq\<lparr>rq_Pattern := ''GET /api/v1/orders/{id}'', rq_PathValue := oid\<rparr>) r w"
  using assms by (auto simp: mux_serve_def order_routes_def method_matches_def)

section \<open>Properties\<close>

lemma request_id_host:
  fixes w :: "'z host_scheme"
  assumes "request_id host_runtime L rq w = (rid, w1)"
  shows "\<exists>n. w1 = w\<lparr>h_next := n\<rparr>"
proof -
  have "w1 = w\<lparr>h_next := h_next w\<rparr> \<or> w1 = w\<lparr>h_next := Suc (h_next w)\<rparr>"
    using assms by (simp add: request_id_def Let_def split: if_splits)
  then show ?thesis by blast
qed

text \<open>What a handler is given, and what becomes of its answer, once the mux has chosen it.\<close>

lemma Routes_reach:
  fixes w :: "'z host_scheme"
  assumes "Routes host_runtime C st operational net_writer rq response_start w = (rq', r, w')"
    and route: "\<And>ctx v u. mux_serve (order_routes host_runtime C st operational) (statusWriter net_writer) (rq\<lparr>rq_Context := ctx\<rparr>) v u
      = H (rq\<lparr>rq_Context := ctx, rq_Pattern := pat, rq_PathValue := wild\<rparr>) v u"
  obtains rid n rq1 status w1 where
    "H (rq\<lparr>rq_Context := WithRequestID (rq_Context rq) rid, rq_Pattern := pat, rq_PathValue := wild\<rparr>)
       (0, response_start\<lparr>rs_Header := [(''X-Request-Id'', rid)]\<rparr>) (w\<lparr>h_next := n\<rparr>) = (rq1, (status, r), w1)"
    and "sv_db w' = sv_db w1"
proof -
  obtain rid w0 where rid: "request_id host_runtime C rq w = (rid, w0)" by fastforce
  obtain n where w0: "w0 = w\<lparr>h_next := n\<rparr>" using request_id_host [OF rid] by blast
  obtain rq1 status r1 w1 where h: "H (rq\<lparr>rq_Context := WithRequestID (rq_Context rq) rid, rq_Pattern := pat, rq_PathValue := wild\<rparr>)
      (0, response_start\<lparr>rs_Header := [(''X-Request-Id'', rid)]\<rparr>) w0 = (rq1, (status, r1), w1)"
    by (metis surj_pair)
  then have "mux_serve (order_routes host_runtime C st operational) (statusWriter net_writer)
      (rq\<lparr>rq_Context := WithRequestID (rq_Context rq) rid\<rparr>) (0, response_start\<lparr>rs_Header := [(''X-Request-Id'', rid)]\<rparr>)
      (snd (rt_now host_runtime (snd (rt_now host_runtime w0)))) = (rq1, (status, r1), w1)"
    by (simp add: route)
  from Routes_run [OF this rid] have "r = r1" "sv_db w' = sv_db w1"
    using assms(1) by (auto simp: Let_def)
  then show thesis using that h w0 by simp
qed

text \<open>A JSON library for the witnesses: two bodies are known, the rest is not JSON.\<close>

definition sample_http :: http_codec where
  "sample_http = codec.extend C0 \<lparr>
     decode_request = (\<lambda>b. if br_bytes b = ''good'' then (Inr \<lparr>rq_CustomerID = ''7'', rq_WarehouseID = ''9'', rq_Items = cmd_Items sample_command\<rparr>, b)
        else if br_bytes b = ''overflow'' then (Inr \<lparr>rq_CustomerID = ''7'', rq_WarehouseID = ''9'', rq_Items = cmd_Items overflow_command\<rparr>, b)
        else (Inl (errorf [Lit ''invalid character'']), b)),
     decode_empty = (\<lambda>b. (Some (GoErr [IoEOF] [Lit ''EOF'']), b)),
     encode_order = (\<lambda>ord. Some ''order''), encode_error = (\<lambda>e. Some (er_Code e))\<rparr>"

lemma sample_http_simps [simp]:
  "marshal_envelope sample_http e = Inr ''envelope''" "marshal_created sample_http q = Inr ''payload''"
  "lib_uuid_parse sample_http s' = (if s' \<noteq> '''' \<and> list_all is_digit s' then Inr (of_int (digits_value s')) else Inl (errorf [Lit ''invalid UUID'']))"
  "encode_order sample_http ord = Some ''order''" "encode_error sample_http err = Some (er_Code err)"
  by (simp_all add: sample_http_def codec.defs sample_codec_def)

lemma sample_http_errors: "codec_errors sample_http"
  by (simp add: codec_errors_def)

definition post_order :: "string \<Rightarrow> request" where
  "post_order body = \<lparr>rq_Method = ''POST'', rq_Segments = [''api'', ''v1'', ''orders''], rq_Header = [(''X-Request-Id'', ''req-1'')],
     rq_Body = \<lparr>br_bytes = body, br_end = GoErr [IoEOF] [Lit ''EOF'']\<rparr>, rq_Context = background, rq_Pattern = '''', rq_PathValue = ''''\<rparr>"

lemma post_order_simps [simp]:
  "rq_Method (post_order body) = ''POST''" "rq_Segments (post_order body) = [''api'', ''v1'', ''orders'']"
  "rq_Body (post_order body) = \<lparr>br_bytes = body, br_end = GoErr [IoEOF] [Lit ''EOF'']\<rparr>"
  by (simp_all add: post_order_def)

lemma parse_overflow:
  "\<exists>command. parse_create sample_http (rq_Body (post_order ''overflow'')) = Inr command \<and> \<not> command_ok command"
proof -
  have decode: "decode_request sample_http \<lparr>br_bytes = ''overflow'', br_end = e\<rparr> =
      (Inr \<lparr>rq_CustomerID = ''7'', rq_WarehouseID = ''9'', rq_Items = cmd_Items overflow_command\<rparr>, \<lparr>br_bytes = ''overflow'', br_end = e\<rparr>)" for e
    by (simp add: sample_http_def codec.defs)
  have rest: "fst (decode_empty sample_http b) = Some (GoErr [IoEOF] [Lit ''EOF''])" for b
    by (simp add: sample_http_def codec.defs)
  have "command_ok \<lparr>cmd_CustomerID = 7, cmd_WarehouseID = 9, cmd_Items = cmd_Items overflow_command\<rparr> \<Longrightarrow> False"
    using validate_overflow validate_accepts [of overflow_command] by (auto simp: overflow_command_def command_ok_def)
  then show ?thesis
    by (auto simp: parse_create_def MaxBytesReader_def decode rest errors_is_def is_digit_def digits_value_def)
qed

text \<open>
  C8. The status of a creation tells the truth about the database. 400 exactly when the body is not one JSON
  object with two UUIDs, and 422 exactly when validation rejects the command; both leave the database as it
  was. 201 only when the order is stored with its items and its event, carrying the request id the client is
  told. 500 for everything else: nothing is stored, or, when only the answer to the commit was lost,
  everything is.
\<close>
theorem create_status_is_true:
  fixes w :: "'z host_scheme"
  assumes "rq_Method rq = ''POST''" and "rq_Segments rq = [''api'', ''v1'', ''orders'']"
    and "list_all foreign_reply (sv_plan w)" and "pg_laws P" and "codec_errors C"
    and "Routes host_runtime C (postgres_store P C) operational net_writer rq response_start w = (rq', r, w')"
  shows "\<exists>rid. sent_header r ''X-Request-Id'' = Some rid \<and> (case parse_create C (rq_Body rq) of
      Inl message \<Rightarrow> sent_status r = Some 400 \<and> sv_db w' = sv_db w
    | Inr command \<Rightarrow>
        if \<not> command_ok command then sent_status r = Some 422 \<and> sv_db w' = sv_db w
        else (let made = creation P C (WithRequestID (rq_Context rq) rid) command (sv_now w) (sv_db w) in
          sent_status r = Some 201
            \<and> (\<exists>created. made created (sv_db w') \<and> sent_header r ''Location'' = Some (''/api/v1/orders/'' @ lib_uuid_string C (order_ID created)))
          \<or> sent_status r = Some 500 \<and> (sv_db w' = sv_db w \<or> (\<exists>created. made created (sv_db w')))))"
proof -
  let ?r0 = "\<lambda>rid. response_start\<lparr>rs_Header := [(''X-Request-Id'', rid)]\<rparr>"
  let ?rq = "\<lambda>rid. rq\<lparr>rq_Context := WithRequestID (rq_Context rq) rid, rq_Pattern := ''POST /api/v1/orders'', rq_PathValue := ''''\<rparr>"
  obtain rid n rq2 st2 w2 where h: "HTTPHandler_create host_runtime C (postgres_store P C) (statusWriter net_writer) (?rq rid)
      (0, ?r0 rid) (w\<lparr>h_next := n\<rparr>) = (rq2, (st2, r), w2)" and db: "sv_db w' = sv_db w2"
    by (rule Routes_reach [OF assms(6), where pat = "''POST /api/v1/orders''" and wild = "''''"
        and H = "HTTPHandler_create host_runtime C (postgres_store P C) (statusWriter net_writer)"])
       (use assms(1,2) in \<open>simp_all add: mux_create\<close>)
  have r0: "rs_sent (?r0 rid) = None" by (simp add: response_start_def)
  show ?thesis
  proof (cases "parse_create C (rq_Body rq)")
    case (Inl message)
    then show ?thesis
      using h by (auto simp: HTTPHandler_create_def db writeError_sent [OF r0])
  next
    case (Inr command)
    obtain x w3 where s: "Service_Create host_runtime C (postgres_store P C) (with_timeout (rq_Context (?rq rid)) (5 * second)) command
        (w\<lparr>h_next := n\<rparr>) = (x, w3)"
      by fastforce
    note out = Service_Create_host [OF s]
    have same: "creation P C (with_timeout (WithRequestID (rq_Context rq) rid) (5 * second)) = creation P C (WithRequestID (rq_Context rq) rid)"
      by (intro ext) (simp add: creation_def)
    show ?thesis
    proof (cases x)
      case (Inl e)
      have "errors_is e ErrInvalidRequest \<longleftrightarrow> \<not> command_ok command"
        using out Inl assms(3-5) by (auto simp: foreign_error_def)
      then show ?thesis
        using h s out Inl Inr by (auto simp: HTTPHandler_create_def db writeError_sent [OF r0] same Let_def)
    next
      case Inr': (Inr created)
      have made: "creation P C (WithRequestID (rq_Context rq) rid) command (sv_now w) (sv_db w) created (sv_db w3)"
        using out Inr' by (simp add: same)
      then have "command_ok command" using New_order_Inr unfolding creation_def by blast
      moreover have "r = writeJSON net_writer 201 (encode_order C created) ((?r0 rid)\<lparr>rs_Header
          := header_set ''Location'' (''/api/v1/orders/'' @ lib_uuid_string C (order_ID created)) (rs_Header (?r0 rid))\<rparr>)"
        and "w2 = w3"
        using h s Inr Inr' by (simp_all add: HTTPHandler_create_def)
      ultimately show ?thesis
        using made Inr r0 by (auto simp: db writeJSON_sent)
    qed
  qed
qed

theorem create_status_is_true_witness:
  "\<exists>rq' r w'. Routes host_runtime sample_http (postgres_store sample_pg sample_http) (\<lambda>W rq r w. (rq, r, w)) net_writer
      (post_order ''overflow'') response_start (sample_host empty_db []) = (rq', r, w')
    \<and> sent_status r = Some 422 \<and> sv_db w' = empty_db"
proof -
  obtain rq' r w' where run: "Routes host_runtime sample_http (postgres_store sample_pg sample_http) (\<lambda>W rq r w. (rq, r, w)) net_writer
      (post_order ''overflow'') response_start (sample_host empty_db []) = (rq', r, w')"
    by (metis surj_pair)
  obtain command where "parse_create sample_http (rq_Body (post_order ''overflow'')) = Inr command" "\<not> command_ok command"
    using parse_overflow by blast
  then have "sent_status r = Some 422 \<and> sv_db w' = empty_db"
    using create_status_is_true [OF _ _ _ sample_pg_laws sample_http_errors run] by simp
  then show ?thesis using run by blast
qed

lemma Get_order_quiet:
  "sv_plan s = [] \<Longrightarrow> Get_order P i s = ((case db_view P (sv_db s) i of None \<Rightarrow> Inl err_not_found | Some found \<Rightarrow> Inr found), s)"
  by (simp add: Get_order_def query_def next_reply_def select_order_def select_items_def db_view_def no_rows_def errors_is_def
      split: option.split)

text \<open>
  C25. The status of a lookup tells the truth too: 400 exactly for an id that is not a UUID, 200 with the
  stored order in the body, 404 only when no such order is stored, and 500 only when a round trip failed.
  A lookup changes nothing.
\<close>
theorem get_status_is_true:
  fixes w :: "'z host_scheme"
  assumes "rq_Method rq \<in> {''GET'', ''HEAD''}" and "rq_Segments rq = [''api'', ''v1'', ''orders'', oid]" and "oid \<notin> {'''', ''/''}"
    and "server_ok w"
    and "Routes host_runtime C (postgres_store P C) operational net_writer rq response_start w = (rq', r, w')"
  shows "sv_db w' = sv_db w \<and> (case lib_uuid_parse C oid of
      Inl e \<Rightarrow> sent_status r = Some 400
    | Inr i \<Rightarrow> (case db_view P (sv_db w) i of
        Some found \<Rightarrow> sent_status r = Some 200
          \<and> rs_Body r = (case encode_order C found of None \<Rightarrow> '''' | Some txt \<Rightarrow> txt @ [CHR 0x0A])
      | None \<Rightarrow> sent_status r = Some 404)
      \<or> sent_status r = Some 500 \<and> sv_plan w \<noteq> [])"
proof -
  let ?r0 = "\<lambda>rid. response_start\<lparr>rs_Header := [(''X-Request-Id'', rid)]\<rparr>"
  let ?rq = "\<lambda>rid. rq\<lparr>rq_Context := WithRequestID (rq_Context rq) rid, rq_Pattern := ''GET /api/v1/orders/{id}'', rq_PathValue := oid\<rparr>"
  obtain rid n rq2 st2 w2 where h: "HTTPHandler_get C (postgres_store P C) (statusWriter net_writer) (?rq rid)
      (0, ?r0 rid) (w\<lparr>h_next := n\<rparr>) = (rq2, (st2, r), w2)" and db: "sv_db w' = sv_db w2"
    by (rule Routes_reach [OF assms(5), where pat = "''GET /api/v1/orders/{id}''" and wild = oid
        and H = "HTTPHandler_get C (postgres_store P C) (statusWriter net_writer)"])
       (use assms(1-3) in \<open>simp_all add: mux_get\<close>)
  define w1 where "w1 = w\<lparr>h_next := n\<rparr>"
  note w1 = w1_def
  have r0: "rs_sent (?r0 rid) = None" "rs_Body (?r0 rid) = ''''" by (simp_all add: response_start_def)
  show ?thesis
  proof (cases "lib_uuid_parse C oid")
    case (Inl e)
    then show ?thesis using h by (auto simp: HTTPHandler_get_def db w1 writeError_sent [OF r0(1)])
  next
    case (Inr i)
    obtain x w3 where g: "Get_order P i w1 = (x, w3)" by fastforce
    have ok: "server_ok w1" using assms(4) w1 by (simp add: server_ok_def)
    note spec = Get_order_spec [OF g ok]
    have get: "Service_Get (postgres_store P C) ctx i w1 = (x, w3)" for ctx
      by (simp add: Service_Get_def postgres_store_def g)
    show ?thesis
    proof (cases x)
      case (Inl e)
      have "\<not> errors_is e ErrNotFound \<Longrightarrow> sv_plan w \<noteq> []"
        using Get_order_quiet [of w1 P i] g Inl w1 by (auto simp: err_not_found_def errors_is_def split: option.splits)
      then show ?thesis
        using h get spec Inl Inr w1 by (auto simp: HTTPHandler_get_def db writeError_sent [OF r0(1)] split: if_splits option.splits)
    next
      case Inr': (Inr found)
      then have "r = writeJSON net_writer 200 (encode_order C found) (?r0 rid)" and "w2 = w3"
        using h get Inr w1 by (simp_all add: HTTPHandler_get_def)
      then show ?thesis
        using spec Inr Inr' w1 r0 by (simp add: db writeJSON_sent)
    qed
  qed
qed

definition get_order :: "string \<Rightarrow> request" where
  "get_order oid = (post_order '''')\<lparr>rq_Method := ''GET'', rq_Segments := [''api'', ''v1'', ''orders'', oid]\<rparr>"

theorem get_status_is_true_witness:
  "\<exists>rq' r w'. Routes host_runtime sample_http (postgres_store sample_pg sample_http) (\<lambda>W rq r w. (rq, r, w)) net_writer
      (get_order ''5'') response_start (sample_host empty_db []) = (rq', r, w') \<and> sent_status r = Some 404"
proof -
  obtain rq' r w' where run: "Routes host_runtime sample_http (postgres_store sample_pg sample_http) (\<lambda>W rq r w. (rq, r, w)) net_writer
      (get_order ''5'') response_start (sample_host empty_db []) = (rq', r, w')"
    by (metis surj_pair)
  have "server_ok (sample_host empty_db [])" using empty_db_ok by (simp add: server_ok_def)
  then have "sent_status r = Some 404"
    using get_status_is_true [OF _ _ _ _ run, of "''5''"] by (simp add: get_order_def is_digit_def db_view_def)
  then show ?thesis using run by blast
qed

text \<open>
  Whatever a client sends as X-Request-ID, the id that the request then has is one an event envelope
  accepts when the ids that \<open>uuid.NewString\<close> gives are; it is the client's own id, without the space around
  it, exactly when that has 1 to 128 bytes, and the client always gets it back.
\<close>
theorem request_ids_are_valid:
  fixes w :: "'z host_scheme"
  assumes "request_id host_runtime L rq w = (rid, w1)"
    and "\<And>u. lib_uuid_string L u \<noteq> '''' \<and> length (lib_uuid_string L u) \<le> 128 \<and> trim_space (lib_uuid_string L u) = lib_uuid_string L u"
  defines "sent \<equiv> trim_space (Header_Get rq ''X-Request-Id'')"
  shows "trim_space rid = rid \<and> rid \<noteq> '''' \<and> length rid \<le> 128
    \<and> (if sent \<noteq> '''' \<and> length sent \<le> 128 then rid = sent \<and> w1 = w
       else rid = lib_uuid_string L (h_uuids w (h_next w)))"
proof (cases "sent \<noteq> '''' \<and> length sent \<le> 128")
  case True
  then have "rid = sent" "w1 = w"
    using assms(1) by (simp_all add: request_id_def sent_def [symmetric])
  then show ?thesis using True by (simp add: sent_def)
next
  case False
  then have "rid = lib_uuid_string L (h_uuids w (h_next w))"
    using assms(1) by (auto simp: request_id_def sent_def [symmetric])
  then show ?thesis using assms(2) [of "h_uuids w (h_next w)"] False by auto
qed

theorem request_ids_are_valid_witness:
  "fst (request_id host_runtime (C0\<lparr>lib_uuid_string := \<lambda>u. ''0-0''\<rparr>) (post_order '''') (sample_host empty_db [])) = ''req-1''"
proof -
  have hdr: "Header_Get (post_order '''') ''X-Request-Id'' = ''req-1''" by (simp add: Header_Get_def post_order_def)
  have trim: "trim_space ''req-1'' = ''req-1''" "trim_space ''0-0'' = ''0-0''" by (simp_all add: ascii_simps)
  show ?thesis
    using request_ids_are_valid [OF prod.collapse [symmetric], of "C0\<lparr>lib_uuid_string := \<lambda>u. ''0-0''\<rparr>" "post_order ''''"
        "sample_host empty_db []"] hdr trim by simp
qed

end
