(* ===== verification/Outbox_Repo.thy ===== *)
theory Outbox_Repo
  imports Order_Store
begin

text \<open>
  internal/outbox/model.go and internal/outbox/postgres.go: the rows a publisher claims under a lease,
  and the three ways a claimed row is given back. The last part treats the outbox as a state machine
  over any sequence of such operations by any publishers, with the clock advancing in between: terminal
  rows never change again, and a live lease belongs to its owner alone.
\<close>

section \<open>Events and topics\<close>

record outbox_event =
  ev_ID :: uuid
  ev_AggregateID :: uuid
  ev_EventType :: string
  ev_Payload :: string
  ev_Attempts :: int64
  ev_CreatedAt :: time

record topics =
  topic_OrderCreated :: string
  topic_OrderStatusChanged :: string

definition Topics_For :: "topics \<Rightarrow> string \<Rightarrow> string option" where
  "Topics_For t eventType =
     (if eventType = ''OrderCreated'' then Some (topic_OrderCreated t)
      else if eventType = ''OrderStatusChanged'' then Some (topic_OrderStatusChanged t)
      else None)"

section \<open>PostgresRepository\<close>

text \<open>The candidates of a claim: due, unleased, not locked by another transaction, oldest first.\<close>

definition claimable :: "time \<Rightarrow> outbox_row \<Rightarrow> bool" where
  "claimable now r \<longleftrightarrow> ob_status r \<in> {OB_PENDING, OB_PROCESSING} \<and> ob_next_attempt_at r \<le> now
     \<and> (case ob_locked_until r of None \<Rightarrow> True | Some u \<Rightarrow> u < now)"

definition candidates :: "uuid list \<Rightarrow> time \<Rightarrow> nat \<Rightarrow> db \<Rightarrow> outbox_row list" where
  "candidates locked now limit d =
     take limit (sort_key ob_created_at
       (filter (\<lambda>r. claimable now r \<and> ob_id r \<notin> set locked) (outbox_events d)))"

definition claim_row :: "string \<Rightarrow> time \<Rightarrow> outbox_row \<Rightarrow> outbox_row" where
  "claim_row owner until r = r\<lparr>ob_status := OB_PROCESSING, ob_locked_by := Some owner,
     ob_locked_until := Some until, ob_attempts := ob_attempts r + 1\<rparr>"

text \<open>\<open>INTEGER\<close> is 32 bits wide: an increment beyond it is an error of the statement.\<close>

definition claim_stmt ::
  "pg \<Rightarrow> uuid list \<Rightarrow> time \<Rightarrow> string \<Rightarrow> int64 \<Rightarrow> int64 \<Rightarrow> outbox_row list stmt" where
  "claim_stmt P locked now owner limit ms d =
     (if \<not> text_ok owner then Inl (pg_error P (InvalidText ''outbox_events''))
      else if sint limit < 0 then Inl (pg_error P (OutOfRange ''limit''))
      else let chosen = candidates locked now (nat (sint limit)) d;
               ids = map ob_id chosen;
               until = now + sint ms * 1000000
           in if \<exists>r \<in> set chosen. ob_attempts r + 1 > 2 ^ 31 - 1 then
                Inl (pg_error P (OutOfRange ''outbox_events''))
              else case update_outbox P (\<lambda>r. ob_id r \<in> set ids) (claim_row owner until) d of
                     Inl e \<Rightarrow> Inl e
                   | Inr (n, d') \<Rightarrow> Inr (filter (\<lambda>r. ob_id r \<in> set ids) (outbox_events d'), d'))"

definition event_of_row :: "outbox_row \<Rightarrow> outbox_event" where
  "event_of_row r = \<lparr>ev_ID = ob_id r, ev_AggregateID = ob_aggregate_id r, ev_EventType = ob_event_type r,
     ev_Payload = ob_payload r, ev_Attempts = word_of_int (ob_attempts r), ev_CreatedAt = ob_created_at r\<rparr>"

text \<open>
  \<open>Duration.Milliseconds\<close> truncates; a failure while the rows are read is a round trip of its own, after the
  update took effect. A statement that the server refuses fails at \<open>Query\<close> here; the driver may report it
  only at \<open>rows.Err\<close>, which changes the prefix of the error's text and nothing else. The columns of a row
  always scan into an \<open>Event\<close>.
\<close>

definition Claim ::
  "pg \<Rightarrow> string \<Rightarrow> int64 \<Rightarrow> duration \<Rightarrow> 'z server_scheme \<Rightarrow> outbox_event list result \<times> 'z server_scheme" where
  "Claim P owner limit lease s =
     (case query (claim_stmt P (sv_locked s) (sv_now s) owner limit (quot64 lease millisecond)) s of
        (Inl e, s1) \<Rightarrow> (Inl (wrapf ''claim outbox events: '' e), s1)
      | (Inr rows, s1) \<Rightarrow>
     (case query (\<lambda>d. Inr ((), d)) s1 of
        (Inl e, s2) \<Rightarrow> (Inl (wrapf ''iterate claimed outbox events: '' e), s2)
      | (Inr _, s2) \<Rightarrow> (Inr (map event_of_row rows), s2)))"

text \<open>The condition the three updates share, and the form they share.\<close>

definition owned :: "uuid \<Rightarrow> string \<Rightarrow> outbox_row \<Rightarrow> bool" where
  "owned i owner r \<longleftrightarrow> ob_id r = i \<and> ob_locked_by r = Some owner \<and> ob_published_at r = None"

definition exec_owned ::
  "string \<Rightarrow> nat stmt \<Rightarrow> 'z server_scheme \<Rightarrow> goerr option \<times> 'z server_scheme" where
  "exec_owned what stmt s =
     (case query stmt s of
        (Inl e, s1) \<Rightarrow> (Some (wrapf (what @ '': '') e), s1)
      | (Inr affected, s1) \<Rightarrow>
          if affected \<noteq> 1 then (Some (errorf [Lit what, Lit '': lease lost'']), s1) else (None, s1))"

definition published_row :: "time \<Rightarrow> outbox_row \<Rightarrow> outbox_row" where
  "published_row now r = r\<lparr>ob_status := OB_PUBLISHED, ob_published_at := Some now,
     ob_locked_by := None, ob_locked_until := None, ob_last_error := None\<rparr>"

definition MarkPublished ::
  "pg \<Rightarrow> uuid \<Rightarrow> string \<Rightarrow> 'z server_scheme \<Rightarrow> goerr option \<times> 'z server_scheme" where
  "MarkPublished P i owner s = exec_owned ''mark outbox event published''
     (\<lambda>d. if \<not> text_ok owner then Inl (pg_error P (InvalidText ''outbox_events''))
          else update_outbox P (owned i owner) (published_row (sv_now s)) d) s"

text \<open>SQL's \<open>left\<close>: the first characters of a text.\<close>

definition left_chars :: "nat \<Rightarrow> string \<Rightarrow> string" where
  "left_chars n s = concat (map snd (take n (runes s)))"

definition released_row :: "string \<Rightarrow> time \<Rightarrow> outbox_row \<Rightarrow> outbox_row" where
  "released_row message nextAttempt r = r\<lparr>ob_status := OB_PENDING, ob_locked_by := None,
     ob_locked_until := None, ob_last_error := Some (left_chars 2000 message),
     ob_next_attempt_at := nextAttempt\<rparr>"

definition Release ::
  "pg \<Rightarrow> uuid \<Rightarrow> string \<Rightarrow> string \<Rightarrow> time \<Rightarrow> 'z server_scheme \<Rightarrow> goerr option \<times> 'z server_scheme" where
  "Release P i owner message nextAttempt s = exec_owned ''release outbox event''
     (\<lambda>d. if \<not> text_ok owner \<or> \<not> text_ok message then Inl (pg_error P (InvalidText ''outbox_events''))
          else update_outbox P (owned i owner) (released_row message (pg_timestamp P nextAttempt)) d) s"

definition failed_row :: "string \<Rightarrow> outbox_row \<Rightarrow> outbox_row" where
  "failed_row message r = r\<lparr>ob_status := OB_FAILED, ob_locked_by := None, ob_locked_until := None,
     ob_last_error := Some (left_chars 2000 message)\<rparr>"

definition MarkFailed ::
  "pg \<Rightarrow> uuid \<Rightarrow> string \<Rightarrow> string \<Rightarrow> 'z server_scheme \<Rightarrow> goerr option \<times> 'z server_scheme" where
  "MarkFailed P i owner message s = exec_owned ''mark outbox event failed''
     (\<lambda>d. if \<not> text_ok owner \<or> \<not> text_ok message then Inl (pg_error P (InvalidText ''outbox_events''))
          else update_outbox P (owned i owner) (failed_row message) d) s"

definition pending_row :: "outbox_row \<Rightarrow> bool" where
  "pending_row r \<longleftrightarrow> ob_status r \<in> {OB_PENDING, OB_PROCESSING}"

definition PendingCount :: "'z server_scheme \<Rightarrow> int64 result \<times> 'z server_scheme" where
  "PendingCount s = query (\<lambda>d. Inr (of_nat (length (filter pending_row (outbox_events d))), d)) s"

section \<open>What one operation does to the table\<close>

definition row_of :: "db \<Rightarrow> uuid \<Rightarrow> outbox_row option" where
  "row_of d i = find (\<lambda>r. ob_id r = i) (outbox_events d)"

lemma row_of_Some: "row_of d i = Some r \<Longrightarrow> r \<in> set (outbox_events d) \<and> ob_id r = i"
  by (auto simp: row_of_def dest: find_SomeD)

lemma row_of_mem:
  assumes "db_ok d" and "r \<in> set (outbox_events d)"
  shows "row_of d (ob_id r) = Some r"
proof -
  have "distinct (map ob_id rs) \<Longrightarrow> r \<in> set rs \<Longrightarrow> find (\<lambda>x. ob_id x = ob_id r) rs = Some r" for rs
    by (induction rs) force+
  with assms show ?thesis by (simp add: row_of_def db_ok_def)
qed

lemma find_map_same:
  "(\<And>x. f (g x) = f x) \<Longrightarrow> find (\<lambda>x. f x = i) (map g xs) = map_option g (find (\<lambda>x. f x = i) xs)"
  by (induction xs) auto

lemma update_outbox_Inr:
  "update_outbox P cond upd d = Inr (n, d') \<longleftrightarrow>
     n = length (filter cond (outbox_events d))
     \<and> d' = d\<lparr>outbox_events := map (\<lambda>r. if cond r then upd r else r) (outbox_events d)\<rparr>
     \<and> list_all outbox_row_ok (map (\<lambda>r. if cond r then upd r else r) (outbox_events d))"
  by (auto simp: update_outbox_def Let_def)

lemma row_of_update:
  "(\<And>r. ob_id (upd r) = ob_id r) \<Longrightarrow> update_outbox P cond upd d = Inr (n, d') \<Longrightarrow>
     row_of d' i = map_option (\<lambda>r. if cond r then upd r else r) (row_of d i)"
  by (simp add: update_outbox_Inr row_of_def find_map_same)

lemma upd_ids [simp]:
  "ob_id (claim_row owner u r) = ob_id r" "ob_id (published_row now r) = ob_id r"
  "ob_id (released_row m t r) = ob_id r" "ob_id (failed_row m r) = ob_id r"
  by (simp_all add: claim_row_def published_row_def released_row_def failed_row_def)

lemma candidates_mem:
  "r \<in> set (candidates locked now n d) \<Longrightarrow>
     r \<in> set (outbox_events d) \<and> claimable now r \<and> ob_id r \<notin> set locked"
  by (auto simp: candidates_def dest!: in_set_takeD)

lemma claim_stmt_Inr:
  "claim_stmt P locked now owner limit ms d = Inr (rows, d') \<Longrightarrow>
     update_outbox P (\<lambda>r. ob_id r \<in> set (map ob_id (candidates locked now (nat (sint limit)) d)))
       (claim_row owner (now + sint ms * 1000000)) d = Inr (length (filter (\<lambda>r. ob_id r \<in>
          set (map ob_id (candidates locked now (nat (sint limit)) d))) (outbox_events d)), d')
     \<and> rows = filter (\<lambda>r. ob_id r \<in> set (map ob_id (candidates locked now (nat (sint limit)) d)))
         (outbox_events d')
     \<and> 0 \<le> sint limit \<and> (\<forall>r \<in> set (candidates locked now (nat (sint limit)) d). ob_attempts r < 2 ^ 31 - 1)"
  by (auto simp: claim_stmt_def Let_def update_outbox_Inr not_less split: if_splits sum.splits)

lemma claim_stmt_keeps: "keeps db_ok (claim_stmt P locked now owner limit ms)"
  by (rule keepsI, drule claim_stmt_Inr)
     (auto intro: keepsD [OF update_outbox_keeps, rotated 1])

definition updates_owned :: "pg \<Rightarrow> uuid \<Rightarrow> string \<Rightarrow> (outbox_row \<Rightarrow> outbox_row) \<Rightarrow> nat stmt \<Rightarrow> bool" where
  "updates_owned P i owner upd stmt \<longleftrightarrow> (\<forall>r. ob_id (upd r) = ob_id r)
     \<and> (\<forall>d n d'. stmt d = Inr (n, d') \<longrightarrow> update_outbox P (owned i owner) upd d = Inr (n, d'))"

lemma updates_owned_keeps: "updates_owned P i owner upd stmt \<Longrightarrow> keeps db_ok stmt"
  using update_outbox_keeps [of upd P "owned i owner"] by (auto simp: updates_owned_def keeps_def)

lemma exec_owned_cases:
  assumes "exec_owned what stmt s = (r, s')"
  obtains (applied) n where "stmt (sv_db s) = Inr (n, sv_db s')" "r = None \<longrightarrow> n = 1"
  | (failed) "r \<noteq> None" "sv_db s' = sv_db s"
proof -
  obtain q s1 where q: "query stmt s = (q, s1)" by fastforce
  show thesis
    by (cases rule: query_cases [OF q])
       (use assms q that in \<open>auto simp: exec_owned_def split: if_splits\<close>)
qed

lemma filter_owned:
  assumes "db_ok d"
  shows "filter (owned i owner) (outbox_events d)
    = (case row_of d i of None \<Rightarrow> [] | Some r \<Rightarrow> if owned i owner r then [r] else [])"
proof -
  have "distinct (map ob_id rs) \<Longrightarrow> filter (owned i owner) rs
    = (case find (\<lambda>r. ob_id r = i) rs of None \<Rightarrow> [] | Some r \<Rightarrow> if owned i owner r then [r] else [])" for rs
  proof (induction rs)
    case (Cons r rs)
    then have "ob_id r = i \<Longrightarrow> i \<notin> ob_id ` set rs" by simp
    then have "ob_id r = i \<Longrightarrow> filter (owned i owner) rs = []"
      by (auto simp: filter_empty_conv owned_def image_iff)
    moreover have "ob_id r \<noteq> i \<Longrightarrow> \<not> owned i owner r" by (simp add: owned_def)
    ultimately show ?case using Cons by (cases "ob_id r = i") auto
  qed simp
  with assms show ?thesis by (simp add: row_of_def db_ok_def)
qed

lemma affected_owned:
  assumes "db_ok d" and "updates_owned P i owner upd stmt" and "stmt d = Inr (n, d')"
  shows "n = 1 \<longleftrightarrow> (\<exists>r. row_of d i = Some r \<and> owned i owner r)"
    and "n \<noteq> 1 \<Longrightarrow> d' = d"
proof -
  have u: "update_outbox P (owned i owner) upd d = Inr (n, d')"
    using assms by (auto simp: updates_owned_def)
  then have n: "n = length (filter (owned i owner) (outbox_events d))"
    by (simp add: update_outbox_Inr)
  then show "n = 1 \<longleftrightarrow> (\<exists>r. row_of d i = Some r \<and> owned i owner r)"
    using filter_owned [OF assms(1), of i owner] by (auto split: option.splits if_splits)
  assume "n \<noteq> 1"
  then have "filter (owned i owner) (outbox_events d) = []"
    using n filter_owned [OF assms(1), of i owner] by (auto split: option.splits if_splits)
  then have "map (\<lambda>r. if owned i owner r then upd r else r) (outbox_events d) = outbox_events d"
    by (intro map_idI) (auto simp: filter_empty_conv)
  with u show "d' = d" by (simp add: update_outbox_Inr)
qed

text \<open>The three ways to give a row back, described at once: the change is made exactly when the row
  still belongs to the caller; an error after a lost answer leaves either state.\<close>

lemma exec_owned_spec:
  assumes "exec_owned what stmt s = (res, s')" and "updates_owned P i owner upd stmt" and "db_ok (sv_db s)"
  shows "db_ok (sv_db s')"
    and "res \<noteq> None \<and> sv_db s' = sv_db s
      \<or> (\<exists>r n. row_of (sv_db s) i = Some r \<and> owned i owner r \<and> stmt (sv_db s) = Inr (n, sv_db s')
           \<and> row_of (sv_db s') i = Some (upd r))"
proof -
  note keeps = updates_owned_keeps [OF assms(2)]
  show "db_ok (sv_db s')"
    by (cases rule: exec_owned_cases [OF assms(1)]) (simp_all add: keepsD [OF keeps assms(3)] assms(3))
  show "res \<noteq> None \<and> sv_db s' = sv_db s
      \<or> (\<exists>r n. row_of (sv_db s) i = Some r \<and> owned i owner r \<and> stmt (sv_db s) = Inr (n, sv_db s')
           \<and> row_of (sv_db s') i = Some (upd r))"
    using assms(1)
  proof (cases rule: exec_owned_cases)
    case (applied n)
    have row: "row_of (sv_db s') i = map_option (\<lambda>r. if owned i owner r then upd r else r) (row_of (sv_db s) i)"
      using applied(1) assms(2) row_of_update [of upd P "owned i owner" "sv_db s" n "sv_db s'" i]
      by (auto simp: updates_owned_def)
    show ?thesis
    proof (cases "n = 1")
      case True
      then obtain r where "row_of (sv_db s) i = Some r" "owned i owner r"
        using affected_owned(1) [OF assms(3,2) applied(1)] by blast
      then show ?thesis using applied(1) row by auto
    next
      case False
      then show ?thesis using affected_owned(2) [OF assms(3,2) applied(1)] applied(2) by blast
    qed
  qed simp
qed

lemma row_of_other:
  assumes "updates_owned P i owner upd stmt" and "stmt d = Inr (n, d')" and "j \<noteq> i"
  shows "row_of d' j = row_of d j"
proof -
  have "row_of d' j = map_option (\<lambda>r. if owned i owner r then upd r else r) (row_of d j)"
    using assms row_of_update [of upd P "owned i owner" d n d' j] by (auto simp: updates_owned_def)
  then show ?thesis
    using assms(3) by (cases "row_of d j") (auto dest!: row_of_Some simp: owned_def)
qed

lemma updates_owned_intros:
  "updates_owned P i owner (published_row now)
     (\<lambda>d. if \<not> text_ok owner then Inl e else update_outbox P (owned i owner) (published_row now) d)"
  "updates_owned P i owner (released_row m t)
     (\<lambda>d. if \<not> text_ok owner \<or> \<not> text_ok m then Inl e else update_outbox P (owned i owner) (released_row m t) d)"
  "updates_owned P i owner (failed_row m)
     (\<lambda>d. if \<not> text_ok owner \<or> \<not> text_ok m then Inl e else update_outbox P (owned i owner) (failed_row m) d)"
  by (simp_all add: updates_owned_def split: if_splits)

section \<open>The outbox as a state machine\<close>

text \<open>
  What any number of publishers, the writers of new events and the passing of time can do, one statement
  at a time (each is one transaction). Whether a statement's answer arrives is up to the server's plan.
\<close>

datatype outbox_op =
    OpClaim string int64 duration
  | OpPublished uuid string
  | OpRelease uuid string string time
  | OpFailed uuid string string
  | OpInsert uuid uuid string string time
  | OpClock time

definition run_op :: "pg \<Rightarrow> outbox_op \<Rightarrow> 'z server_scheme \<Rightarrow> 'z server_scheme" where
  "run_op P op s = (case op of
      OpClaim owner limit lease \<Rightarrow> snd (Claim P owner limit lease s)
    | OpPublished i owner \<Rightarrow> snd (MarkPublished P i owner s)
    | OpRelease i owner message t \<Rightarrow> snd (Release P i owner message t s)
    | OpFailed i owner message \<Rightarrow> snd (MarkFailed P i owner message s)
    | OpInsert eid agg ty payload created \<Rightarrow> snd (query (insert_outbox P (sv_now s) eid agg ty payload created) s)
    | OpClock t \<Rightarrow> s\<lparr>sv_now := max (sv_now s) t\<rparr>)"

definition op_owner :: "outbox_op \<Rightarrow> string option" where
  "op_owner op = (case op of
      OpClaim owner limit lease \<Rightarrow> Some owner | OpPublished i owner \<Rightarrow> Some owner
    | OpRelease i owner message t \<Rightarrow> Some owner | OpFailed i owner message \<Rightarrow> Some owner
    | OpInsert eid agg ty payload created \<Rightarrow> None | OpClock t \<Rightarrow> None)"

text \<open>The abstract machine of one row: what an operation may make of it at time \<open>now\<close>.\<close>

inductive row_step :: "pg \<Rightarrow> time \<Rightarrow> outbox_op \<Rightarrow> outbox_row \<Rightarrow> outbox_row \<Rightarrow> bool"
  for P now where
  row_same: "row_step P now op r r"
| row_claim: "claimable now r \<Longrightarrow>
    row_step P now (OpClaim owner limit lease) r (claim_row owner (now + sint (quot64 lease millisecond) * 1000000) r)"
| row_publish: "owned i owner r \<Longrightarrow> row_step P now (OpPublished i owner) r (published_row now r)"
| row_release: "owned i owner r \<Longrightarrow>
    row_step P now (OpRelease i owner message t) r (released_row message (pg_timestamp P t) r)"
| row_fail: "owned i owner r \<Longrightarrow> row_step P now (OpFailed i owner message) r (failed_row message r)"

inductive_cases row_step_elim: "row_step P now op r r'"

lemma Claim_db:
  assumes "Claim P owner limit lease s = (res, s')"
  obtains (claimed) rows where
      "claim_stmt P (sv_locked s) (sv_now s) owner limit (quot64 lease millisecond) (sv_db s) = Inr (rows, sv_db s')"
      "\<forall>evs. res = Inr evs \<longrightarrow> evs = map event_of_row rows"
    | (unchanged) e where "res = Inl e" "sv_db s' = sv_db s"
proof -
  let ?stmt = "claim_stmt P (sv_locked s) (sv_now s) owner limit (quot64 lease millisecond)"
  obtain q s1 where q: "query ?stmt s = (q, s1)" by fastforce
  obtain q2 s2 where q2: "query (\<lambda>d. Inr ((), d)) s1 = (q2, s2)" by fastforce
  have db2: "sv_db s2 = sv_db s1"
    by (cases rule: query_cases [OF q2]) auto
  show thesis
    by (cases rule: query_cases [OF q])
       (use assms q q2 db2 that in \<open>auto simp: Claim_def split: sum.splits\<close>)
qed

lemma Claim_keeps: "Claim P owner limit lease s = (res, s') \<Longrightarrow> db_ok (sv_db s) \<Longrightarrow> db_ok (sv_db s')"
  by (cases rule: Claim_db) (auto intro: keepsD [OF claim_stmt_keeps])

text \<open>After a claim took effect, the returned rows are the candidates, leased, and no other row changed.\<close>

lemma claim_stmt_rows:
  assumes "claim_stmt P locked now owner limit ms d = Inr (rows, d')" and "db_ok d"
  defines "chosen \<equiv> candidates locked now (nat (sint limit)) d"
  shows "row_of d' i = map_option (\<lambda>r. if r \<in> set chosen then claim_row owner (now + sint ms * 1000000) r else r) (row_of d i)"
    and "map ob_id rows = map ob_id (filter (\<lambda>r. ob_id r \<in> set (map ob_id chosen)) (outbox_events d))"
proof -
  note c = claim_stmt_Inr [OF assms(1), folded chosen_def]
  have same: "r \<in> set chosen" if "r \<in> set (outbox_events d)" "ob_id r \<in> set (map ob_id chosen)" for r
  proof -
    from that(2) obtain q where q: "q \<in> set chosen" "ob_id q = ob_id r" by auto
    then have "q \<in> set (outbox_events d)" by (simp add: candidates_mem chosen_def)
    with q that(1) assms(2) have "q = r"
      by (metis row_of_mem option.inject)
    with q show ?thesis by simp
  qed
  have "row_of d' i = map_option (\<lambda>r. if ob_id r \<in> set (map ob_id chosen)
      then claim_row owner (now + sint ms * 1000000) r else r) (row_of d i)"
    using c by (intro row_of_update) auto
  then show "row_of d' i = map_option (\<lambda>r. if r \<in> set chosen
      then claim_row owner (now + sint ms * 1000000) r else r) (row_of d i)"
    using same by (cases "row_of d i") (auto dest!: row_of_Some)
  have "filter (\<lambda>r. ob_id r \<in> set (map ob_id chosen)) (map (\<lambda>r. if ob_id r \<in> set (map ob_id chosen)
        then claim_row owner u r else r) rs)
      = map (claim_row owner u) (filter (\<lambda>r. ob_id r \<in> set (map ob_id chosen)) rs)" for u rs
    by (induction rs) auto
  then show "map ob_id rows = map ob_id (filter (\<lambda>r. ob_id r \<in> set (map ob_id chosen)) (outbox_events d))"
    using c by (auto simp: update_outbox_Inr comp_def)
qed

lemma owned_op_refines:
  assumes "exec_owned what stmt s = (res, s')" and "updates_owned P j owner upd stmt" and "db_ok (sv_db s)"
    and "row_of (sv_db s) i = Some r"
    and step: "\<And>r. owned j owner r \<Longrightarrow> row_step P now op r (upd r)"
  shows "\<exists>r'. row_of (sv_db s') i = Some r' \<and> row_step P now op r r'"
proof -
  have kept: ?thesis if "row_of (sv_db s') i = row_of (sv_db s) i"
    using that assms(4) row_same by metis
  show ?thesis
    using exec_owned_spec(2) [OF assms(1,2,3)]
  proof (elim disjE exE conjE)
    fix r' n
    assume a: "row_of (sv_db s) j = Some r'" "owned j owner r'" "stmt (sv_db s) = Inr (n, sv_db s')"
      "row_of (sv_db s') j = Some (upd r')"
    show ?thesis
    proof (cases "i = j")
      case True
      then show ?thesis using a(1,2,4) assms(4) step [of r'] by (intro exI [of _ "upd r'"]) simp
    next
      case False
      then show ?thesis by (intro kept row_of_other [OF assms(2) a(3)])
    qed
  next
    assume "sv_db s' = sv_db s"
    then show ?thesis by (intro kept) simp
  qed
qed

text \<open>Simulation: every operation moves every row by a step of the abstract machine, and keeps the schema.\<close>

lemma exec_owned_keeps:
  "updates_owned P j owner upd stmt \<Longrightarrow> db_ok (sv_db s) \<Longrightarrow> db_ok (sv_db (snd (exec_owned what stmt s)))"
  by (rule exec_owned_spec(1) [OF prod.collapse [symmetric]])

lemma MarkPublished_keeps: "db_ok (sv_db s) \<Longrightarrow> db_ok (sv_db (snd (MarkPublished P i owner s)))"
  unfolding MarkPublished_def by (rule exec_owned_keeps [OF updates_owned_intros(1)])

lemma Release_keeps: "db_ok (sv_db s) \<Longrightarrow> db_ok (sv_db (snd (Release P i owner message t s)))"
  unfolding Release_def by (rule exec_owned_keeps [OF updates_owned_intros(2)])

lemma MarkFailed_keeps: "db_ok (sv_db s) \<Longrightarrow> db_ok (sv_db (snd (MarkFailed P i owner message s)))"
  unfolding MarkFailed_def by (rule exec_owned_keeps [OF updates_owned_intros(3)])

lemma run_op_keeps: "db_ok (sv_db s) \<Longrightarrow> db_ok (sv_db (run_op P op s))"
  using MarkPublished_keeps Release_keeps MarkFailed_keeps
  by (cases op)
     (auto simp: run_op_def intro: Claim_keeps [OF prod.collapse [symmetric]]
         query_keeps [OF insert_outbox_keeps _ prod.collapse [symmetric]])

lemma insert_outbox_row:
  "insert_outbox P now eid agg ty payload created d = Inr (u, d') \<Longrightarrow> row_of d i = Some r \<Longrightarrow>
     row_of d' i = Some r"
  by (auto simp: insert_outbox_def row_of_def find_append split: option.splits if_splits)

lemma row_of_insert:
  assumes "row_of (sv_db s) i = Some r"
  shows "row_of (sv_db (snd (query (insert_outbox P now eid agg ty payload created) s))) i = Some r"
  using assms
  by (cases rule: query_cases [OF prod.collapse [symmetric], of "insert_outbox P now eid agg ty payload created" s])
     (auto dest: insert_outbox_row)

lemma run_op_refines:
  assumes "db_ok (sv_db s)" and "row_of (sv_db s) i = Some r"
  shows "\<exists>r'. row_of (sv_db (run_op P op s)) i = Some r' \<and> row_step P (sv_now s) op r r'"
proof (cases op)
  case (OpClaim owner limit lease)
  obtain res s' where c: "Claim P owner limit lease s = (res, s')" by fastforce
  have "\<exists>r'. row_of (sv_db s') i = Some r' \<and> row_step P (sv_now s) op r r'"
    using c
  proof (cases rule: Claim_db)
    case (claimed rows)
    then show ?thesis
      using claim_stmt_rows(1) [OF claimed(1) assms(1), of i] assms(2) OpClaim candidates_mem [of r]
      by (auto intro: row_same row_claim)
  qed (use assms(2) in \<open>auto intro: row_same\<close>)
  then show ?thesis using c OpClaim by (simp add: run_op_def)
next
  case (OpPublished j owner)
  show ?thesis
    unfolding OpPublished run_op_def MarkPublished_def outbox_op.case
    by (rule owned_op_refines [OF prod.collapse [symmetric] updates_owned_intros(1) assms])
       (rule row_publish)
next
  case (OpRelease j owner m t)
  show ?thesis
    unfolding OpRelease run_op_def Release_def outbox_op.case
    by (rule owned_op_refines [OF prod.collapse [symmetric] updates_owned_intros(2) assms])
       (rule row_release)
next
  case (OpFailed j owner m)
  show ?thesis
    unfolding OpFailed run_op_def MarkFailed_def outbox_op.case
    by (rule owned_op_refines [OF prod.collapse [symmetric] updates_owned_intros(3) assms])
       (rule row_fail)
next
  case (OpInsert eid agg ty payload created)
  show ?thesis
    unfolding OpInsert run_op_def outbox_op.case using row_of_insert [OF assms(2)] by (auto intro: row_same)
next
  case (OpClock t)
  then show ?thesis using assms(2) by (auto simp: run_op_def intro: row_same)
qed

text \<open>Runs of operations, and the two facts about single rows the run theorems need.\<close>

definition run_ops :: "pg \<Rightarrow> outbox_op list \<Rightarrow> 'z server_scheme \<Rightarrow> 'z server_scheme" where
  "run_ops P ops s = fold (run_op P) ops s"

definition lease_ok :: "outbox_row \<Rightarrow> bool" where
  "lease_ok r \<longleftrightarrow> (ob_locked_by r \<noteq> None \<longleftrightarrow> ob_status r = OB_PROCESSING)"

definition gives_back :: "uuid \<Rightarrow> string \<Rightarrow> outbox_op \<Rightarrow> bool" where
  "gives_back i owner op \<longleftrightarrow> (case op of
      OpPublished j o' \<Rightarrow> j = i \<and> o' = owner | OpRelease j o' m t \<Rightarrow> j = i \<and> o' = owner
    | OpFailed j o' m \<Rightarrow> j = i \<and> o' = owner | OpClaim o' l d \<Rightarrow> False
    | OpInsert eid agg ty payload created \<Rightarrow> False | OpClock t \<Rightarrow> False)"

lemma row_step_lease_ok: "row_step P now op r r' \<Longrightarrow> lease_ok r \<Longrightarrow> lease_ok r'"
  by (erule row_step_elim)
     (auto simp: lease_ok_def claim_row_def published_row_def released_row_def failed_row_def)

lemma row_step_terminal:
  "row_step P now op r r' \<Longrightarrow> lease_ok r \<Longrightarrow> ob_status r \<in> {OB_PUBLISHED, OB_FAILED} \<Longrightarrow> r' = r"
  by (erule row_step_elim) (auto simp: lease_ok_def claimable_def owned_def)

lemma row_step_leased:
  "row_step P now op r r' \<Longrightarrow> ob_locked_by r = Some owner \<Longrightarrow> ob_locked_until r = Some u \<Longrightarrow> now \<le> u \<Longrightarrow>
     \<not> gives_back (ob_id r) owner op \<Longrightarrow> r' = r"
  by (erule row_step_elim) (auto simp: claimable_def owned_def gives_back_def)

lemma query_sv_now: "sv_now (snd (query stmt s)) = sv_now s"
  using query_now [OF prod.collapse [symmetric]] by blast

lemma exec_owned_now: "sv_now (snd (exec_owned what stmt s)) = sv_now s"
  using query_sv_now [of stmt s] by (auto simp: exec_owned_def split: prod.splits sum.splits if_splits)

lemma Claim_now: "sv_now (snd (Claim P owner limit lease s)) = sv_now s"
  by (auto simp: Claim_def split: prod.splits sum.splits) (metis query_sv_now snd_conv)+

lemma run_op_now: "sv_now s \<le> sv_now (run_op P op s)"
  by (cases op) (simp_all add: run_op_def MarkPublished_def Release_def MarkFailed_def exec_owned_now
      query_sv_now Claim_now)

lemma run_ops_now: "sv_now s \<le> sv_now (run_ops P ops s)"
  unfolding run_ops_def by (induction ops arbitrary: s) (auto intro: order_trans [OF run_op_now])

lemma run_ops_keeps: "db_ok (sv_db s) \<Longrightarrow> db_ok (sv_db (run_ops P ops s))"
  unfolding run_ops_def using run_op_keeps by (induction ops arbitrary: s) auto

text \<open>A row that no enabled abstract step can change stays what it is through a whole run.\<close>

lemma run_ops_fixed:
  assumes "db_ok (sv_db s)" and "row_of (sv_db s) i = Some r"
    and "\<And>op now r'. op \<in> set ops \<Longrightarrow> now \<le> sv_now (run_ops P ops s) \<Longrightarrow> row_step P now op r r' \<Longrightarrow> r' = r"
  shows "row_of (sv_db (run_ops P ops s)) i = Some r"
  using assms
proof (induction ops arbitrary: s)
  case (Cons op ops)
  let ?s = "run_op P op s"
  have run: "run_ops P (op # ops) s = run_ops P ops ?s"
    by (simp add: run_ops_def)
  obtain r' where r': "row_of (sv_db ?s) i = Some r'" "row_step P (sv_now s) op r r'"
    using run_op_refines [OF Cons.prems(1,2)] by blast
  have "sv_now s \<le> sv_now (run_ops P (op # ops) s)"
    using run_ops_now .
  then have "r' = r"
    using Cons.prems(3) [OF _ _ r'(2)] by simp
  then show ?case
    unfolding run using Cons.prems(3) run r'(1)
    by (intro Cons.IH run_op_keeps Cons.prems(1)) auto
qed (simp add: run_ops_def)

section \<open>What a claim returns\<close>

lemma claim_stmt_ids:
  assumes "claim_stmt P locked now owner limit ms d = Inr (rows, d')" and "db_ok d"
  defines "chosen \<equiv> candidates locked now (nat (sint limit)) d"
  shows "set (map ob_id rows) = set (map ob_id chosen)" and "distinct (map ob_id rows)"
    and "length rows = length chosen" and "\<forall>r \<in> set rows. row_of d' (ob_id r) = Some r"
proof -
  note ids = claim_stmt_rows(2) [OF assms(1,2), folded chosen_def]
  have sub: "set chosen \<subseteq> set (outbox_events d)"
    by (auto simp: chosen_def candidates_mem)
  show set: "set (map ob_id rows) = set (map ob_id chosen)"
    unfolding ids using sub by auto
  have dist: "distinct (map ob_id (filter p (outbox_events d)))" for p
    using assms(2) by (simp add: db_ok_def distinct_map_filter)
  then show dr: "distinct (map ob_id rows)"
    unfolding ids .
  have "distinct (map ob_id (sort_key ob_created_at (filter p (outbox_events d))))" for p
    using dist [of p] by (simp add: distinct_map)
  then have "distinct (map ob_id chosen)"
    unfolding chosen_def candidates_def take_map [symmetric] by (rule distinct_take)
  with set dr have "length (map ob_id rows) = length (map ob_id chosen)"
    by (metis distinct_card)
  then show "length rows = length chosen" by simp
  have "set rows \<subseteq> set (outbox_events d')"
    using claim_stmt_Inr [OF assms(1)] by auto
  moreover have "db_ok d'"
    using keepsD [OF claim_stmt_keeps assms(2,1)] .
  ultimately show "\<forall>r \<in> set rows. row_of d' (ob_id r) = Some r"
    using row_of_mem by blast
qed

text \<open>The oldest first: whoever is left out is no older than anyone chosen.\<close>

lemma candidates_oldest:
  assumes "r \<in> set (candidates locked now n d)"
    and "q \<in> set (outbox_events d)" and "claimable now q" and "ob_id q \<notin> set locked"
    and "q \<notin> set (candidates locked now n d)"
  shows "ob_created_at r \<le> ob_created_at q"
proof -
  let ?xs = "sort_key ob_created_at (filter (\<lambda>r. claimable now r \<and> ob_id r \<notin> set locked) (outbox_events d))"
  have split: "take n ?xs @ drop n ?xs = ?xs" by simp
  have "q \<in> set ?xs" using assms(2-4) by simp
  then have "q \<in> set (take n ?xs) \<union> set (drop n ?xs)"
    unfolding set_append [symmetric] split .
  then have q: "q \<in> set (drop n ?xs)"
    using assms(5) unfolding candidates_def by blast
  have "sorted (map ob_created_at (take n ?xs) @ map ob_created_at (drop n ?xs))"
    unfolding map_append [symmetric] split by simp
  with assms(1) q show "ob_created_at r \<le> ob_created_at q"
    unfolding candidates_def by (auto simp: sorted_append)
qed

lemma candidates_all:
  assumes "length (candidates locked now n d) < n"
    and "q \<in> set (outbox_events d)" and "claimable now q" and "ob_id q \<notin> set locked"
  shows "q \<in> set (candidates locked now n d)"
proof -
  let ?xs = "sort_key ob_created_at (filter (\<lambda>r. claimable now r \<and> ob_id r \<notin> set locked) (outbox_events d))"
  have "take n ?xs = ?xs"
    using assms(1) by (intro take_all) (simp add: candidates_def)
  then show ?thesis using assms(2-4) by (simp add: candidates_def)
qed

lemma Claim_Inr:
  assumes "Claim P owner limit lease s = (Inr evs, s')" and "db_ok (sv_db s)"
  obtains rows where
    "claim_stmt P (sv_locked s) (sv_now s) owner limit (quot64 lease millisecond) (sv_db s) = Inr (rows, sv_db s')"
    "evs = map event_of_row rows"
  using assms(1) by (cases rule: Claim_db) (use that in auto)

definition claim_until :: "time \<Rightarrow> duration \<Rightarrow> time" where
  "claim_until now lease = now + sint (quot64 lease millisecond) * 1000000"

lemma Claim_event:
  assumes "Claim P owner limit lease s = (Inr evs, s')" and "db_ok (sv_db s)" and "ev \<in> set evs"
  obtains r where "row_of (sv_db s) (ev_ID ev) = Some r"
    "r \<in> set (candidates (sv_locked s) (sv_now s) (nat (sint limit)) (sv_db s))"
    "row_of (sv_db s') (ev_ID ev) = Some (claim_row owner (claim_until (sv_now s) lease) r)"
    "ev = event_of_row (claim_row owner (claim_until (sv_now s) lease) r)"
proof -
  obtain rows where st: "claim_stmt P (sv_locked s) (sv_now s) owner limit (quot64 lease millisecond) (sv_db s)
      = Inr (rows, sv_db s')" and evs: "evs = map event_of_row rows"
    using Claim_Inr [OF assms(1,2)] .
  note rows = claim_stmt_rows(1) [OF st assms(2)] and ids = claim_stmt_ids [OF st assms(2)]
  from evs assms(3) obtain q where q: "q \<in> set rows" "ev = event_of_row q" by auto
  have evid: "ev_ID ev = ob_id q" by (simp add: q(2) event_of_row_def)
  from q(1) have "ob_id q \<in> set (map ob_id (candidates (sv_locked s) (sv_now s) (nat (sint limit)) (sv_db s)))"
    using ids(1) by (metis image_eqI list.set_map)
  then obtain r where r: "r \<in> set (candidates (sv_locked s) (sv_now s) (nat (sint limit)) (sv_db s))"
      "ob_id r = ob_id q" by auto
  then have old: "row_of (sv_db s) (ob_id q) = Some r"
    using row_of_mem [OF assms(2), of r] candidates_mem [OF r(1)] by simp
  then have new: "row_of (sv_db s') (ob_id q) = Some (claim_row owner (claim_until (sv_now s) lease) r)"
    using rows [of "ob_id q"] r(1) by (simp add: claim_until_def)
  moreover have "row_of (sv_db s') (ob_id q) = Some q" using ids(4) q(1) by blast
  ultimately have "q = claim_row owner (claim_until (sv_now s) lease) r" by simp
  then show thesis using that [of r] old r(1) new evid q(2) by simp
qed

lemma Claim_size:
  assumes "Claim P owner limit lease s = (Inr evs, s')" and "db_ok (sv_db s)"
  shows "distinct (map ev_ID evs)" and "int (length evs) \<le> sint limit" and
    "set (map ev_ID evs) = set (map ob_id (candidates (sv_locked s) (sv_now s) (nat (sint limit)) (sv_db s)))"
proof -
  obtain rows where st: "claim_stmt P (sv_locked s) (sv_now s) owner limit (quot64 lease millisecond) (sv_db s)
      = Inr (rows, sv_db s')" and evs: "evs = map event_of_row rows"
    using Claim_Inr [OF assms] .
  have m: "map ev_ID evs = map ob_id rows"
    by (simp add: evs event_of_row_def)
  show "distinct (map ev_ID evs)"
    and "set (map ev_ID evs) = set (map ob_id (candidates (sv_locked s) (sv_now s) (nat (sint limit)) (sv_db s)))"
    unfolding m using claim_stmt_ids(1,2) [OF st assms(2)] by blast+
  have "length evs \<le> nat (sint limit)"
    using claim_stmt_ids(3) [OF st assms(2)] by (simp add: evs candidates_def)
  then show "int (length evs) \<le> sint limit"
    using claim_stmt_Inr [OF st] by linarith
qed

lemma Claim_each:
  assumes "Claim P owner limit lease s = (Inr evs, s')" and "db_ok (sv_db s)" and "ev \<in> set evs"
  shows "\<exists>r. row_of (sv_db s) (ev_ID ev) = Some r \<and> claimable (sv_now s) r
    \<and> ev_ID ev \<notin> set (sv_locked s)
    \<and> row_of (sv_db s') (ev_ID ev) = Some (claim_row owner (claim_until (sv_now s) lease) r)
    \<and> ev = event_of_row (claim_row owner (claim_until (sv_now s) lease) r)
    \<and> (\<forall>q \<in> set (outbox_events (sv_db s)). claimable (sv_now s) q \<and> ob_id q \<notin> set (sv_locked s)
         \<and> ob_id q \<notin> set (map ev_ID evs) \<longrightarrow> ob_created_at r \<le> ob_created_at q)"
proof -
  let ?chosen = "candidates (sv_locked s) (sv_now s) (nat (sint limit)) (sv_db s)"
  obtain r where r: "row_of (sv_db s) (ev_ID ev) = Some r" "r \<in> set ?chosen"
    "row_of (sv_db s') (ev_ID ev) = Some (claim_row owner (claim_until (sv_now s) lease) r)"
    "ev = event_of_row (claim_row owner (claim_until (sv_now s) lease) r)"
    using Claim_event [OF assms] by blast
  have "q \<notin> set ?chosen" if "ob_id q \<notin> set (map ev_ID evs)" for q
    using that unfolding Claim_size(3) [OF assms(1,2)] by auto
  then have old: "\<forall>q \<in> set (outbox_events (sv_db s)). claimable (sv_now s) q \<and> ob_id q \<notin> set (sv_locked s)
      \<and> ob_id q \<notin> set (map ev_ID evs) \<longrightarrow> ob_created_at r \<le> ob_created_at q"
    using candidates_oldest [OF r(2)] by blast
  moreover have "ev_ID ev \<notin> set (sv_locked s)"
    using row_of_Some [OF r(1)] candidates_mem [OF r(2)] by metis
  ultimately show ?thesis
    using r candidates_mem [OF r(2)] by (intro exI [of _ r] conjI) blast+
qed

lemma Claim_rest:
  assumes "Claim P owner limit lease s = (Inr evs, s')" and "db_ok (sv_db s)" and "i \<notin> set (map ev_ID evs)"
  shows "row_of (sv_db s') i = row_of (sv_db s) i"
proof -
  obtain rows where st: "claim_stmt P (sv_locked s) (sv_now s) owner limit (quot64 lease millisecond) (sv_db s)
      = Inr (rows, sv_db s')"
    using Claim_Inr [OF assms(1,2)] .
  have "r \<notin> set (candidates (sv_locked s) (sv_now s) (nat (sint limit)) (sv_db s))" if "ob_id r = i" for r
    using that assms(3) unfolding Claim_size(3) [OF assms(1,2)] by auto
  then show ?thesis
    using claim_stmt_rows(1) [OF st assms(2), of i]
    by (cases "row_of (sv_db s) i") (auto dest!: row_of_Some)
qed

lemma Claim_all:
  assumes "Claim P owner limit lease s = (Inr evs, s')" and "db_ok (sv_db s)"
    and "int (length evs) < sint limit" and "q \<in> set (outbox_events (sv_db s))"
    and "claimable (sv_now s) q" and "ob_id q \<notin> set (sv_locked s)"
  shows "ob_id q \<in> set (map ev_ID evs)"
proof -
  obtain rows where st: "claim_stmt P (sv_locked s) (sv_now s) owner limit (quot64 lease millisecond) (sv_db s)
      = Inr (rows, sv_db s')" and evs: "evs = map event_of_row rows"
    using Claim_Inr [OF assms(1,2)] .
  have "length (candidates (sv_locked s) (sv_now s) (nat (sint limit)) (sv_db s)) < nat (sint limit)"
    using claim_stmt_ids(3) [OF st assms(2)] assms(3) by (simp add: evs)
  then show ?thesis
    unfolding Claim_size(3) [OF assms(1,2)] using candidates_all assms(4-6) by auto
qed

section \<open>Properties\<close>

definition sample_row :: "uuid \<Rightarrow> time \<Rightarrow> outbox_row" where
  "sample_row i created = fresh_outbox_row sample_pg 1000000 i 1 ''OrderCreated'' ''envelope'' created"

definition outbox_db :: db where
  "outbox_db = empty_db\<lparr>outbox_events := [sample_row 11 3000000, sample_row 12 2000000]\<rparr>"

definition sample_lease :: duration where
  "sample_lease = minute"

lemma outbox_db_ok: "db_ok outbox_db"
  by (simp add: outbox_db_def db_ok_def sample_row_def fresh_outbox_row_def outbox_row_ok_def)

lemma sample_locked [simp]: "sv_locked (sample_host d plan) = []"
  by (simp add: sample_host_def)

abbreviation sample_claim :: "outbox_event list result \<times> host" where
  "sample_claim \<equiv> Claim sample_pg ''a'' 1 sample_lease (sample_host outbox_db [])"

definition claimed_row :: outbox_row where
  "claimed_row = claim_row ''a'' 60005000000 (sample_row 12 2000000)"

lemma sample_claim_stmt: "claim_stmt sample_pg [] 5000000 ''a'' 1 60000 outbox_db
    = Inr ([claimed_row], outbox_db\<lparr>outbox_events := [sample_row 11 3000000, claimed_row]\<rparr>)"
  by (simp add: claim_stmt_def candidates_def update_outbox_def outbox_db_def text_ok_def valid_utf8_ascii
      sample_row_def fresh_outbox_row_def claimable_def outbox_row_ok_def claim_row_def claimed_row_def Let_def)

lemma sample_lease_ms: "quot64 sample_lease millisecond = 60000"
  by (simp add: quot64_def sample_lease_def minute_def second_def millisecond_def signed_divide_int_def)

lemma sample_claim_run: "sample_claim = (Inr [event_of_row claimed_row],
    sample_host (outbox_db\<lparr>outbox_events := [sample_row 11 3000000, claimed_row]\<rparr>) [])"
  by (simp add: Claim_def query_def next_reply_def sample_lease_ms sample_claim_stmt)
     (simp add: sample_host_def)

lemma sample_claim_row: "row_of (sv_db (snd sample_claim)) 12 = Some claimed_row"
  by (simp add: sample_claim_run row_of_def)
     (simp add: claimed_row_def sample_row_def fresh_outbox_row_def)

text \<open>
  C18. A claim that succeeds returns at most \<open>limit\<close> events, each once; every one of them was due, not
  under a live lease and not locked by another transaction, and is now PROCESSING under the caller's
  lease with its attempt counted; every other row is untouched; and no row left behind is older than one
  taken, unless nothing eligible was left behind at all.
\<close>
theorem Claim_leases_the_oldest_due:
  assumes "Claim P owner limit lease s = (Inr evs, s')" and "db_ok (sv_db s)"
  shows "db_ok (sv_db s') \<and> distinct (map ev_ID evs) \<and> int (length evs) \<le> sint limit
    \<and> (\<forall>ev \<in> set evs. \<exists>r. row_of (sv_db s) (ev_ID ev) = Some r \<and> claimable (sv_now s) r
         \<and> ev_ID ev \<notin> set (sv_locked s)
         \<and> row_of (sv_db s') (ev_ID ev) = Some (claim_row owner (claim_until (sv_now s) lease) r)
         \<and> ev = event_of_row (claim_row owner (claim_until (sv_now s) lease) r)
         \<and> (\<forall>q \<in> set (outbox_events (sv_db s)). claimable (sv_now s) q \<and> ob_id q \<notin> set (sv_locked s)
              \<and> ob_id q \<notin> set (map ev_ID evs) \<longrightarrow> ob_created_at r \<le> ob_created_at q))
    \<and> (\<forall>i. i \<notin> set (map ev_ID evs) \<longrightarrow> row_of (sv_db s') i = row_of (sv_db s) i)
    \<and> (int (length evs) < sint limit \<longrightarrow> (\<forall>q \<in> set (outbox_events (sv_db s)).
         claimable (sv_now s) q \<and> ob_id q \<notin> set (sv_locked s) \<longrightarrow> ob_id q \<in> set (map ev_ID evs)))"
  using Claim_keeps [OF assms] Claim_size(1,2) [OF assms] Claim_each [OF assms] Claim_rest [OF assms]
    Claim_all [OF assms]
  by (intro conjI ballI allI impI) blast+

theorem Claim_leases_the_oldest_due_witness:
  "row_of (sv_db (snd sample_claim)) 12 = Some claimed_row
   \<and> row_of (sv_db (snd sample_claim)) 11 = row_of outbox_db 11"
proof -
  have run: "sample_claim = (Inr [event_of_row claimed_row], snd sample_claim)"
    by (simp add: sample_claim_run)
  have ev: "ev_ID (event_of_row claimed_row) = 12"
    by (simp add: event_of_row_def claimed_row_def sample_row_def fresh_outbox_row_def)
  have "row_of (sv_db (snd sample_claim)) 11 = row_of outbox_db 11"
    using Claim_leases_the_oldest_due [OF run] by (simp add: outbox_db_ok ev)
  then show ?thesis using sample_claim_row by blast
qed

text \<open>
  C5. Leases are exclusive: an event a publisher claimed stays exactly as claimed, whatever any other
  publisher claims, publishes, releases or rejects and whatever is inserted, until its owner gives it
  back or the lease ends; and no claim made in that time, by anyone, returns it again.
\<close>
theorem leases_are_exclusive:
  assumes "Claim P owner limit lease s = (Inr evs, s1)" and "db_ok (sv_db s)" and "ev \<in> set evs"
    and "\<forall>op \<in> set ops. \<not> gives_back (ev_ID ev) owner op"
    and "sv_now (run_ops P ops s1) \<le> claim_until (sv_now s) lease"
  shows "row_of (sv_db (run_ops P ops s1)) (ev_ID ev) = row_of (sv_db s1) (ev_ID ev)
    \<and> (Claim P owner' limit' lease' (run_ops P ops s1) = (Inr evs', s2) \<longrightarrow> ev_ID ev \<notin> set (map ev_ID evs'))"
proof -
  let ?u = "claim_until (sv_now s) lease"
  obtain r where "row_of (sv_db s1) (ev_ID ev) = Some (claim_row owner ?u r)"
    using Claim_each [OF assms(1-3)] by blast
  then obtain q where q: "row_of (sv_db s1) (ev_ID ev) = Some q" "ob_locked_by q = Some owner"
      "ob_locked_until q = Some ?u" "ob_id q = ev_ID ev"
    by (auto simp: claim_row_def dest: row_of_Some)
  have ok: "db_ok (sv_db s1)" using Claim_keeps [OF assms(1,2)] .
  have kept: "row_of (sv_db (run_ops P ops s1)) (ev_ID ev) = Some q"
  proof (rule run_ops_fixed [OF ok q(1)])
    fix op now r' assume "op \<in> set ops" "now \<le> sv_now (run_ops P ops s1)" "row_step P now op q r'"
    then show "r' = q"
      using assms(4,5) q by (intro row_step_leased [of P now op q r' owner ?u]) auto
  qed
  moreover have "ev_ID ev \<notin> set (map ev_ID evs')" if "Claim P owner' limit' lease' (run_ops P ops s1) = (Inr evs', s2)"
  proof
    assume "ev_ID ev \<in> set (map ev_ID evs')"
    then obtain ev' where "ev' \<in> set evs'" "ev_ID ev' = ev_ID ev" by auto
    then have "claimable (sv_now (run_ops P ops s1)) q"
      using Claim_each [OF that run_ops_keeps [OF ok]] kept by (metis option.inject)
    then show False using assms(5) q(3) by (simp add: claimable_def)
  qed
  ultimately show ?thesis using q(1) by simp
qed

theorem leases_are_exclusive_witness:
  "row_of (sv_db (run_ops sample_pg [OpClaim ''b'' 5 sample_lease, OpPublished 12 ''b'', OpClock 60000000000]
     (snd sample_claim))) 12 = Some claimed_row"
proof -
  have run: "sample_claim = (Inr [event_of_row claimed_row], snd sample_claim)"
    by (simp add: sample_claim_run)
  have ev: "ev_ID (event_of_row claimed_row) = 12"
    by (simp add: event_of_row_def claimed_row_def sample_row_def fresh_outbox_row_def)
  have now: "sv_now (run_ops sample_pg [OpClaim ''b'' 5 sample_lease, OpPublished 12 ''b'', OpClock 60000000000]
     (snd sample_claim)) = 60000000000"
    by (simp add: run_ops_def run_op_def Claim_now exec_owned_now MarkPublished_def sample_claim_run)
  show ?thesis
    using leases_are_exclusive [OF run, where ops = "[OpClaim ''b'' 5 sample_lease, OpPublished 12 ''b'', OpClock 60000000000]"]
      sample_claim_row
    by (simp add: outbox_db_ok ev now gives_back_def claim_until_def sample_lease_ms)
qed

text \<open>The history of the whole table: the schema, the link between lease and status, and what never changes.\<close>

definition outbox_ok :: "db \<Rightarrow> bool" where
  "outbox_ok d \<longleftrightarrow> db_ok d \<and> (\<forall>r \<in> set (outbox_events d). lease_ok r)"

definition evolves :: "outbox_row \<Rightarrow> outbox_row \<Rightarrow> bool" where
  "evolves r r' \<longleftrightarrow> ob_id r' = ob_id r \<and> ob_aggregate_id r' = ob_aggregate_id r
     \<and> ob_event_type r' = ob_event_type r \<and> ob_payload r' = ob_payload r
     \<and> ob_created_at r' = ob_created_at r \<and> ob_attempts r \<le> ob_attempts r'
     \<and> (ob_status r \<in> {OB_PUBLISHED, OB_FAILED} \<longrightarrow> r' = r)"

lemma row_step_evolves: "row_step P now op r r' \<Longrightarrow> lease_ok r \<Longrightarrow> evolves r r'"
  using row_step_terminal [of P now op r r']
  by (auto simp: evolves_def claim_row_def published_row_def released_row_def failed_row_def
      elim!: row_step_elim)

lemma evolves_trans: "evolves r q \<Longrightarrow> evolves q p \<Longrightarrow> evolves r p"
  by (auto simp: evolves_def)

lemma outbox_ok_row: "outbox_ok d \<Longrightarrow> row_of d i = Some r \<Longrightarrow> lease_ok r"
  by (auto simp: outbox_ok_def dest: row_of_Some)

lemma row_of_None: "row_of d i = None \<longleftrightarrow> i \<notin> set (map ob_id (outbox_events d))"
  by (auto simp: row_of_def find_None_iff)

lemma update_outbox_ids:
  "update_outbox P cond upd d = Inr (n, d') \<Longrightarrow> (\<And>r. ob_id (upd r) = ob_id r) \<Longrightarrow>
     map ob_id (outbox_events d') = map ob_id (outbox_events d)"
  by (auto simp: update_outbox_Inr)

lemma owned_op_ids:
  assumes "updates_owned P j owner upd stmt"
  shows "map ob_id (outbox_events (sv_db (snd (exec_owned what stmt s)))) = map ob_id (outbox_events (sv_db s))"
proof -
  have "map ob_id (outbox_events d') = map ob_id (outbox_events d)" if "stmt d = Inr (n, d')" for n d d'
    using assms that update_outbox_ids [of P "owned j owner" upd d n d'] unfolding updates_owned_def by blast
  then show ?thesis
    by (cases rule: exec_owned_cases [OF prod.collapse [symmetric], where what = what and stmt = stmt and s = s]) auto
qed

lemma claim_ids:
  "map ob_id (outbox_events (sv_db (snd (Claim P owner limit lease s)))) = map ob_id (outbox_events (sv_db s))"
proof -
  obtain res s' where c: "Claim P owner limit lease s = (res, s')" by fastforce
  from c show ?thesis
  proof (cases rule: Claim_db)
    case (claimed rows)
    then show ?thesis
      using update_outbox_ids [OF conjunct1 [OF claim_stmt_Inr [OF claimed(1)]]] c by simp
  qed (use c in simp)
qed

text \<open>Only an insert brings new ids.\<close>

lemma run_op_ids:
  assumes "\<And>eid agg ty payload created. op \<noteq> OpInsert eid agg ty payload created"
  shows "map ob_id (outbox_events (sv_db (run_op P op s))) = map ob_id (outbox_events (sv_db s))"
proof (cases op)
  case (OpPublished j owner)
  show ?thesis unfolding OpPublished run_op_def MarkPublished_def outbox_op.case
    by (rule owned_op_ids [OF updates_owned_intros(1)])
next
  case (OpRelease j owner m t)
  show ?thesis unfolding OpRelease run_op_def Release_def outbox_op.case
    by (rule owned_op_ids [OF updates_owned_intros(2)])
next
  case (OpFailed j owner m)
  show ?thesis unfolding OpFailed run_op_def MarkFailed_def outbox_op.case
    by (rule owned_op_ids [OF updates_owned_intros(3)])
qed (use assms in \<open>auto simp: run_op_def claim_ids\<close>)

lemma insert_outbox_new:
  "insert_outbox P now eid agg ty payload created d = Inr (u, d') \<Longrightarrow> r \<in> set (outbox_events d') \<Longrightarrow>
     r \<in> set (outbox_events d) \<or> lease_ok r"
  by (auto simp: insert_outbox_def lease_ok_def fresh_outbox_row_def split: option.splits if_splits)

text \<open>A row that was not there before came from an insert, PENDING and without a lease.\<close>

lemma run_op_new:
  assumes "r' \<in> set (outbox_events (sv_db (run_op P op s)))"
    and "ob_id r' \<notin> set (map ob_id (outbox_events (sv_db s)))"
  shows "lease_ok r'"
proof (cases "\<exists>eid agg ty payload created. op = OpInsert eid agg ty payload created")
  case True
  then obtain eid agg ty payload created where op: "op = OpInsert eid agg ty payload created" by blast
  have "r' \<in> set (outbox_events (sv_db s)) \<or> lease_ok r'"
    using assms(1)
    by (cases rule: query_cases [OF prod.collapse [symmetric],
          of "insert_outbox P (sv_now s) eid agg ty payload created" s])
       (auto simp: run_op_def op dest: insert_outbox_new)
  then show ?thesis using assms(2) by auto
next
  case False
  then have "map ob_id (outbox_events (sv_db (run_op P op s))) = map ob_id (outbox_events (sv_db s))"
    by (intro run_op_ids) blast
  moreover have "ob_id r' \<in> set (map ob_id (outbox_events (sv_db (run_op P op s))))"
    using assms(1) by simp
  ultimately show ?thesis using assms(2) by metis
qed

lemma run_op_outbox_ok:
  assumes "outbox_ok (sv_db s)"
  shows "outbox_ok (sv_db (run_op P op s))"
proof -
  have ok: "db_ok (sv_db s)" using assms by (simp add: outbox_ok_def)
  have "lease_ok r'" if r': "r' \<in> set (outbox_events (sv_db (run_op P op s)))" for r'
  proof (cases "row_of (sv_db s) (ob_id r')")
    case None
    then show ?thesis using run_op_new [OF r'] by (simp add: row_of_None)
  next
    case (Some r)
    then obtain q where "row_of (sv_db (run_op P op s)) (ob_id r') = Some q" "row_step P (sv_now s) op r q"
      using run_op_refines [OF ok] by blast
    then show ?thesis
      using row_of_mem [OF run_op_keeps [OF ok] r'] outbox_ok_row [OF assms Some]
      by (auto dest: row_step_lease_ok)
  qed
  then show ?thesis using run_op_keeps [OF ok] by (simp add: outbox_ok_def)
qed

text \<open>
  C17. The life of an event, over any run of operations by any publishers with any failures: the schema
  holds and a row is PROCESSING exactly while it is leased; no row disappears, its id, aggregate, type,
  payload and creation time never change, its attempts never decrease, and once it is PUBLISHED or
  FAILED it never changes again.
\<close>
theorem outbox_history:
  assumes "outbox_ok (sv_db s)"
  shows "outbox_ok (sv_db (run_ops P ops s))
    \<and> (row_of (sv_db s) i = Some r \<longrightarrow> (\<exists>r'. row_of (sv_db (run_ops P ops s)) i = Some r' \<and> evolves r r'))"
  using assms
proof (induction ops arbitrary: s r)
  case Nil
  then show ?case by (auto simp: run_ops_def evolves_def)
next
  case (Cons op ops)
  have run: "run_ops P (op # ops) s = run_ops P ops (run_op P op s)"
    by (simp add: run_ops_def)
  note ok = run_op_outbox_ok [OF Cons.prems, of P op]
  have "\<exists>r'. row_of (sv_db (run_ops P (op # ops) s)) i = Some r' \<and> evolves r r'"
    if row: "row_of (sv_db s) i = Some r"
  proof -
    obtain q where q: "row_of (sv_db (run_op P op s)) i = Some q" "row_step P (sv_now s) op r q"
      using run_op_refines [OF _ row, where P = P and op = op] Cons.prems unfolding outbox_ok_def by blast
    then have "evolves r q"
      using row_step_evolves outbox_ok_row [OF Cons.prems row] by blast
    then show ?thesis
      unfolding run using Cons.IH [OF ok, of q] q(1) evolves_trans by blast
  qed
  then show ?case unfolding run using Cons.IH [OF ok] by blast
qed

theorem outbox_history_witness:
  "\<exists>r'. row_of (sv_db (run_ops sample_pg [OpClaim ''a'' 1 sample_lease, OpPublished 12 ''a'', OpClaim ''b'' 9 sample_lease]
      (sample_host outbox_db [Done, Done, Lost ctx_canceled]))) 12 = Some r' \<and> evolves (sample_row 12 2000000) r'"
proof -
  have "outbox_ok (sv_db (sample_host outbox_db [Done, Done, Lost ctx_canceled]))"
    using outbox_db_ok by (simp add: outbox_ok_def)
      (simp add: outbox_db_def lease_ok_def sample_row_def fresh_outbox_row_def)
  moreover have "row_of (sv_db (sample_host outbox_db [Done, Done, Lost ctx_canceled])) 12 = Some (sample_row 12 2000000)"
    by (simp add: row_of_def outbox_db_def) (simp add: sample_row_def fresh_outbox_row_def)
  ultimately show ?thesis using outbox_history by blast
qed

text \<open>
  A lease is the only right to change an event: \<open>MarkPublished\<close> succeeds only on a row its caller
  still holds, which it makes PUBLISHED as of now and unlocks, touching no other row; when the row is
  gone or has passed to another owner, it reports an error and changes nothing.
\<close>
theorem MarkPublished_needs_the_lease:
  assumes "MarkPublished P i owner s = (res, s')" and "db_ok (sv_db s)"
  shows "(res = None \<longrightarrow> (\<exists>r. row_of (sv_db s) i = Some r \<and> owned i owner r
            \<and> row_of (sv_db s') i = Some (published_row (sv_now s) r)))
    \<and> ((\<nexists>r. row_of (sv_db s) i = Some r \<and> owned i owner r) \<longrightarrow> res \<noteq> None \<and> sv_db s' = sv_db s)
    \<and> (j \<noteq> i \<longrightarrow> row_of (sv_db s') j = row_of (sv_db s) j)"
proof -
  note upd = updates_owned_intros(1) [of P i owner "sv_now s" "pg_error P (InvalidText ''outbox_events'')"]
  show ?thesis
    using exec_owned_spec(2) [OF assms(1) [unfolded MarkPublished_def] upd assms(2)] row_of_other [OF upd, of "sv_db s" _ "sv_db s'" j]
    by (elim disjE exE conjE) (simp_all del: not_None_eq)
qed

theorem MarkPublished_needs_the_lease_witness:
  "fst (MarkPublished sample_pg 12 ''b'' (snd sample_claim)) \<noteq> None
   \<and> sv_db (snd (MarkPublished sample_pg 12 ''b'' (snd sample_claim))) = sv_db (snd sample_claim)"
proof -
  have ok: "db_ok (sv_db (snd sample_claim))"
    by (rule Claim_keeps [OF prod.collapse [symmetric]]) (simp add: outbox_db_ok)
  have "\<nexists>r. row_of (sv_db (snd sample_claim)) 12 = Some r \<and> owned 12 ''b'' r"
    by (simp add: sample_claim_row) (simp add: owned_def claimed_row_def claim_row_def)
  then show ?thesis
    using MarkPublished_needs_the_lease [OF prod.collapse [symmetric] ok, of sample_pg 12 "''b''"] by blast
qed

end
