(* ===== verification/Go_Prog.thy ===== *)
theory Go_Prog
  imports Go_Prelude
begin

text \<open>
  Goroutines. Code that may run beside other code is a program of steps: each step is one interaction
  with the world (a statement, a produced record, a clock reading, a metric), between steps any other
  goroutine may move. The programs are well-founded, so a goroutine modelled this way always ends; code
  that blocks does so inside one step. \<open>run\<close> executes a program without interruption.
\<close>

section \<open>Programs\<close>

datatype ('w, 'a) prog = Ret 'a | Step "'w \<Rightarrow> ('w, 'a) prog \<times> 'w"

primrec run :: "('w, 'a) prog \<Rightarrow> 'w \<Rightarrow> 'a \<times> 'w" where
  "run (Ret a) = (\<lambda>w. (a, w))"
| "run (Step f) = (\<lambda>w. case map_prod run id (f w) of (g, w') \<Rightarrow> g w')"

text \<open>\<open>call\<close> makes an operation one step and continues with its answer; \<open>act\<close> is for effects alone.\<close>

definition call :: "('w \<Rightarrow> 'b \<times> 'w) \<Rightarrow> ('b \<Rightarrow> ('w, 'a) prog) \<Rightarrow> ('w, 'a) prog" where
  "call g k = Step (\<lambda>w. case g w of (b, w') \<Rightarrow> (k b, w'))"

definition act :: "('w \<Rightarrow> 'w) \<Rightarrow> ('w, 'a) prog \<Rightarrow> ('w, 'a) prog" where
  "act f p = Step (\<lambda>w. (p, f w))"

primrec bind :: "('w, 'b) prog \<Rightarrow> ('b \<Rightarrow> ('w, 'a) prog) \<Rightarrow> ('w, 'a) prog" where
  "bind (Ret b) = (\<lambda>k. k b)"
| "bind (Step f) = (\<lambda>k. Step (\<lambda>w. map_prod (\<lambda>g. g k) id (map_prod bind id (f w))))"

text \<open>
  What a goroutine does beside others. \<open>G\<close> is the relation every step of every goroutine keeps. The
  program has last seen the world \<open>w\<^sub>0\<close>; by the time it moves, the others may have taken it to any \<open>w\<close>
  with \<open>G w\<^sub>0 w\<close>; its own step must then be a \<open>G\<close> step, and so on with what is left of it; and what it
  returns must satisfy \<open>Q\<close> whatever the others do after its last step.
\<close>

primrec prog_meets :: "('w, 'a) prog \<Rightarrow> ('w \<Rightarrow> 'w \<Rightarrow> bool) \<Rightarrow> ('a \<Rightarrow> 'w \<Rightarrow> bool) \<Rightarrow> 'w \<Rightarrow> bool" where
  "prog_meets (Ret a) = (\<lambda>G Q w0. \<forall>w. G w0 w \<longrightarrow> Q a w)"
| "prog_meets (Step f) = (\<lambda>G Q w0. \<forall>w. G w0 w \<longrightarrow>
     (case map_prod prog_meets id (f w) of (g, w') \<Rightarrow> G w w' \<and> g G Q w'))"

definition prog_goes :: "('w, 'a) prog \<Rightarrow> ('w \<Rightarrow> 'w \<Rightarrow> bool) \<Rightarrow> 'w \<Rightarrow> bool" where
  "prog_goes p G w0 \<longleftrightarrow> prog_meets p G (\<lambda>a w. True) w0"

text \<open>The programs one step later: a well-founded relation.\<close>

definition prog_next :: "(('w, 'a) prog \<times> ('w, 'a) prog) set" where
  "prog_next = {(fst (f w), Step f) | f w. True}"

section \<open>Lemmas\<close>

lemma run_Step: "run (Step f) w = (case f w of (p, w') \<Rightarrow> run p w')"
  by (simp split: prod.split)

lemma run_call [simp]: "run (call g k) w = (case g w of (b, w') \<Rightarrow> run (k b) w')"
  by (simp add: call_def split: prod.split)

lemma run_act [simp]: "run (act f p) w = run p (f w)"
  by (simp add: act_def)

lemma bind_call [simp]: "bind (call g k) h = call g (\<lambda>b. bind (k b) h)"
  by (auto simp: call_def fun_eq_iff split: prod.split)

lemma bind_act [simp]: "bind (act f p) h = act f (bind p h)"
  by (simp add: act_def)

lemma prog_step_induct [case_names Ret Step]:
  assumes "\<And>a. P (Ret a)" and "\<And>f. (\<And>w. P (fst (f w))) \<Longrightarrow> P (Step f)"
  shows "P p"
proof (induction p)
  case (Step f)
  have "P (fst (f w))" for w
    by (rule Step [of "f w"]) (auto intro: fsts.intros)
  then show ?case by (rule assms(2))
qed (rule assms(1))

lemma run_bind: "run (bind p k) w = (case run p w of (b, w') \<Rightarrow> run (k b) w')"
proof (induction p arbitrary: w rule: prog_step_induct)
  case (Step f)
  then show ?case using Step [of w "snd (f w)"] by (cases "f w") simp
qed simp

lemma bind_Step: "bind (Step f) k = Step (\<lambda>w. (bind (fst (f w)) k, snd (f w)))"
  by (auto simp: fun_eq_iff case_prod_unfold map_prod_def)

lemma prog_meets_Step: "prog_meets (Step f) G Q w0 \<longleftrightarrow>
    (\<forall>w. G w0 w \<longrightarrow> G w (snd (f w)) \<and> prog_meets (fst (f w)) G Q (snd (f w)))"
  by (auto simp: case_prod_unfold)

declare prog_meets.simps(2) [simp del]

lemma prog_meets_call:
  "prog_meets (call g k) G Q w0 \<longleftrightarrow>
     (\<forall>w. G w0 w \<longrightarrow> G w (snd (g w)) \<and> prog_meets (k (fst (g w))) G Q (snd (g w)))"
  unfolding call_def prog_meets_Step by (simp add: case_prod_unfold)

lemma prog_meets_act:
  "prog_meets (act f p) G Q w0 \<longleftrightarrow> (\<forall>w. G w0 w \<longrightarrow> G w (f w) \<and> prog_meets p G Q (f w))"
  unfolding act_def prog_meets_Step by simp

text \<open>What the others do in between changes nothing; a run alone is a \<open>G\<close> step.\<close>

lemma prog_meets_mono:
  "prog_meets p G Q w0 \<Longrightarrow> G w0 w1 \<Longrightarrow> transp G \<Longrightarrow> prog_meets p G Q w1"
  by (cases p) (auto simp: prog_meets_Step dest: transpD)

lemma prog_meets_weaken: "prog_meets p G Q w0 \<Longrightarrow> (\<And>a w. Q a w \<Longrightarrow> Q' a w) \<Longrightarrow> prog_meets p G Q' w0"
  by (induction p arbitrary: w0 rule: prog_step_induct) (auto simp: prog_meets_Step)

lemma prog_meets_run:
  "prog_meets p G Q w0 \<Longrightarrow> G w0 w \<Longrightarrow> reflp G \<Longrightarrow> transp G \<Longrightarrow>
     G w (snd (run p w)) \<and> Q (fst (run p w)) (snd (run p w))"
proof (induction p arbitrary: w0 w rule: prog_step_induct)
  case (Step f)
  have "G w (snd (f w))" "prog_meets (fst (f w)) G Q (snd (f w))"
    using Step.prems(1,2) by (simp_all add: prog_meets_Step)
  moreover have "G (snd (f w)) (snd (f w))" using Step.prems(3) by (rule reflpD)
  ultimately have "G (snd (f w)) (snd (run (fst (f w)) (snd (f w))))
      \<and> Q (fst (run (fst (f w)) (snd (f w)))) (snd (run (fst (f w)) (snd (f w))))"
    using Step.IH Step.prems(3,4) by blast
  then show ?case
    using \<open>G w (snd (f w))\<close> Step.prems(4) by (auto simp: run_Step case_prod_unfold dest: transpD)
qed (simp add: reflpD)

lemma prog_goes_Ret [simp]: "prog_goes (Ret a) G w0"
  by (simp add: prog_goes_def)

lemma prog_meets_goes: "prog_meets p G Q w0 \<Longrightarrow> prog_goes p G w0"
  unfolding prog_goes_def by (erule prog_meets_weaken) simp

lemma prog_goes_call:
  "prog_goes (call g k) G w0 \<longleftrightarrow> (\<forall>w. G w0 w \<longrightarrow> G w (snd (g w)) \<and> prog_goes (k (fst (g w))) G (snd (g w)))"
  unfolding prog_goes_def prog_meets_call ..

lemma prog_goes_act:
  "prog_goes (act f p) G w0 \<longleftrightarrow> (\<forall>w. G w0 w \<longrightarrow> G w (f w) \<and> prog_goes p G (f w))"
  unfolding prog_goes_def prog_meets_act ..

lemma prog_goes_mono: "prog_goes p G w0 \<Longrightarrow> G w0 w1 \<Longrightarrow> transp G \<Longrightarrow> prog_goes p G w1"
  unfolding prog_goes_def by (rule prog_meets_mono)

lemma wf_prog_next: "wf (prog_next :: (('w, 'a) prog \<times> ('w, 'a) prog) set)"
proof (rule wfUNIVI)
  fix P :: "('w, 'a) prog \<Rightarrow> bool" and p
  assume ind: "\<forall>p. (\<forall>q. (q, p) \<in> prog_next \<longrightarrow> P q) \<longrightarrow> P p"
  show "P p"
  proof (induction p rule: prog_step_induct)
    case (Ret a)
    have "\<forall>q. (q, Ret a) \<in> prog_next \<longrightarrow> P q"
      by (simp add: prog_next_def)
    then show ?case by (rule mp [OF spec [OF ind, of "Ret a"]])
  next
    case (Step f)
    have "\<forall>q. (q, Step f) \<in> prog_next \<longrightarrow> P q"
      using Step by (auto simp: prog_next_def)
    then show ?case by (rule mp [OF spec [OF ind, of "Step f"]])
  qed
qed

end
