(* ===== verification/Worker_Pool.thy ===== *)
theory Worker_Pool
  imports Go_Prog Host "HOL-Library.Multiset"
begin

text \<open>
  internal/workerpool/pool.go: a batch handed to a bounded number of worker goroutines over an unbuffered
  channel. The pool is a labelled step relation: the sender gives the next job to an idle worker, a
  worker moves its handler by one step or stores its error, the sender closes the channel, an idle
  worker leaves. \<open>Process\<close> runs it under a schedule, which picks among the moves that are possible. The
  lemmas show that the two agree, that no state is stuck, that every run ends, and what is true at the end.
\<close>

section \<open>The pool\<close>

datatype 'w worker = Idle | Running nat "('w, goerr option) prog" | Exited

record ('w, 'a) pool =
  pl_world :: 'w
  pl_queue :: "(nat \<times> 'a) list"
  pl_closed :: bool
  pl_workers :: "'w worker list"
  pl_errs :: "goerr option list"

definition actual_workers :: "int64 \<Rightarrow> nat \<Rightarrow> nat" where
  "actual_workers workers n = nat (min (sint workers) (max 1 (int n)))"

definition pool_init :: "int64 \<Rightarrow> 'a list \<Rightarrow> 'w \<Rightarrow> ('w, 'a) pool" where
  "pool_init workers items w = \<lparr>pl_world = w, pl_queue = List.enumerate 0 items, pl_closed = False,
     pl_workers = replicate (actual_workers workers (length items)) Idle,
     pl_errs = replicate (length items) None\<rparr>"

text \<open>What a worker does with a job: nothing but an error once the context is done, else the handler.\<close>

definition job_body ::
  "'w runtime \<Rightarrow> ctx \<Rightarrow> (ctx \<Rightarrow> 'a \<Rightarrow> ('w, goerr option) prog) \<Rightarrow> 'a \<Rightarrow> ('w, goerr option) prog" where
  "job_body R ctx handler item = call (\<lambda>w. (rt_ctx_err R ctx w, w))
     (\<lambda>e. case e of Some err \<Rightarrow> Ret (Some (wrapf ''worker pool canceled: '' err))
                  | None \<Rightarrow> handler ctx item)"

datatype label = Started nat | Worked nat | Completed nat "goerr option" | Closed | Left nat

inductive pool_step ::
  "('a \<Rightarrow> ('w, goerr option) prog) \<Rightarrow> ('w, 'a) pool \<Rightarrow> label \<Rightarrow> ('w, 'a) pool \<Rightarrow> bool"
  for body where
  dispatch: "pl_queue s = (i, x) # q \<Longrightarrow> k < length (pl_workers s) \<Longrightarrow> pl_workers s ! k = Idle \<Longrightarrow>
    pool_step body s (Started i)
      (s\<lparr>pl_queue := q, pl_workers := (pl_workers s)[k := Running i (body x)]\<rparr>)"
| work: "k < length (pl_workers s) \<Longrightarrow> pl_workers s ! k = Running i (Step f) \<Longrightarrow> f (pl_world s) = (p, w') \<Longrightarrow>
    pool_step body s (Worked i)
      (s\<lparr>pl_world := w', pl_workers := (pl_workers s)[k := Running i p]\<rparr>)"
| complete: "k < length (pl_workers s) \<Longrightarrow> pl_workers s ! k = Running i (Ret e) \<Longrightarrow>
    pool_step body s (Completed i e)
      (s\<lparr>pl_errs := (pl_errs s)[i := e], pl_workers := (pl_workers s)[k := Idle]\<rparr>)"
| close: "pl_queue s = [] \<Longrightarrow> \<not> pl_closed s \<Longrightarrow> pool_step body s Closed (s\<lparr>pl_closed := True\<rparr>)"
| leave: "pl_closed s \<Longrightarrow> k < length (pl_workers s) \<Longrightarrow> pl_workers s ! k = Idle \<Longrightarrow>
    pool_step body s (Left k) (s\<lparr>pl_workers := (pl_workers s)[k := Exited]\<rparr>)"

inductive_cases pool_step_elim: "pool_step body s l s'"

inductive pool_run ::
  "('a \<Rightarrow> ('w, goerr option) prog) \<Rightarrow> ('w, 'a) pool \<Rightarrow> label list \<Rightarrow> ('w, 'a) pool \<Rightarrow> bool"
  for body where
  run_nil: "pool_run body s [] s"
| run_snoc: "pool_run body s ls s' \<Longrightarrow> pool_step body s' l s'' \<Longrightarrow> pool_run body s (ls @ [l]) s''"

definition pool_finished :: "('w, 'a) pool \<Rightarrow> bool" where
  "pool_finished s \<longleftrightarrow> list_all (\<lambda>wk. wk = Exited) (pl_workers s)"

section \<open>A scheduled run\<close>

datatype move = MClose | MWorker nat

definition possible :: "('w, 'a) pool \<Rightarrow> nat \<Rightarrow> bool" where
  "possible s k = (case pl_workers s ! k of
      Idle \<Rightarrow> pl_queue s \<noteq> [] \<or> pl_closed s | Running i p \<Rightarrow> True | Exited \<Rightarrow> False)"

definition moves :: "('w, 'a) pool \<Rightarrow> move list" where
  "moves s = (if pl_queue s = [] \<and> \<not> pl_closed s then [MClose] else [])
     @ map MWorker (filter (possible s) [0..<length (pl_workers s)])"

definition move_worker :: "('a \<Rightarrow> ('w, goerr option) prog) \<Rightarrow> nat \<Rightarrow> ('w, 'a) pool \<Rightarrow> ('w, 'a) pool" where
  "move_worker body k s = (case pl_workers s ! k of
      Idle \<Rightarrow> (case pl_queue s of
          [] \<Rightarrow> s\<lparr>pl_workers := (pl_workers s)[k := Exited]\<rparr>
        | j # q \<Rightarrow> s\<lparr>pl_queue := q, pl_workers := (pl_workers s)[k := Running (fst j) (body (snd j))]\<rparr>)
    | Running i (Ret e) \<Rightarrow> s\<lparr>pl_errs := (pl_errs s)[i := e], pl_workers := (pl_workers s)[k := Idle]\<rparr>
    | Running i (Step f) \<Rightarrow> (case f (pl_world s) of (p, w') \<Rightarrow>
          s\<lparr>pl_world := w', pl_workers := (pl_workers s)[k := Running i p]\<rparr>)
    | Exited \<Rightarrow> s)"

definition fire :: "('a \<Rightarrow> ('w, goerr option) prog) \<Rightarrow> move \<Rightarrow> ('w, 'a) pool \<Rightarrow> ('w, 'a) pool" where
  "fire body m s = (case m of MClose \<Rightarrow> s\<lparr>pl_closed := True\<rparr> | MWorker k \<Rightarrow> move_worker body k s)"

text \<open>Every move lowers a measure: the programs still to run, then jobs unsent, then workers present.\<close>

definition worker_progs :: "'w worker \<Rightarrow> ('w, goerr option) prog multiset" where
  "worker_progs wk = (case wk of Running i p \<Rightarrow> {#p#} | Idle \<Rightarrow> {#} | Exited \<Rightarrow> {#})"

definition pool_progs ::
  "('a \<Rightarrow> ('w, goerr option) prog) \<Rightarrow> ('w, 'a) pool \<Rightarrow> ('w, goerr option) prog multiset" where
  "pool_progs body s = mset (map (\<lambda>j. body (snd j)) (pl_queue s)) + sum_list (map worker_progs (pl_workers s))"

definition pool_rest :: "('w, 'a) pool \<Rightarrow> nat" where
  "pool_rest s = length (pl_queue s) + (if pl_closed s then 0 else 1)
     + length (filter (\<lambda>wk. wk \<noteq> Exited) (pl_workers s))"

definition pool_order ::
  "((('a \<Rightarrow> ('w, goerr option) prog) \<times> ('w, 'a) pool) \<times> (('a \<Rightarrow> ('w, goerr option) prog) \<times> ('w, 'a) pool)) set" where
  "pool_order = inv_image (mult prog_next <*lex*> less_than)
     (\<lambda>(body, s). (pool_progs body s, pool_rest s))"

lemma wf_pool_order: "wf pool_order"
  unfolding pool_order_def by (intro wf_inv_image wf_lex_prod wf_mult wf_prog_next wf_less_than)

lemma mult_remove: "(M, add_mset p M) \<in> mult R"
  using one_step_implies_mult [of "{#p#}" "{#}" R M] by simp

lemma mult_smaller: "(q, p) \<in> R \<Longrightarrow> (add_mset q M, add_mset p M) \<in> mult R"
  using one_step_implies_mult [of "{#p#}" "{#q#}" R M] by simp

lemma split_workers:
  assumes "k < length ws"
  obtains us vs where "ws = us @ ws ! k # vs" "\<And>x. ws[k := x] = us @ x # vs"
  using assms id_take_nth_drop [of k ws] upd_conv_take_nth_drop [of k ws] by metis

lemma pool_step_decreases:
  assumes "pool_step body s l s'"
  shows "((body, s'), (body, s)) \<in> pool_order"
  using assms
proof cases
  case (dispatch i x q k)
  obtain us vs where "pl_workers s = us @ Idle # vs" "(pl_workers s)[k := Running i (body x)] = us @ Running i (body x) # vs"
    using split_workers [OF dispatch(4)] dispatch(5) by metis
  then show ?thesis using dispatch
    by (simp add: pool_order_def pool_progs_def pool_rest_def worker_progs_def)
next
  case (work k i f p w')
  obtain us vs where "pl_workers s = us @ Running i (Step f) # vs" "(pl_workers s)[k := Running i p] = us @ Running i p # vs"
    using split_workers [OF work(3)] work(4) by metis
  moreover have "(p, Step f) \<in> prog_next"
    unfolding prog_next_def using work(5) by (metis (mono_tags, lifting) fst_conv mem_Collect_eq)
  ultimately show ?thesis using work
    by (simp add: pool_order_def pool_progs_def worker_progs_def mult_smaller)
next
  case (complete k i e)
  obtain us vs where "pl_workers s = us @ Running i (Ret e) # vs" "(pl_workers s)[k := Idle] = us @ Idle # vs"
    using split_workers [OF complete(3)] complete(4) by metis
  then show ?thesis using complete
    by (simp add: pool_order_def pool_progs_def worker_progs_def mult_remove)
next
  case close
  then show ?thesis by (simp add: pool_order_def pool_progs_def pool_rest_def)
next
  case (leave k)
  obtain us vs where "pl_workers s = us @ Idle # vs" "(pl_workers s)[k := Exited] = us @ Exited # vs"
    using split_workers [OF leave(4)] leave(5) by metis
  then show ?thesis using leave
    by (simp add: pool_order_def pool_progs_def pool_rest_def worker_progs_def)
qed

text \<open>The moves are exactly the steps.\<close>

lemma fire_step: "m \<in> set (moves s) \<Longrightarrow> \<exists>l. pool_step body s l (fire body m s)"
proof (cases m)
  case MClose
  then show "m \<in> set (moves s) \<Longrightarrow> ?thesis"
    by (auto simp: moves_def fire_def intro: pool_step.close split: if_splits)
next
  case (MWorker k)
  assume "m \<in> set (moves s)"
  with MWorker have k: "k < length (pl_workers s)" "possible s k"
    by (auto simp: moves_def split: if_splits)
  show ?thesis
  proof (cases "pl_workers s ! k")
    case Idle
    show ?thesis
    proof (cases "pl_queue s")
      case Nil
      then show ?thesis using k Idle MWorker pool_step.leave [of s k body]
        by (auto simp: fire_def move_worker_def possible_def)
    next
      case (Cons j q)
      then show ?thesis using k Idle MWorker pool_step.dispatch [of s "fst j" "snd j" q k body]
        by (auto simp: fire_def move_worker_def)
    qed
  next
    case (Running i p)
    show ?thesis
    proof (cases p)
      case (Ret e)
      then show ?thesis using k Running MWorker pool_step.complete [of k s i e body]
        by (auto simp: fire_def move_worker_def)
    next
      case (Step f)
      then show ?thesis
        using k Running MWorker pool_step.work [of k s i f "fst (f (pl_world s))" "snd (f (pl_world s))" body]
        by (cases "f (pl_world s)") (auto simp: fire_def move_worker_def)
    qed
  next
    case Exited
    then show ?thesis using k by (simp add: possible_def)
  qed
qed

function pool_loop ::
  "(nat \<Rightarrow> nat) \<Rightarrow> nat \<Rightarrow> ('a \<Rightarrow> ('w, goerr option) prog) \<Rightarrow> ('w, 'a) pool \<Rightarrow> ('w, 'a) pool" where
  "pool_loop sched t body s =
     (let ms = moves s
      in if ms = [] then s
         else pool_loop sched (Suc t) body (fire body (ms ! (sched t mod length ms)) s))"
  by pat_completeness auto
termination
proof (relation "inv_image pool_order (\<lambda>(sched, t, body, s). (body, s))")
  show "wf (inv_image pool_order (\<lambda>(sched :: nat \<Rightarrow> nat, t :: nat, body, s). (body, s)))"
    by (intro wf_inv_image wf_pool_order)
next
  fix sched :: "nat \<Rightarrow> nat" and t and body :: "'a \<Rightarrow> ('w, goerr option) prog" and s :: "('w, 'a) pool" and ms
  assume ms: "ms = moves s" "ms \<noteq> []"
  then have "ms ! (sched t mod length ms) \<in> set (moves s)"
    by (metis mod_less_divisor length_greater_0_conv nth_mem)
  then obtain l where "pool_step body s l (fire body (ms ! (sched t mod length ms)) s)"
    using fire_step by blast
  then show "((sched, Suc t, body, fire body (ms ! (sched t mod length ms)) s), (sched, t, body, s))
      \<in> inv_image pool_order (\<lambda>(sched, t, body, s). (body, s))"
    using pool_step_decreases by simp
qed

declare pool_loop.simps [simp del]

text \<open>
  \<open>Process\<close> under a schedule: \<open>None\<close> is the panic on a worker count below one, otherwise the error of
  each item and the world afterwards.
\<close>

definition Process ::
  "(nat \<Rightarrow> nat) \<Rightarrow> 'w runtime \<Rightarrow> ctx \<Rightarrow> int64 \<Rightarrow> 'a list \<Rightarrow> (ctx \<Rightarrow> 'a \<Rightarrow> ('w, goerr option) prog) \<Rightarrow>
     'w \<Rightarrow> (goerr option list \<times> 'w) option" where
  "Process sched R ctx workers items handler w =
     (if sint workers < 1 then None
      else let s = pool_loop sched 0 (job_body R ctx handler) (pool_init workers items w)
           in Some (pl_errs s, pl_world s))"

section \<open>The history of a run\<close>

definition started :: "label list \<Rightarrow> nat list" where
  "started ls = concat (map (\<lambda>l. case l of Started i \<Rightarrow> [i] | Worked i \<Rightarrow> [] | Completed i e \<Rightarrow> []
     | Closed \<Rightarrow> [] | Left k \<Rightarrow> []) ls)"

definition completed :: "label list \<Rightarrow> (nat \<times> goerr option) list" where
  "completed ls = concat (map (\<lambda>l. case l of Completed i e \<Rightarrow> [(i, e)] | Started i \<Rightarrow> [] | Worked i \<Rightarrow> []
     | Closed \<Rightarrow> [] | Left k \<Rightarrow> []) ls)"

definition running :: "'w worker \<Rightarrow> (nat \<times> ('w, goerr option) prog) list" where
  "running wk = (case wk of Running i p \<Rightarrow> [(i, p)] | Idle \<Rightarrow> [] | Exited \<Rightarrow> [])"

definition pool_running :: "('w, 'a) pool \<Rightarrow> (nat \<times> ('w, goerr option) prog) list" where
  "pool_running s = concat (map running (pl_workers s))"

text \<open>\<open>q\<close> is what is left of \<open>p\<close> after some of its steps.\<close>

definition rest_of :: "('w, 'a) prog \<Rightarrow> ('w, 'a) prog \<Rightarrow> bool" where
  "rest_of p q \<longleftrightarrow> (q, p) \<in> prog_next\<^sup>*"

lemma rest_of_refl [simp]: "rest_of p p"
  by (simp add: rest_of_def)

lemma rest_of_step: "rest_of p (Step f) \<Longrightarrow> rest_of p (fst (f w))"
  unfolding rest_of_def by (rule converse_rtrancl_into_rtrancl) (auto simp: prog_next_def)

definition pool_inv ::
  "('a \<Rightarrow> ('w, goerr option) prog) \<Rightarrow> 'a list \<Rightarrow> nat \<Rightarrow> label list \<Rightarrow> ('w, 'a) pool \<Rightarrow> bool" where
  "pool_inv body items n ls s \<longleftrightarrow>
     started ls = [0..<length (started ls)] \<and> length (started ls) \<le> length items
     \<and> pl_queue s = drop (length (started ls)) (List.enumerate 0 items)
     \<and> mset (started ls) = mset (map fst (completed ls)) + mset (map fst (pool_running s))
     \<and> length (pl_errs s) = length items
     \<and> (\<forall>(i, e) \<in> set (completed ls). pl_errs s ! i = e \<and> rest_of (body (items ! i)) (Ret e))
     \<and> (\<forall>(i, p) \<in> set (pool_running s). rest_of (body (items ! i)) p)
     \<and> (pl_closed s \<longrightarrow> pl_queue s = []) \<and> (Exited \<in> set (pl_workers s) \<longrightarrow> pl_closed s)
     \<and> length (pl_workers s) = n"

lemma history_snoc [simp]:
  "started (ls @ [l]) = started ls @ (case l of Started i \<Rightarrow> [i] | Worked i \<Rightarrow> [] | Completed i e \<Rightarrow> []
     | Closed \<Rightarrow> [] | Left k \<Rightarrow> [])"
  "completed (ls @ [l]) = completed ls @ (case l of Completed i e \<Rightarrow> [(i, e)] | Started i \<Rightarrow> []
     | Worked i \<Rightarrow> [] | Closed \<Rightarrow> [] | Left k \<Rightarrow> [])"
  by (simp_all add: started_def completed_def)

lemma history_nil [simp]: "started [] = []" "completed [] = []"
  by (simp_all add: started_def completed_def)

lemma running_simps [simp]:
  "running Idle = []" "running (Running i p) = [(i, p)]" "running Exited = []"
  by (simp_all add: running_def)

lemma pool_inv_init: "pool_inv body items (actual_workers workers (length items)) [] (pool_init workers items w)"
  by (auto simp: pool_inv_def pool_init_def pool_running_def)

text \<open>One worker changes; the others stay.\<close>

lemma pool_running_update:
  assumes "k < length (pl_workers s)" and "pl_workers s' = (pl_workers s)[k := x]"
  obtains us vs where "pool_running s = us @ running (pl_workers s ! k) @ vs"
    and "pool_running s' = us @ running x @ vs"
proof -
  obtain us vs where w: "pl_workers s = us @ pl_workers s ! k # vs" "pl_workers s' = us @ x # vs"
    using split_workers [OF assms(1)] assms(2) by metis
  show thesis
  proof (rule that)
    show "pool_running s = concat (map running us) @ running (pl_workers s ! k) @ concat (map running vs)"
      unfolding pool_running_def by (subst w(1)) simp
    show "pool_running s' = concat (map running us) @ running x @ concat (map running vs)"
      by (simp add: pool_running_def w(2))
  qed
qed

lemma exited_update: "Exited \<in> set (ws[k := x]) \<Longrightarrow> x \<noteq> Exited \<Longrightarrow> Exited \<in> set ws"
  using set_update_subset_insert [of ws k x] by blast

lemma pool_inv_step:
  assumes "pool_inv body items n ls s" and "pool_step body s l s'"
  shows "pool_inv body items n (ls @ [l]) s'"
  using assms(2)
proof cases
  case (dispatch i x q k)
  obtain us vs where r: "pool_running s = us @ running (pl_workers s ! k) @ vs"
    "pool_running s' = us @ running (Running i (body x)) @ vs"
    using pool_running_update [OF dispatch(4), of s' "Running i (body x)"] dispatch(1,2) by auto
  let ?m = "length (started ls)"
  have q: "drop ?m (List.enumerate 0 items) = (i, x) # q"
    using assms(1) dispatch(3) by (simp add: pool_inv_def)
  then have m: "?m < length items"
    by (metis drop_all length_enumerate list.distinct(1) not_le_imp_less)
  then have "drop ?m (List.enumerate 0 items) = (?m, items ! ?m) # drop (Suc ?m) (List.enumerate 0 items)"
    by (simp add: Cons_nth_drop_Suc [symmetric] nth_enumerate_eq)
  with q have "i = ?m" "x = items ! ?m" "q = drop (Suc ?m) (List.enumerate 0 items)" by auto
  then show ?thesis
    using assms(1) dispatch m r(1) r(2)
    by (auto simp: pool_inv_def dest: exited_update)
next
  case (work k i f p w')
  obtain us vs where r: "pool_running s = us @ running (pl_workers s ! k) @ vs"
    "pool_running s' = us @ running (Running i p) @ vs"
    using pool_running_update [OF work(3), of s' "Running i p"] work(1,2) by auto
  have "rest_of (body (items ! i)) p"
    using assms(1) work(4,5) r(1) rest_of_step [of "body (items ! i)" f "pl_world s"]
    by (auto simp: pool_inv_def)
  then show ?thesis
    using assms(1) work r(1) r(2)
    by (auto simp: pool_inv_def dest: exited_update)
next
  case (complete k i e)
  obtain us vs where r: "pool_running s = us @ running (pl_workers s ! k) @ vs"
    "pool_running s' = us @ running (Idle) @ vs"
    using pool_running_update [OF complete(3), of s' "Idle"] complete(1,2) by auto
  have ms: "mset (started ls) = mset (map fst (completed ls)) + mset (map fst (pool_running s))"
    and st: "started ls = [0..<length (started ls)]" "length (started ls) \<le> length items"
    using assms(1) by (simp_all add: pool_inv_def)
  have "i \<in># mset (started ls)"
    unfolding ms r(1) using complete(4) by simp
  then have i: "i < length items"
    using st by (metis atLeastLessThan_iff less_le_trans set_mset_mset set_upt)
  have "distinct (started ls)" using st(1) by (metis distinct_upt)
  then have "distinct (map fst (completed ls) @ map fst (pool_running s))"
    using ms by (metis mset_append mset_eq_imp_distinct_iff)
  then have "i \<notin> fst ` set (completed ls)"
    using r(1) complete(4) by auto
  then have "(pl_errs s)[i := e] ! j = pl_errs s ! j" if "(j, e') \<in> set (completed ls)" for j e'
    using that by (cases "i = j") (auto simp: rev_image_eqI)
  then have "\<forall>(j, e') \<in> set (completed ls). (pl_errs s)[i := e] ! j = pl_errs s ! j"
    by blast
  then show ?thesis
    using assms(1) complete i r(1) r(2)
    by (auto simp: pool_inv_def dest: exited_update)
next
  case close
  then show ?thesis using assms(1) by (auto simp: pool_inv_def pool_running_def)
next
  case (leave k)
  obtain us vs where r: "pool_running s = us @ running (pl_workers s ! k) @ vs"
    "pool_running s' = us @ running (Exited) @ vs"
    using pool_running_update [OF leave(4), of s' "Exited"] leave(1,2) by auto
  then show ?thesis
    using assms(1) leave r(2) by (auto simp: pool_inv_def)
qed

lemma pool_run_inv:
  "pool_run body s0 ls s \<Longrightarrow> pool_inv body items n [] s0 \<Longrightarrow> pool_inv body items n ls s"
  by (induction rule: pool_run.induct) (auto intro: pool_inv_step)

lemma pool_run_from_init:
  "pool_run body (pool_init workers items w) ls s \<Longrightarrow>
     pool_inv body items (actual_workers workers (length items)) ls s"
  by (erule pool_run_inv) (rule pool_inv_init)

lemma actual_workers_pos: "0 < sint workers \<Longrightarrow> 0 < actual_workers workers n"
  by (simp add: actual_workers_def)

text \<open>No deadlock: as long as a worker is there, something can move.\<close>

lemma pool_moves:
  assumes "pool_inv body items n ls s" and "\<not> pool_finished s"
  shows "moves s \<noteq> []"
proof -
  obtain k where k: "k < length (pl_workers s)" "pl_workers s ! k \<noteq> Exited"
    using assms(2) by (auto simp: pool_finished_def list_all_length)
  show ?thesis
  proof (cases "pl_queue s = [] \<and> \<not> pl_closed s")
    case False
    then have "possible s k"
      using k assms(1) by (cases "pl_workers s ! k") (auto simp: possible_def pool_inv_def)
    then have "k \<in> set (filter (possible s) [0..<length (pl_workers s)])"
      using k by simp
    then show ?thesis unfolding moves_def by (metis append_is_Nil_conv empty_iff list.map_disc_iff list.set(1))
  qed (simp add: moves_def)
qed

lemma finished_no_moves:
  assumes "pool_inv body items n ls s" and "pool_finished s" and "0 < n"
  shows "moves s = []"
proof -
  have "\<forall>k < length (pl_workers s). pl_workers s ! k = Exited" and "0 < length (pl_workers s)"
    using assms by (simp_all add: pool_finished_def list_all_length pool_inv_def)
  then show ?thesis
    using assms(1) by (auto simp: moves_def pool_inv_def possible_def filter_empty_conv in_set_conv_nth)
qed

lemma finished_history:
  assumes "pool_inv body items n ls s" and "pool_finished s" and "0 < n"
  shows "started ls = [0..<length items] \<and> mset (map fst (completed ls)) = mset [0..<length items]
    \<and> length (pl_errs s) = length items
    \<and> (\<forall>i < length items. (i, pl_errs s ! i) \<in> set (completed ls))
    \<and> (\<forall>i < length items. rest_of (body (items ! i)) (Ret (pl_errs s ! i)))"
proof -
  have all: "\<forall>wk \<in> set (pl_workers s). wk = Exited" and "pl_workers s \<noteq> []"
    using assms by (auto simp: pool_finished_def list_all_iff pool_inv_def)
  then have "Exited \<in> set (pl_workers s)" by (cases "pl_workers s") auto
  then have q: "drop (length (started ls)) (List.enumerate 0 items) = []"
    using assms(1) by (auto simp: pool_inv_def)
  have st: "started ls = [0..<length items]"
    using q assms(1) by (auto simp: pool_inv_def)
  have "pool_running s = []"
    using all by (auto simp: pool_running_def)
  then have ms: "mset (map fst (completed ls)) = mset [0..<length items]"
    using assms(1) st by (simp add: pool_inv_def)
  have each: "\<forall>(i, e) \<in> set (completed ls). pl_errs s ! i = e \<and> rest_of (body (items ! i)) (Ret e)"
    using assms(1) by (simp add: pool_inv_def)
  have "\<exists>e. (i, e) \<in> set (completed ls)" if "i < length items" for i
  proof -
    have "i \<in> set (map fst (completed ls))"
      using that ms by (metis atLeastLessThan_iff set_mset_mset set_upt zero_le)
    then show ?thesis by auto
  qed
  then show ?thesis using each st ms assms(1) by (fastforce simp: pool_inv_def)
qed

lemma pool_loop_run:
  "pool_run body s0 ls s \<Longrightarrow> \<exists>ls'. pool_run body s0 ls' (pool_loop sched t body s) \<and> moves (pool_loop sched t body s) = []"
proof (induction sched t body s arbitrary: ls rule: pool_loop.induct)
  case (1 sched t body s)
  show ?case
  proof (cases "moves s = []")
    case True
    then show ?thesis using "1.prems" by (subst (1 2) pool_loop.simps) (auto simp: Let_def)
  next
    case False
    let ?s = "fire body (moves s ! (sched t mod length (moves s))) s"
    have "moves s ! (sched t mod length (moves s)) \<in> set (moves s)"
      using False by (metis mod_less_divisor length_greater_0_conv nth_mem)
    then obtain l where "pool_step body s l ?s" using fire_step by blast
    then have "pool_run body s0 (ls @ [l]) ?s" using "1.prems" by (rule run_snoc [rotated])
    then show ?thesis
      using "1.IH" [OF refl False] False by (subst (1 2) pool_loop.simps) (auto simp: Let_def)
  qed
qed

lemma Process_run:
  assumes "Process sched R ctx workers items handler w = Some (errs, w')"
  obtains ls s where "pool_run (job_body R ctx handler) (pool_init workers items w) ls s"
    "pool_inv (job_body R ctx handler) items (actual_workers workers (length items)) ls s"
    "pool_finished s" "errs = pl_errs s" "w' = pl_world s" "0 < sint workers"
proof -
  let ?b = "job_body R ctx handler"
  let ?s = "pool_loop sched 0 ?b (pool_init workers items w)"
  have w: "0 < sint workers" and r: "errs = pl_errs ?s" "w' = pl_world ?s"
    using assms by (auto simp: Process_def Let_def not_less split: if_splits)
  obtain ls where ls: "pool_run ?b (pool_init workers items w) ls ?s" "moves ?s = []"
    using pool_loop_run [OF run_nil, of ?b "pool_init workers items w" sched 0] by blast
  note inv = pool_run_from_init [OF ls(1)]
  then have "pool_finished ?s" using pool_moves ls(2) by blast
  then show thesis using that ls(1) inv r w by blast
qed

section \<open>Handlers that keep a relation\<close>

text \<open>
  The contract under which a batch is safe whatever the interleaving: \<open>G\<close> is a preorder on worlds, an
  item that is \<open>fit\<close> or \<open>finished\<close> stays so under \<open>G\<close>, and the handler of a fit item takes only \<open>G\<close> steps
  when all the others do the same, and returns nil only for a finished item.
\<close>

definition nil_means :: "('w \<Rightarrow> bool) \<Rightarrow> goerr option \<Rightarrow> 'w \<Rightarrow> bool" where
  "nil_means P e w \<longleftrightarrow> (e = None \<longrightarrow> P w)"

definition all_go ::
  "('w \<Rightarrow> 'w \<Rightarrow> bool) \<Rightarrow> ('a \<Rightarrow> 'w \<Rightarrow> bool) \<Rightarrow> ('a \<Rightarrow> ('w, goerr option) prog) \<Rightarrow> 'a list \<Rightarrow> 'w \<Rightarrow> label list \<Rightarrow>
     ('w, 'a) pool \<Rightarrow> bool" where
  "all_go G fin body items w0 ls s \<longleftrightarrow> G w0 (pl_world s)
     \<and> (\<forall>(i, p) \<in> set (pool_running s). prog_meets p G (nil_means (fin (items ! i))) (pl_world s))
     \<and> (\<forall>(i, x) \<in> set (pl_queue s). x = items ! i \<and> prog_meets (body x) G (nil_means (fin x)) (pl_world s))
     \<and> (\<forall>(i, e) \<in> set (completed ls). nil_means (fin (items ! i)) e (pl_world s))"

locale pool_handler =
  fixes handler :: "ctx \<Rightarrow> 'a \<Rightarrow> ('w, goerr option) prog"
    and G :: "'w \<Rightarrow> 'w \<Rightarrow> bool"
    and fit :: "'a \<Rightarrow> 'w \<Rightarrow> bool"
    and finished :: "'a \<Rightarrow> 'w \<Rightarrow> bool"
  assumes G_refl: "reflp G" and G_trans: "transp G"
    and finished_stable: "finished x w \<Longrightarrow> G w w' \<Longrightarrow> finished x w'"
    and handler_meets: "fit x w \<Longrightarrow> prog_meets (handler ctx x) G (nil_means (finished x)) w"
begin

lemma body_meets: "fit x w \<Longrightarrow> prog_meets (job_body R ctx handler x) G (nil_means (finished x)) w"
  using prog_meets_mono [OF handler_meets _ G_trans] G_refl
  by (auto simp: job_body_def prog_meets_call nil_means_def dest: reflpD split: option.split)

lemma meets_on: "prog_meets p G Q w \<Longrightarrow> G w w' \<Longrightarrow> prog_meets p G Q w'"
  by (rule prog_meets_mono [OF _ _ G_trans])

lemma nil_on: "nil_means (finished x) e w \<Longrightarrow> G w w' \<Longrightarrow> nil_means (finished x) e w'"
  by (auto simp: nil_means_def dest: finished_stable)

lemma step_goes:
  assumes "pool_step (job_body R ctx handler) s l s'" and "all_go G finished (job_body R ctx handler) items w0 ls s"
  shows "all_go G finished (job_body R ctx handler) items w0 (ls @ [l]) s'"
  using assms(1)
proof cases
  case (dispatch i x q k)
  show ?thesis
    by (rule pool_running_update [OF dispatch(4), of s' "Running i (job_body R ctx handler x)"])
       (use assms(2) dispatch in \<open>auto simp: all_go_def\<close>)
next
  case (work k i f p w')
  have "prog_meets (Step f) G (nil_means (finished (items ! i))) (pl_world s)"
    by (rule pool_running_update [OF work(3), of s' "Running i p"])
       (use assms(2) work in \<open>auto simp: all_go_def\<close>)
  moreover have "G (pl_world s) (pl_world s)" by (rule reflpD [OF G_refl])
  ultimately have moved: "G (pl_world s) w'" "prog_meets p G (nil_means (finished (items ! i))) w'"
    using work(5) unfolding prog_meets_Step by force+
  show ?thesis
    by (rule pool_running_update [OF work(3), of s' "Running i p"])
       (use assms(2) work moved transpD [OF G_trans _ moved(1)] in
         \<open>auto simp: all_go_def intro!: meets_on [OF _ moved(1)] nil_on [OF _ moved(1)]\<close>)
next
  case (complete k i e)
  have here: "G (pl_world s) (pl_world s)" by (rule reflpD [OF G_refl])
  have "prog_meets (Ret e) G (nil_means (finished (items ! i))) (pl_world s)"
    by (rule pool_running_update [OF complete(3), of s' Idle])
       (use assms(2) complete in \<open>auto simp: all_go_def\<close>)
  then have ret: "nil_means (finished (items ! i)) e (pl_world s)" using here by simp
  show ?thesis
    by (rule pool_running_update [OF complete(3), of s' Idle])
       (use assms(2) complete ret in \<open>auto simp: all_go_def\<close>)
next
  case close
  then show ?thesis using assms(2) by (simp add: all_go_def pool_running_def)
next
  case (leave k)
  show ?thesis
    by (rule pool_running_update [OF leave(4), of s' Exited])
       (use assms(2) leave in \<open>auto simp: all_go_def\<close>)
qed

lemma run_goes:
  "pool_run (job_body R ctx handler) s ls s' \<Longrightarrow> all_go G finished (job_body R ctx handler) items w0 [] s \<Longrightarrow>
     all_go G finished (job_body R ctx handler) items w0 ls s'"
  by (induction rule: pool_run.induct) (auto intro: step_goes)

lemma Process_meets:
  assumes "Process sched R ctx workers items handler w = Some (errs, w')"
    and "\<And>x. x \<in> set items \<Longrightarrow> fit x w"
  shows "G w w' \<and> length errs = length items \<and> (\<forall>i < length items. errs ! i = None \<longrightarrow> finished (items ! i) w')"
proof -
  have "all_go G finished (job_body R ctx handler) items w [] (pool_init workers items w)"
    using assms(2) body_meets G_refl
    by (auto simp: all_go_def pool_init_def pool_running_def reflpD in_set_enumerate_eq)
  moreover obtain ls s where run: "pool_run (job_body R ctx handler) (pool_init workers items w) ls s"
    and inv: "pool_inv (job_body R ctx handler) items (actual_workers workers (length items)) ls s"
    and fin: "pool_finished s" "errs = pl_errs s" "w' = pl_world s" "0 < sint workers"
    using Process_run [OF assms(1)] by blast
  ultimately have "all_go G finished (job_body R ctx handler) items w ls s" using run_goes [OF run] by blast
  moreover have "length (pl_errs s) = length items" "\<forall>i < length items. (i, pl_errs s ! i) \<in> set (completed ls)"
    using finished_history [OF inv fin(1) actual_workers_pos [OF fin(4)]] by simp_all
  ultimately show ?thesis
    unfolding fin all_go_def nil_means_def by fastforce
qed

lemma Process_goes:
  assumes "Process sched R ctx workers items handler w = Some (errs, w')"
    and "\<And>x. x \<in> set items \<Longrightarrow> fit x w"
  shows "G w w'"
  using Process_meets [OF assms] by blast

end

section \<open>One worker is the sequential loop\<close>

fun process_seq :: "('a \<Rightarrow> ('w, goerr option) prog) \<Rightarrow> (nat \<times> 'a) list \<Rightarrow> goerr option list \<Rightarrow> 'w \<Rightarrow>
    goerr option list \<times> 'w" where
  "process_seq body [] errs w = (errs, w)"
| "process_seq body ((i, x) # q) errs w =
     (case run (body x) w of (e, w') \<Rightarrow> process_seq body q (errs[i := e]) w')"

definition seq_result :: "('a \<Rightarrow> ('w, goerr option) prog) \<Rightarrow> ('w, 'a) pool \<Rightarrow> goerr option list \<times> 'w" where
  "seq_result body s = (case hd (pl_workers s) of
      Running i p \<Rightarrow> (case run p (pl_world s) of (e, w') \<Rightarrow>
        process_seq body (pl_queue s) ((pl_errs s)[i := e]) w')
    | Idle \<Rightarrow> process_seq body (pl_queue s) (pl_errs s) (pl_world s)
    | Exited \<Rightarrow> process_seq body (pl_queue s) (pl_errs s) (pl_world s))"

lemma seq_result_step:
  assumes "pool_step body s l s'" and "length (pl_workers s) = 1"
  shows "seq_result body s' = seq_result body s"
proof -
  obtain wk where wk: "pl_workers s = [wk]"
    using assms(2) by (auto simp: length_Suc_conv)
  from assms(1) show ?thesis
    by cases (auto simp: seq_result_def wk split: prod.split worker.split)
qed

lemma seq_result_run:
  "pool_run body s0 ls s \<Longrightarrow> length (pl_workers s0) = 1 \<Longrightarrow>
     seq_result body s = seq_result body s0 \<and> length (pl_workers s) = 1"
proof (induction rule: pool_run.induct)
  case (run_snoc s ls s' l s'')
  have "length (pl_workers s'') = length (pl_workers s')"
    using run_snoc.hyps(2) by cases auto
  then show ?case using run_snoc seq_result_step by metis
qed simp

lemma sequential_pool:
  assumes "Process sched R ctx workers items handler w = Some (errs, w')" and one: "actual_workers workers (length items) = 1"
  shows "(errs, w') = process_seq (job_body R ctx handler) (List.enumerate 0 items)
           (replicate (length items) None) w"
proof -
  let ?b = "job_body R ctx handler"
  obtain ls s where s: "pool_run ?b (pool_init workers items w) ls s"
    "pool_inv ?b items (actual_workers workers (length items)) ls s"
    "pool_finished s" "errs = pl_errs s" "w' = pl_world s"
    using Process_run [OF assms(1)] by metis
  have "length (pl_workers (pool_init workers items w)) = 1" using one by (simp add: pool_init_def)
  note same = seq_result_run [OF s(1) this]
  have ex: "pl_workers s = [Exited]"
    using same s(3) by (auto simp: pool_finished_def length_Suc_conv)
  then have "pl_queue s = []" using s(2) by (auto simp: pool_inv_def)
  then have "seq_result ?b s = (errs, w')" using ex s(4,5) by (simp add: seq_result_def)
  then show ?thesis
    using same one by (simp add: seq_result_def pool_init_def)
qed

lemma Process_single:
  "0 < sint workers \<Longrightarrow> Process sched R ctx workers [x] handler w =
     (case run (job_body R ctx handler x) w of (e, w') \<Rightarrow> Some ([e], w'))"
proof -
  assume w: "0 < sint workers"
  then obtain errs w' where p: "Process sched R ctx workers [x] handler w = Some (errs, w')"
    by (auto simp: Process_def Let_def)
  have "actual_workers workers (length [x]) = 1" using w by (simp add: actual_workers_def)
  from sequential_pool [OF p this] show ?thesis unfolding p by (simp split: prod.splits)
qed

section \<open>Every interleaving is the result of a schedule\<close>

lemma pool_step_move:
  assumes "pool_step body s l s'" and "pl_closed s \<longrightarrow> pl_queue s = []"
  obtains m where "m \<in> set (moves s)" "s' = fire body m s"
  using assms(1)
proof cases
  case (dispatch i x q k)
  show ?thesis using dispatch by (intro that [of "MWorker k"])
    (auto simp: moves_def possible_def fire_def move_worker_def)
next
  case (work k i f p w')
  show ?thesis using work by (intro that [of "MWorker k"])
    (auto simp: moves_def possible_def fire_def move_worker_def)
next
  case (complete k i e)
  show ?thesis using complete by (intro that [of "MWorker k"])
    (auto simp: moves_def possible_def fire_def move_worker_def)
next
  case close
  show ?thesis using close by (intro that [of MClose]) (auto simp: moves_def fire_def)
next
  case (leave k)
  show ?thesis using leave assms(2) by (intro that [of "MWorker k"])
    (auto simp: moves_def possible_def fire_def move_worker_def)
qed

lemma pool_loop_cong:
  "(\<And>u. t \<le> u \<Longrightarrow> sched u = sched' u) \<Longrightarrow> pool_loop sched t body s = pool_loop sched' t body s"
proof (induction sched t body s rule: pool_loop.induct)
  case (1 sched t body s)
  show ?case
  proof (cases "moves s = []")
    case True
    then show ?thesis by (subst (1 2) pool_loop.simps) (simp add: Let_def)
  next
    case False
    then show ?thesis
      using "1.IH" [OF refl False] "1.prems" by (subst (1 2) pool_loop.simps) (simp add: Let_def)
  qed
qed

lemma pool_loop_choose:
  assumes "pool_step body s l s'" and "pl_closed s \<longrightarrow> pl_queue s = []"
  shows "\<exists>sched'. pool_loop sched' t body s = pool_loop sched (Suc t) body s'"
proof -
  obtain m where m: "m \<in> set (moves s)" "s' = fire body m s"
    using pool_step_move [OF assms] .
  then obtain j where j: "j < length (moves s)" "moves s ! j = m"
    by (auto simp: in_set_conv_nth)
  let ?sched = "sched(t := j)"
  have "pool_loop ?sched t body s = pool_loop ?sched (Suc t) body s'"
    using m j by (subst pool_loop.simps) (auto simp: Let_def)
  also have "\<dots> = pool_loop sched (Suc t) body s'"
    by (rule pool_loop_cong) auto
  finally show ?thesis by blast
qed

lemma pool_run_scheduled:
  assumes "pool_run body s0 ls s" and "pool_inv body items n [] s0" and "moves s = []"
  shows "\<exists>sched. pool_loop sched 0 body s0 = s"
proof -
  have "\<exists>sched. pool_loop sched 0 body s0 = pool_loop sched' (length ls) body s" for sched'
    using assms(1,2)
  proof (induction arbitrary: sched' rule: pool_run.induct)
    case (run_nil s)
    then show ?case by auto
  next
    case (run_snoc s0 ls s' l s'')
    have "pl_closed s' \<longrightarrow> pl_queue s' = []"
      using pool_run_inv [OF run_snoc.hyps(1) run_snoc.prems] unfolding pool_inv_def by blast
    then obtain sched2 where
      "pool_loop sched2 (length ls) body s' = pool_loop sched' (Suc (length ls)) body s''"
      using pool_loop_choose [OF run_snoc.hyps(2)] by blast
    then show ?case using run_snoc.IH [OF run_snoc.prems] by (metis length_append_singleton)
  qed
  moreover have "pool_loop sched' t body s = s" for sched' t
    using assms(3) by (subst pool_loop.simps) simp
  ultimately show ?thesis by metis
qed

lemma Process_returns: "Process sched R ctx workers items handler w = None \<Longrightarrow> sint workers < 1"
  by (simp add: Process_def Let_def split: if_splits)

text \<open>The schedules of \<open>Process\<close> stand for all interleavings: each finished run is the outcome of one.\<close>

lemma Process_is_every_interleaving:
  assumes "0 < sint workers"
  shows "(\<exists>sched. Process sched R ctx workers items handler w = Some (errs, w'))
    \<longleftrightarrow> (\<exists>ls s. pool_run (job_body R ctx handler) (pool_init workers items w) ls s \<and> pool_finished s
          \<and> pl_errs s = errs \<and> pl_world s = w')"
proof
  assume "\<exists>sched. Process sched R ctx workers items handler w = Some (errs, w')"
  then show "\<exists>ls s. pool_run (job_body R ctx handler) (pool_init workers items w) ls s \<and> pool_finished s
          \<and> pl_errs s = errs \<and> pl_world s = w'"
    by (elim exE Process_run) blast
next
  assume "\<exists>ls s. pool_run (job_body R ctx handler) (pool_init workers items w) ls s \<and> pool_finished s
          \<and> pl_errs s = errs \<and> pl_world s = w'"
  then obtain ls s where s: "pool_run (job_body R ctx handler) (pool_init workers items w) ls s"
    "pool_finished s" "pl_errs s = errs" "pl_world s = w'" by blast
  have "moves s = []"
    by (rule finished_no_moves [OF pool_run_from_init [OF s(1)] s(2) actual_workers_pos [OF assms]])
  then obtain sched where "pool_loop sched 0 (job_body R ctx handler) (pool_init workers items w) = s"
    using pool_run_scheduled [OF s(1) pool_inv_init] by blast
  then have "Process sched R ctx workers items handler w = Some (errs, w')"
    using assms s(3,4) by (auto simp: Process_def Let_def)
  then show "\<exists>sched. Process sched R ctx workers items handler w = Some (errs, w')" by blast
qed

section \<open>A pool whose context is done\<close>

definition all_canceled :: "goerr \<Rightarrow> ('a \<Rightarrow> ('w, goerr option) prog) \<Rightarrow> 'w \<Rightarrow> label list \<Rightarrow> ('w, 'a) pool \<Rightarrow> bool" where
  "all_canceled err body w ls s \<longleftrightarrow> pl_world s = w
     \<and> (\<forall>(i, p) \<in> set (pool_running s). p \<in> range body \<or> p = Ret (Some (wrapf ''worker pool canceled: '' err)))
     \<and> (\<forall>(i, e) \<in> set (completed ls). e = Some (wrapf ''worker pool canceled: '' err))"

lemma job_body_Step: "job_body R ctx handler x = Step (\<lambda>w. (case rt_ctx_err R ctx w of
    Some err \<Rightarrow> Ret (Some (wrapf ''worker pool canceled: '' err)) | None \<Rightarrow> handler ctx x, w))"
  by (simp add: job_body_def call_def)

lemma all_canceled_step:
  assumes "rt_ctx_err R ctx w = Some err" and "all_canceled err (job_body R ctx handler) w ls s"
    and "pool_step (job_body R ctx handler) s l s'"
  shows "all_canceled err (job_body R ctx handler) w (ls @ [l]) s'"
  using assms(3)
proof cases
  case (dispatch i x q k)
  show ?thesis
    by (rule pool_running_update [OF dispatch(4), of s' "Running i (job_body R ctx handler x)"])
       (use assms(2) dispatch in \<open>auto simp: all_canceled_def\<close>)
next
  case (work k i f p w')
  have "p = Ret (Some (wrapf ''worker pool canceled: '' err)) \<and> w' = w"
    by (rule pool_running_update [OF work(3), of s' "Running i p"])
       (use assms(1,2) work in \<open>auto simp: all_canceled_def job_body_Step\<close>)
  moreover have "set (pool_running s') \<subseteq> insert (i, p) (set (pool_running s))"
    by (rule pool_running_update [OF work(3), of s' "Running i p"]) (simp_all add: work(2), blast)
  ultimately show ?thesis using assms(2) work(1,2) unfolding all_canceled_def by auto
next
  case (complete k i e)
  show ?thesis
    by (rule pool_running_update [OF complete(3), of s' Idle])
       (use assms(2) complete in \<open>auto simp: all_canceled_def job_body_Step\<close>)
next
  case close
  then show ?thesis using assms(2) by (simp add: all_canceled_def pool_running_def)
next
  case (leave k)
  show ?thesis
    by (rule pool_running_update [OF leave(4), of s' Exited])
       (use assms(2) leave in \<open>auto simp: all_canceled_def\<close>)
qed

lemma all_canceled_run:
  "pool_run (job_body R ctx handler) s ls s' \<Longrightarrow> rt_ctx_err R ctx w = Some err \<Longrightarrow>
     all_canceled err (job_body R ctx handler) w [] s \<Longrightarrow> all_canceled err (job_body R ctx handler) w ls s'"
  by (induction rule: pool_run.induct) (auto intro: all_canceled_step)

section \<open>Properties\<close>

definition tick_handler :: "ctx \<Rightarrow> nat \<Rightarrow> (host, goerr option) prog" where
  "tick_handler ctx x = act (\<lambda>w. w\<lparr>h_metrics := h_metrics w @ [OutboxPublished (itoa (of_nat x))]\<rparr>)
     (Ret (if x = 2 then Some (errorf [Lit ''boom'']) else None))"

abbreviation sample_body :: "nat \<Rightarrow> (host, goerr option) prog" where
  "sample_body \<equiv> job_body host_runtime background tick_handler"

lemma sample_pool_run:
  "\<exists>ls s. pool_run sample_body (pool_init 2 [1, 2, 3] (sample_host empty_db [])) ls s \<and> pool_finished s"
proof -
  let ?r = "Process (\<lambda>t. t) host_runtime background 2 [1, 2, 3] tick_handler (sample_host empty_db [])"
  obtain errs w' where "?r = Some (errs, w')"
    by (simp add: Process_def Let_def)
  then show ?thesis by (elim Process_run) blast
qed

text \<open>
  C10. Whatever the interleaving, when \<open>Process\<close> returns every item has been started exactly once, in
  the order of the batch, every one of them has completed exactly once, the error slot of each item
  holds what its own handler ended with, and there were never more workers than asked for.
\<close>
theorem pool_handles_each_item_once:
  assumes "pool_run body (pool_init workers items w) ls s" and "pool_finished s" and "0 < sint workers"
  shows "started ls = [0..<length items] \<and> mset (map fst (completed ls)) = mset [0..<length items]
    \<and> length (pl_errs s) = length items
    \<and> (\<forall>i < length items. (i, pl_errs s ! i) \<in> set (completed ls)
         \<and> rest_of (body (items ! i)) (Ret (pl_errs s ! i)))
    \<and> int (length (pl_workers s)) \<le> sint workers"
proof -
  note inv = pool_run_from_init [OF assms(1)]
  have "int (length (pl_workers s)) \<le> sint workers"
    using inv assms(3) by (simp add: pool_inv_def actual_workers_def)
  then show ?thesis
    using finished_history [OF inv assms(2) actual_workers_pos [OF assms(3)]] by blast
qed

theorem pool_handles_each_item_once_witness:
  "\<exists>ls s. pool_run sample_body (pool_init 2 [1, 2, 3] (sample_host empty_db [])) ls s
     \<and> started ls = [0, 1, 2] \<and> length (pl_errs s) = 3 \<and> rest_of (sample_body 2) (Ret (pl_errs s ! 1))"
proof -
  obtain ls s where s: "pool_run sample_body (pool_init 2 [1, 2, 3] (sample_host empty_db [])) ls s" "pool_finished s"
    using sample_pool_run by blast
  show ?thesis
    using pool_handles_each_item_once [OF s] s by (intro exI [of _ ls] exI [of _ s]) (auto simp: upt_rec)
qed

text \<open>
  C11. The pool never deadlocks and always returns: as long as a worker has not left, some step is
  possible; there is no infinite run, whatever the handlers do; and a pool that cannot move is finished.
\<close>
theorem pool_always_returns:
  assumes "pool_run body (pool_init workers items w) ls s" and "0 < sint workers"
  shows "(pool_finished s \<or> (\<exists>l s'. pool_step body s l s'))
    \<and> (\<nexists>run. run 0 = s \<and> (\<forall>t :: nat. \<exists>l. pool_step body (run t) l (run (Suc t))))"
proof (intro conjI notI)
  note inv = pool_run_from_init [OF assms(1)]
  show "pool_finished s \<or> (\<exists>l s'. pool_step body s l s')"
    using pool_moves [OF inv] fire_step by (metis list.set_sel(1))
next
  assume "\<exists>run. run 0 = s \<and> (\<forall>t :: nat. \<exists>l. pool_step body (run t) l (run (Suc t)))"
  then obtain run where "\<And>t :: nat. \<exists>l. pool_step body (run t) l (run (Suc t))" by blast
  then have "\<forall>t. ((body, run (Suc t)), (body, run t)) \<in> pool_order"
    using pool_step_decreases by blast
  then show False
    using wf_pool_order unfolding wf_iff_no_infinite_down_chain
    by (auto dest: spec [of _ "\<lambda>t. (body, run t)"])
qed

theorem pool_always_returns_witness:
  "pool_finished (pool_init 2 [1 :: nat, 2, 3] (sample_host empty_db []))
   \<or> (\<exists>l s'. pool_step sample_body (pool_init 2 [1, 2, 3] (sample_host empty_db [])) l s')"
  using pool_always_returns [OF run_nil, where workers = 2 and body = sample_body and items = "[1, 2, 3]" and w = "sample_host empty_db []"] by simp

text \<open>
  A pool whose context is already done starts no handler: with at least one worker it returns, under
  every schedule, the cancellation error for each of its items and leaves the world as it was; with fewer
  workers it panics, context or not.
\<close>
theorem Process_after_cancel:
  assumes "rt_ctx_err R ctx w = Some err"
  shows "Process sched R ctx workers items handler w = (if sint workers < 1 then None
    else Some (replicate (length items) (Some (wrapf ''worker pool canceled: '' err)), w))"
proof (cases "sint workers < 1")
  case False
  then obtain errs w' where p: "Process sched R ctx workers items handler w = Some (errs, w')"
    by (auto simp: Process_def Let_def)
  obtain ls s where run: "pool_run (job_body R ctx handler) (pool_init workers items w) ls s"
    and inv: "pool_inv (job_body R ctx handler) items (actual_workers workers (length items)) ls s"
    and fin: "pool_finished s" "errs = pl_errs s" "w' = pl_world s" "0 < sint workers"
    using Process_run [OF p] by blast
  have "all_canceled err (job_body R ctx handler) w [] (pool_init workers items w)"
    by (auto simp: all_canceled_def pool_init_def pool_running_def)
  then have "all_canceled err (job_body R ctx handler) w ls s" by (rule all_canceled_run [OF run assms])
  moreover have "length errs = length items" "\<forall>i < length items. (i, errs ! i) \<in> set (completed ls)"
    using finished_history [OF inv fin(1) actual_workers_pos [OF fin(4)]] fin(2) by simp_all
  ultimately have "errs = replicate (length items) (Some (wrapf ''worker pool canceled: '' err))" "w' = w"
    unfolding all_canceled_def by (simp_all add: fin(3) list_eq_iff_nth_eq) fastforce
  then show ?thesis using p False by simp
qed (simp add: Process_def)

theorem Process_after_cancel_witness:
  "Process (\<lambda>t. 5 * t) host_runtime background 2 [1, 2, 3] tick_handler ((sample_host empty_db [])\<lparr>h_cancel_at := Some 0\<rparr>)
     = Some (replicate 3 (Some (wrapf ''worker pool canceled: '' ctx_canceled)), (sample_host empty_db [])\<lparr>h_cancel_at := Some 0\<rparr>)"
  by (subst Process_after_cancel [where err = ctx_canceled]) (simp_all add: canceled_by_def sample_host_def numeral_3_eq_3)

text \<open>
  C39. With one worker the pool is the plain loop over the batch: the items are handled one after the
  other, in order, each to its end, whatever the schedule.
\<close>
theorem Process_one_worker_is_sequential:
  assumes "Process sched R ctx 1 items handler w = Some (errs, w')"
  shows "(errs, w') = process_seq (job_body R ctx handler) (List.enumerate 0 items)
           (replicate (length items) None) w"
  by (rule sequential_pool [OF assms]) (simp add: actual_workers_def)

theorem Process_one_worker_is_sequential_witness:
  "\<exists>w'. Process (\<lambda>t. 7 * t) host_runtime background 1 [1, 2, 3] tick_handler (sample_host empty_db [])
     = Some ([None, Some (errorf [Lit ''boom'']), None], w')"
proof -
  obtain errs w' where r: "Process (\<lambda>t. 7 * t) host_runtime background 1 [1, 2, 3] tick_handler (sample_host empty_db [])
      = Some (errs, w')"
    by (simp add: Process_def Let_def)
  have "errs = [None, Some (errorf [Lit ''boom'']), None]"
    using Process_one_worker_is_sequential [OF r]
    by (simp add: job_body_def tick_handler_def canceled_by_def sample_host_def)
  with r show ?thesis by simp
qed

end
