(* ===== verification/Kafka_Producer.thy ===== *)
theory Kafka_Producer
  imports Host Event_Envelope
begin

text \<open>
  internal/platform/kafka: the records, the producer over a franz-go client, and the options both
  clients are built with. The client itself is an argument (\<open>kafka_client\<close>). \<open>node\<close> adds to the machine
  of \<open>Host\<close> a broker that keeps a log of the records it accepted and answers by a plan.
\<close>

section \<open>Records and the producer\<close>

text \<open>
  The fields of \<open>kgo.Record\<close> that the services or the client read. Partition and offset are set by the
  client for a polled record; the records that the services build leave them zero.
\<close>

record header =
  hdr_Key :: string
  hdr_Value :: string

record krecord =
  rec_Topic :: string
  rec_Key :: string
  rec_Value :: string
  rec_Headers :: "header list"
  rec_Partition :: int32
  rec_Offset :: int64

record 'w kafka_client =
  kc_ProduceSync :: "ctx \<Rightarrow> krecord \<Rightarrow> 'w \<Rightarrow> goerr option \<times> 'w"
  kc_Ping :: "ctx \<Rightarrow> 'w \<Rightarrow> goerr option \<times> 'w"
  kc_Close :: "'w \<Rightarrow> 'w"

definition envelope_headers :: "('c) codec_scheme \<Rightarrow> envelope \<Rightarrow> header list" where
  "envelope_headers C envelope =
     [\<lparr>hdr_Key = ''event_id'', hdr_Value = lib_uuid_string C (EventID envelope)\<rparr>,
      \<lparr>hdr_Key = ''event_type'', hdr_Value = EventType envelope\<rparr>,
      \<lparr>hdr_Key = ''event_version'', hdr_Value = itoa (Version envelope)\<rparr>,
      \<lparr>hdr_Key = ''request_id'', hdr_Value = env_RequestID envelope\<rparr>]"

definition PublishRecord :: "'w kafka_client \<Rightarrow> ctx \<Rightarrow> krecord \<Rightarrow> 'w \<Rightarrow> goerr option \<times> 'w" where
  "PublishRecord client ctx rec w =
     (case kc_ProduceSync client ctx rec w of
        (Some err, w1) \<Rightarrow> (Some (wrapf ''produce kafka record: '' err), w1)
      | (None, w1) \<Rightarrow> (None, w1))"

definition Publish ::
  "('c) codec_scheme \<Rightarrow> 'w kafka_client \<Rightarrow> ctx \<Rightarrow> string \<Rightarrow> string \<Rightarrow> string \<Rightarrow> envelope \<Rightarrow> 'w \<Rightarrow>
     goerr option \<times> 'w" where
  "Publish C client ctx topic key val envelope w =
     (let rec = \<lparr>rec_Topic = topic, rec_Key = key, rec_Value = val,
                 rec_Headers = envelope_headers C envelope, rec_Partition = 0, rec_Offset = 0\<rparr>
      in case kc_ProduceSync client ctx rec w of
           (Some err, w1) \<Rightarrow> (Some (wrapf ''produce kafka record: '' err), w1)
         | (None, w1) \<Rightarrow> (None, w1))"

definition Producer_Ping :: "'w kafka_client \<Rightarrow> ctx \<Rightarrow> 'w \<Rightarrow> goerr option \<times> 'w" where
  "Producer_Ping client = kc_Ping client"

definition Producer_Close :: "'w kafka_client \<Rightarrow> 'w \<Rightarrow> 'w" where
  "Producer_Close client = kc_Close client"

section \<open>The options of the clients\<close>

datatype compression = SnappyCompression

datatype kgo_option =
    SeedBrokers "string list" | ClientID string
  | RequiredAllISRAcks | ProducerLinger duration | ProducerBatchCompression compression
  | ConsumerGroup string | ConsumeTopics "string list" | DisableAutoCommit | BlockRebalanceOnPoll
  | RebalanceTimeout duration | SessionTimeout duration | FetchMaxWait duration | ConsumeResetAtStart

text \<open>\<open>kgo.NewClient\<close> is an argument: it yields a client or an error.\<close>

definition NewProducer ::
  "(kgo_option list \<Rightarrow> 'k result) \<Rightarrow> string list \<Rightarrow> string \<Rightarrow> 'k result" where
  "NewProducer new_client brokers clientID =
     (case new_client [SeedBrokers brokers, ClientID clientID, RequiredAllISRAcks,
                       ProducerLinger (5 * millisecond), ProducerBatchCompression SnappyCompression] of
        Inl err \<Rightarrow> Inl (wrapf ''create kafka producer: '' err)
      | Inr client \<Rightarrow> Inr client)"

definition NewConsumer ::
  "(kgo_option list \<Rightarrow> 'k result) \<Rightarrow> string list \<Rightarrow> string \<Rightarrow> string \<Rightarrow> string list \<Rightarrow> duration \<Rightarrow> 'k result" where
  "NewConsumer new_client brokers clientID grp topics rebalanceTimeout =
     (case new_client [SeedBrokers brokers, ClientID clientID, ConsumerGroup grp, ConsumeTopics topics,
                       DisableAutoCommit, BlockRebalanceOnPoll, RebalanceTimeout rebalanceTimeout,
                       SessionTimeout (30 * second), FetchMaxWait second, ConsumeResetAtStart] of
        Inl err \<Rightarrow> Inl (wrapf ''create kafka consumer: '' err)
      | Inr client \<Rightarrow> Inr client)"

section \<open>A machine with a broker\<close>

record node = host +
  nd_log :: "krecord list"
  nd_answers :: "reply list"

text \<open>The broker may accept a record, never see it, or accept it and lose the acknowledgement.\<close>

definition broker_produce :: "krecord \<Rightarrow> 'z node_scheme \<Rightarrow> goerr option \<times> 'z node_scheme" where
  "broker_produce rec w = (case nd_answers w of
      [] \<Rightarrow> (None, w\<lparr>nd_log := nd_log w @ [rec]\<rparr>)
    | Done # rs \<Rightarrow> (None, w\<lparr>nd_log := nd_log w @ [rec], nd_answers := rs\<rparr>)
    | Lost e # rs \<Rightarrow> (Some e, w\<lparr>nd_answers := rs\<rparr>)
    | Applied e # rs \<Rightarrow> (Some e, w\<lparr>nd_log := nd_log w @ [rec], nd_answers := rs\<rparr>))"

definition broker_client :: "('z node_scheme) kafka_client" where
  "broker_client = \<lparr>kc_ProduceSync = (\<lambda>ctx. broker_produce), kc_Ping = (\<lambda>ctx w. (None, w)), kc_Close = (\<lambda>w. w)\<rparr>"

lemma broker_client_simps [simp]:
  "kc_ProduceSync broker_client ctx rec w = broker_produce rec w"
  "kc_Ping broker_client ctx w = (None, w)"
  "kc_Close broker_client w = w"
  by (simp_all add: broker_client_def)

lemma broker_produce_log:
  "broker_produce rec w = (r, w') \<Longrightarrow>
     (nd_log w' = nd_log w @ [rec] \<or> r \<noteq> None \<and> nd_log w' = nd_log w)
     \<and> sv_db w' = sv_db w \<and> sv_now w' = sv_now w \<and> sv_plan w' = sv_plan w"
  by (auto simp: broker_produce_def split: list.splits reply.splits)

definition sample_node :: "db \<Rightarrow> reply list \<Rightarrow> reply list \<Rightarrow> node" where
  "sample_node d plan answers = host.extend (sample_host d plan) \<lparr>nd_log = [], nd_answers = answers\<rparr>"

lemma sample_node_simps [simp]:
  "sv_db (sample_node d plan answers) = d"
  "sv_now (sample_node d plan answers) = 5000000"
  "sv_plan (sample_node d plan answers) = plan"
  "sv_locked (sample_node d plan answers) = []"
  "h_clock (sample_node d plan answers) = 4000000"
  "h_cancel_at (sample_node d plan answers) = None"
  "h_metrics (sample_node d plan answers) = []"
  "h_uuids (sample_node d plan answers) n = word_of_nat (n + 100)"
  "h_next (sample_node d plan answers) = 0"
  "nd_log (sample_node d plan answers) = []"
  "nd_answers (sample_node d plan answers) = answers"
  by (simp_all add: sample_node_def sample_host_def host.defs)

end
