(* ===== verification/Outbox_Publisher.thy ===== *)
theory Outbox_Publisher
  imports Outbox_Repo Worker_Pool Kafka_Producer
begin

text \<open>
  internal/outbox/publisher.go: one claimed event is published or given back, a batch is published by
  the worker pool, and the loop repeats batches until the context ends. The interfaces \<open>Repository\<close> and
  \<open>Producer\<close> are records; their joint contract is the locale \<open>outbox_contract\<close>, interpreted on the
  PostgreSQL repository and a Kafka broker.
\<close>

section \<open>Interfaces\<close>

record 'w outbox_repository =
  or_Claim :: "ctx \<Rightarrow> string \<Rightarrow> int64 \<Rightarrow> duration \<Rightarrow> 'w \<Rightarrow> outbox_event list result \<times> 'w"
  or_MarkPublished :: "ctx \<Rightarrow> uuid \<Rightarrow> string \<Rightarrow> 'w \<Rightarrow> goerr option \<times> 'w"
  or_Release :: "ctx \<Rightarrow> uuid \<Rightarrow> string \<Rightarrow> string \<Rightarrow> time \<Rightarrow> 'w \<Rightarrow> goerr option \<times> 'w"
  or_MarkFailed :: "ctx \<Rightarrow> uuid \<Rightarrow> string \<Rightarrow> string \<Rightarrow> 'w \<Rightarrow> goerr option \<times> 'w"
  or_PendingCount :: "ctx \<Rightarrow> 'w \<Rightarrow> int64 result \<times> 'w"

type_synonym 'w producer = "ctx \<Rightarrow> string \<Rightarrow> string \<Rightarrow> string \<Rightarrow> envelope \<Rightarrow> 'w \<Rightarrow> goerr option \<times> 'w"

record 'w publisher =
  p_repository :: "'w outbox_repository"
  p_producer :: "'w producer"
  p_topics :: topics
  p_owner :: string
  p_workers :: int64
  p_batchSize :: int64
  p_poll :: duration
  p_lease :: duration

record publisher_config =
  pc_Owner :: string
  pc_OrderCreatedTopic :: string
  pc_OrderStatusChangedTopic :: string
  pc_Workers :: int64
  pc_BatchSize :: int64
  pc_PollInterval :: duration
  pc_LeaseDuration :: duration

definition NewPublisher :: "'w outbox_repository \<Rightarrow> 'w producer \<Rightarrow> publisher_config \<Rightarrow> 'w publisher" where
  "NewPublisher repository producer config = \<lparr>p_repository = repository, p_producer = producer,
     p_topics = \<lparr>topic_OrderCreated = pc_OrderCreatedTopic config,
                 topic_OrderStatusChanged = pc_OrderStatusChangedTopic config\<rparr>,
     p_owner = pc_Owner config, p_workers = pc_Workers config, p_batchSize = pc_BatchSize config,
     p_poll = pc_PollInterval config, p_lease = pc_LeaseDuration config\<rparr>"

definition PublishTimeout :: duration where "PublishTimeout = 10 * second"
definition DatabaseTimeout :: duration where "DatabaseTimeout = 5 * second"

section \<open>The delay after a failure\<close>

text \<open>
  \<open>float64(n)\<close> of an integer: 53 significant bits, halves to even; scaling by a power of two is exact. A
  float beyond \<open>int64\<close> converts to the least value, as on amd64 (the language leaves it open).
\<close>

fun bit_length :: "nat \<Rightarrow> nat" where
  "bit_length n = (if n = 0 then 0 else Suc (bit_length (n div 2)))"

declare bit_length.simps [simp del]

definition f64_round :: "int \<Rightarrow> int" where
  "f64_round n =
     (let a = \<bar>n\<bar>; k = bit_length (nat a) - 53; q = a div 2 ^ k; r = a mod 2 ^ k;
          up = (0 < k \<and> (2 ^ (k - 1) < r \<or> r = 2 ^ (k - 1) \<and> odd q))
      in sgn n * ((if up then q + 1 else q) * 2 ^ k))"

definition duration_of_float :: "int \<Rightarrow> duration" where
  "duration_of_float x = (if - (2 ^ 63) \<le> x \<and> x < 2 ^ 63 then word_of_int x else word_of_int (- (2 ^ 63)))"

definition exponentialBackoff :: "int64 \<Rightarrow> duration \<Rightarrow> duration \<Rightarrow> duration" where
  "exponentialBackoff attempt base maximum =
     (let exponent = smin (smax (attempt - 1) 0) 10;
          delay = duration_of_float (f64_round (sint base) * 2 ^ nat (sint exponent))
      in smin delay maximum)"

section \<open>Publishing one event\<close>

definition failPermanently ::
  "'w runtime \<Rightarrow> ('c) codec_scheme \<Rightarrow> 'w publisher \<Rightarrow> ctx \<Rightarrow> outbox_event \<Rightarrow> string \<Rightarrow> goerr \<Rightarrow>
     ('w, goerr option) prog" where
  "failPermanently R C p ctx claimed res cause =
     call (or_MarkFailed (p_repository p) (with_timeout ctx DatabaseTimeout) (ev_ID claimed) (p_owner p)
             (err_string C cause))
       (\<lambda>failed. case failed of
          Some err \<Rightarrow> Ret (Some (wrapf ''reject outbox event: '' (errors_join (Some cause) err)))
        | None \<Rightarrow> act (rt_count R (OutboxPublished res)) (Ret (Some cause)))"

text \<open>What is left to do once the event has been found valid.\<close>

definition publishValid ::
  "'w runtime \<Rightarrow> ('c) codec_scheme \<Rightarrow> 'w publisher \<Rightarrow> ctx \<Rightarrow> outbox_event \<Rightarrow> string \<Rightarrow> envelope \<Rightarrow>
     ('w, goerr option) prog" where
  "publishValid R C p ctx claimed topic envelope =
     call (p_producer p (with_timeout ctx PublishTimeout) topic (lib_uuid_string C (ev_AggregateID claimed))
             (ev_Payload claimed) envelope)
       (\<lambda>sent. case sent of
          Some err \<Rightarrow>
            (let delay = exponentialBackoff (ev_Attempts claimed) second minute
             in call (rt_now R) (\<lambda>now.
                call (or_Release (p_repository p) (with_timeout ctx DatabaseTimeout) (ev_ID claimed) (p_owner p)
                        (err_string C err) (time_add now delay))
                  (\<lambda>released. case released of
                     Some releaseErr \<Rightarrow>
                       Ret (Some (wrapf ''publish and release outbox event: '' (errors_join (Some err) releaseErr)))
                   | None \<Rightarrow> act (rt_count R (OutboxPublished ''failed'')) (Ret (Some err)))))
        | None \<Rightarrow>
            call (or_MarkPublished (p_repository p) (with_timeout ctx DatabaseTimeout) (ev_ID claimed) (p_owner p))
              (\<lambda>marked. case marked of
                 Some err \<Rightarrow> Ret (Some err)
               | None \<Rightarrow> act (rt_count R (OutboxPublished ''success'')) (Ret None)))"

definition publishOne ::
  "'w runtime \<Rightarrow> ('c) codec_scheme \<Rightarrow> 'w publisher \<Rightarrow> ctx \<Rightarrow> outbox_event \<Rightarrow> ('w, goerr option) prog" where
  "publishOne R C p ctx claimed =
     (case Topics_For (p_topics p) (ev_EventType claimed) of
        None \<Rightarrow> failPermanently R C p ctx claimed ''unsupported''
          (errorf [Lit ''unsupported outbox event type '', Quoted (ev_EventType claimed)])
      | Some topic \<Rightarrow>
     (case unmarshal_envelope C (ev_Payload claimed) of
        Inl err \<Rightarrow> failPermanently R C p ctx claimed ''invalid''
          (wrapfs [Lit ''decode outbox event '', Lit (lib_uuid_string C (ev_ID claimed)), Lit '': ''] err)
      | Inr envelope \<Rightarrow>
     (case Envelope_Validate envelope of
        Some err \<Rightarrow> failPermanently R C p ctx claimed ''invalid''
          (wrapfs [Lit ''validate outbox event '', Lit (lib_uuid_string C (ev_ID claimed)), Lit '': ''] err)
      | None \<Rightarrow>
     (if EventID envelope \<noteq> ev_ID claimed \<or> AggregateID envelope \<noteq> ev_AggregateID claimed
         \<or> EventType envelope \<noteq> ev_EventType claimed then
        failPermanently R C p ctx claimed ''invalid''
          (errorf [Lit ''outbox columns do not match envelope '', Lit (lib_uuid_string C (ev_ID claimed))])
      else publishValid R C p ctx claimed topic envelope))))"

section \<open>A batch, and the loop\<close>

fun first_error :: "goerr option list \<Rightarrow> goerr option" where
  "first_error [] = None"
| "first_error (e # errs) = (case e of Some err \<Rightarrow> Some err | None \<Rightarrow> first_error errs)"

text \<open>\<open>None\<close> is the panic of the pool; the schedule is that of \<open>Process\<close>.\<close>

definition publishBatch ::
  "(nat \<Rightarrow> nat) \<Rightarrow> 'w runtime \<Rightarrow> ('c) codec_scheme \<Rightarrow> 'w publisher \<Rightarrow> ctx \<Rightarrow> 'w \<Rightarrow> (goerr option \<times> 'w) option" where
  "publishBatch sched R C p ctx w =
     (case or_Claim (p_repository p) (with_timeout ctx DatabaseTimeout) (p_owner p) (p_batchSize p) (p_lease p) w of
        (Inl err, w1) \<Rightarrow> Some (Some err, w1)
      | (Inr claimed, w1) \<Rightarrow>
     (case or_PendingCount (p_repository p) (with_timeout ctx DatabaseTimeout) w1 of
        (counted, w2) \<Rightarrow>
     (let w3 = (case counted of Inr n \<Rightarrow> rt_count R (OutboxPending n) w2 | Inl _ \<Rightarrow> w2)
      in if claimed = [] then Some (None, w3)
         else (case Process sched R ctx (p_workers p) claimed (publishOne R C p) w3 of
                 None \<Rightarrow> None
               | Some (errs, w4) \<Rightarrow> Some (first_error errs, w4)))))"

text \<open>
  \<open>Run\<close>: \<open>select\<close> waits for the context or the next tick (\<open>tick\<close> is true when the tick is taken). The
  loop returns only when the context ends; \<open>Some None\<close> is the panic of a batch.
\<close>

partial_function (option) Publisher_Run ::
  "(nat \<Rightarrow> nat \<Rightarrow> nat) \<Rightarrow> ('w \<Rightarrow> bool \<times> 'w) \<Rightarrow> nat \<Rightarrow> 'w runtime \<Rightarrow> ('c) codec_scheme \<Rightarrow> 'w publisher \<Rightarrow>
     ctx \<Rightarrow> 'w \<Rightarrow> (goerr option \<times> 'w) option option" where
  "Publisher_Run sched tick t R C p ctx w =
     (case publishBatch (sched t) R C p ctx w of
        None \<Rightarrow> Some None
      | Some (err, w1) \<Rightarrow> (case tick w1 of (ticked, w2) \<Rightarrow>
          if ticked then Publisher_Run sched tick (Suc t) R C p ctx w2 else Some (Some (None, w2))))"

section \<open>The contract of the repository and the producer\<close>

text \<open>An event that passes every check of \<open>publishOne\<close>, with its topic and envelope.\<close>

definition publishable ::
  "('c) codec_scheme \<Rightarrow> topics \<Rightarrow> outbox_event \<Rightarrow> string \<Rightarrow> envelope \<Rightarrow> bool" where
  "publishable C t ev topic envelope \<longleftrightarrow> Topics_For t (ev_EventType ev) = Some topic
     \<and> unmarshal_envelope C (ev_Payload ev) = Inr envelope \<and> Envelope_Validate envelope = None
     \<and> EventID envelope = ev_ID ev \<and> AggregateID envelope = ev_AggregateID ev
     \<and> EventType envelope = ev_EventType ev"

lemma publishOne_cases:
  obtains (good) topic envelope where "publishable C (p_topics p) ev topic envelope"
      "publishOne R C p ctx ev = publishValid R C p ctx ev topic envelope"
    | (rejected) res cause where "\<nexists>topic envelope. publishable C (p_topics p) ev topic envelope"
      "publishOne R C p ctx ev = failPermanently R C p ctx ev res cause"
proof (cases "\<exists>topic envelope. publishable C (p_topics p) ev topic envelope")
  case True
  then obtain topic envelope where "publishable C (p_topics p) ev topic envelope" by blast
  then show ?thesis by (intro good) (auto simp: publishable_def publishOne_def simp del: Envelope_Validate_None)
next
  case False
  then have "\<exists>res cause. publishOne R C p ctx ev = failPermanently R C p ctx ev res cause"
    by (cases "Topics_For (p_topics p) (ev_EventType ev)"; cases "unmarshal_envelope C (ev_Payload ev)")
       (auto simp: publishable_def publishOne_def simp del: Envelope_Validate_None split: option.splits)
  then show ?thesis using False rejected by blast
qed

text \<open>
  \<open>inv\<close> is the invariant and \<open>G\<close> the relation all steps keep; \<open>claimed ev w\<close> says that the row of \<open>ev\<close> is there with its columns,
  \<open>sent ev w\<close> that Kafka has its record. A row may be marked published only when sent, and rejected only
  when it cannot be published.
\<close>

locale outbox_contract =
  fixes p :: "'w publisher" and R :: "'w runtime" and C :: "('c) codec_scheme"
    and inv :: "'w \<Rightarrow> bool" and G :: "'w \<Rightarrow> 'w \<Rightarrow> bool"
    and claimed :: "outbox_event \<Rightarrow> 'w \<Rightarrow> bool" and sent :: "outbox_event \<Rightarrow> 'w \<Rightarrow> bool"
  assumes refl: "reflp G" and trans: "transp G"
    and inv_stable: "inv w \<Longrightarrow> G w w' \<Longrightarrow> inv w'"
    and claimed_stable: "claimed ev w \<Longrightarrow> G w w' \<Longrightarrow> claimed ev w'"
    and claimed_inv: "claimed ev w \<Longrightarrow> inv w"
    and sent_stable: "sent ev w \<Longrightarrow> G w w' \<Longrightarrow> sent ev w'"
    and now_goes: "G w (snd (rt_now R w))"
    and count_goes: "G w (rt_count R m w)"
    and claim_goes: "inv w \<Longrightarrow> or_Claim (p_repository p) ctx (p_owner p) (p_batchSize p) (p_lease p) w = (r, w') \<Longrightarrow>
        G w w' \<and> (\<forall>evs. r = Inr evs \<longrightarrow> (\<forall>ev \<in> set evs. claimed ev w'))"
    and pending_goes: "G w (snd (or_PendingCount (p_repository p) ctx w))"
    and produce_goes: "publishable C (p_topics p) ev topic env \<Longrightarrow>
        p_producer p ctx topic (lib_uuid_string C (ev_AggregateID ev)) (ev_Payload ev) env w = (s, w') \<Longrightarrow>
        G w w' \<and> (inv w \<and> s = None \<longrightarrow> sent ev w')"
    and mark_goes: "claimed ev w \<Longrightarrow> sent ev w \<Longrightarrow>
        G w (snd (or_MarkPublished (p_repository p) ctx (ev_ID ev) (p_owner p) w))"
    and release_goes: "G w (snd (or_Release (p_repository p) ctx i (p_owner p) message t w))"
    and reject_goes: "claimed ev w \<Longrightarrow> \<nexists>topic env. publishable C (p_topics p) ev topic env \<Longrightarrow>
        G w (snd (or_MarkFailed (p_repository p) ctx (ev_ID ev) (p_owner p) message w))"
begin

lemma fail_meets:
  assumes "claimed ev w0" and "\<nexists>topic env. publishable C (p_topics p) ev topic env"
  shows "prog_meets (failPermanently R C p ctx ev res cause) G (nil_means (sent ev)) w0"
  using reject_goes [OF claimed_stable [OF assms(1)] assms(2)]
  by (auto simp: failPermanently_def prog_meets_call prog_meets_act count_goes nil_means_def split: option.split)

lemma mark_part:
  assumes "claimed ev w0" and "sent ev w0"
  shows "prog_meets (call (or_MarkPublished (p_repository p) ctx (ev_ID ev) (p_owner p))
      (\<lambda>marked. case marked of Some err \<Rightarrow> Ret (Some err) | None \<Rightarrow> act (rt_count R m) (Ret None))) G (nil_means (sent ev)) w0"
  unfolding prog_meets_call
proof (intro allI impI conjI)
  fix w assume "G w0 w"
  then have w: "claimed ev w" "sent ev w" using claimed_stable [OF assms(1)] sent_stable [OF assms(2)] by blast+
  let ?w' = "snd (or_MarkPublished (p_repository p) ctx (ev_ID ev) (p_owner p) w)"
  show "G w ?w'" by (rule mark_goes [OF w])
  have "sent ev ?w'" using sent_stable [OF w(2) mark_goes [OF w]] .
  then have "sent ev (rt_count R m w')" and "G w' (rt_count R m w')" if "G ?w' w'" for w'
    using sent_stable that count_goes by blast+
  then show "prog_meets (case fst (or_MarkPublished (p_repository p) ctx (ev_ID ev) (p_owner p) w) of
      None \<Rightarrow> act (rt_count R m) (Ret None) | Some err \<Rightarrow> Ret (Some err)) G (nil_means (sent ev)) ?w'"
    by (auto simp: prog_meets_act nil_means_def dest: sent_stable split: option.split)
qed

lemma valid_meets:
  assumes "claimed ev w0" and "publishable C (p_topics p) ev topic env"
  shows "prog_meets (publishValid R C p ctx ev topic env) G (nil_means (sent ev)) w0"
proof -
  let ?send = "p_producer p (with_timeout ctx PublishTimeout) topic (lib_uuid_string C (ev_AggregateID ev))
     (ev_Payload ev) env"
  have sent: "G w (snd (?send w))" "inv w \<Longrightarrow> fst (?send w) = None \<Longrightarrow> sent ev (snd (?send w))" for w
    using produce_goes [OF assms(2) prod.collapse [symmetric]] by blast+
  have row: "claimed ev (snd (?send w))" if "G w0 w" for w
    using claimed_stable [OF claimed_stable [OF assms(1) that] sent(1)] .
  show ?thesis
    unfolding publishValid_def Let_def prog_meets_call [of "?send"]
  proof (intro allI impI conjI)
    fix w assume w: "G w0 w"
    show "G w (snd (?send w))" by (rule sent(1))
    show "prog_meets (case fst (?send w) of
        None \<Rightarrow> call (or_MarkPublished (p_repository p) (with_timeout ctx DatabaseTimeout) (ev_ID ev) (p_owner p))
          (\<lambda>marked. case marked of None \<Rightarrow> act (rt_count R (OutboxPublished ''success'')) (Ret None)
             | Some err \<Rightarrow> Ret (Some err))
      | Some err \<Rightarrow> call (rt_now R) (\<lambda>now.
          call (or_Release (p_repository p) (with_timeout ctx DatabaseTimeout) (ev_ID ev) (p_owner p)
            (err_string C err) (time_add now (exponentialBackoff (ev_Attempts ev) second minute)))
            (\<lambda>released. case released of
                None \<Rightarrow> act (rt_count R (OutboxPublished ''failed'')) (Ret (Some err))
              | Some releaseErr \<Rightarrow>
                  Ret (Some (wrapf ''publish and release outbox event: '' (errors_join (Some err) releaseErr))))))
      G (nil_means (sent ev)) (snd (?send w))"
      using mark_part [OF row [OF w] sent(2) [OF claimed_inv [OF claimed_stable [OF assms(1) w]]]]
      by (auto simp: prog_meets_call [of "rt_now R"] prog_meets_call [of "or_Release _ _ _ _ _ _"] prog_meets_act
          now_goes release_goes count_goes nil_means_def split: option.split)
  qed
qed

lemma publishOne_meets: "claimed ev w \<Longrightarrow> prog_meets (publishOne R C p ctx ev) G (nil_means (sent ev)) w"
  by (cases rule: publishOne_cases [of C p ev R ctx]) (simp_all add: valid_meets fail_meets)

lemma handler: "pool_handler (publishOne R C p) G claimed sent"
  by unfold_locales (simp_all add: refl trans sent_stable publishOne_meets)

lemma publishBatch_goes:
  assumes "inv w" and "publishBatch sched R C p ctx w = Some (r, w')"
  shows "G w w'"
proof -
  obtain cl w1 where 1: "or_Claim (p_repository p) (with_timeout ctx DatabaseTimeout) (p_owner p) (p_batchSize p)
      (p_lease p) w = (cl, w1)" by fastforce
  note c = claim_goes [OF assms(1) 1]
  show ?thesis
  proof (cases cl)
    case (Inl e)
    then show ?thesis using assms(2) c by (simp add: publishBatch_def 1)
  next
    case (Inr evs)
    let ?pc = "or_PendingCount (p_repository p) (with_timeout ctx DatabaseTimeout) w1"
    define w3 where "w3 = (case fst ?pc of Inr n \<Rightarrow> rt_count R (OutboxPending n) (snd ?pc) | Inl _ \<Rightarrow> snd ?pc)"
    have 3: "G w1 w3"
      using pending_goes [of w1] transpD [OF trans pending_goes count_goes, of w1]
      by (auto simp: w3_def split: sum.split)
    have cl3: "claimed ev w3" if "ev \<in> set evs" for ev
      using c Inr that claimed_stable [OF _ 3] by blast
    have w3: "G w w3" using c 3 transpD [OF trans] by blast
    have "w' = w3 \<or> (\<exists>errs. Process sched R ctx (p_workers p) evs (publishOne R C p) w3 = Some (errs, w'))"
      using assms(2) by (auto simp: publishBatch_def 1 Inr case_prod_unfold w3_def Let_def split: if_splits option.splits)
    then show ?thesis
      using pool_handler.Process_goes [OF handler _ cl3] w3 transpD [OF trans] by metis
  qed
qed

lemma Publisher_Run_goes:
  assumes "inv w" and "\<And>w. G w (snd (tick w))" and "Publisher_Run sched tick t R C p ctx w = Some (Some (r, w'))"
  shows "G w w'"
proof -
  let ?P = "\<lambda>sched' tick' t R' C' p' ctx' w y.
    tick' = tick \<and> R' = R \<and> C' = C \<and> p' = p \<and> inv w \<longrightarrow> (\<forall>r w'. y = Some (r, w') \<longrightarrow> G w w')"
  have "?P sched tick t R C p ctx w (Some (r, w'))"
  proof (rule Publisher_Run.raw_induct [where P = ?P, OF _ assms(3)], intro impI allI, elim conjE)
    fix run sched' tick' t R' C' p' ctx' w y r w'
    assume IH: "\<And>sched' tick' t R' C' p' ctx' w y. run sched' tick' t R' C' p' ctx' w = Some y \<Longrightarrow>
        ?P sched' tick' t R' C' p' ctx' w y"
      and body: "(case publishBatch (sched' t) R' C' p' ctx' w of None \<Rightarrow> Some None
        | Some (err, w1) \<Rightarrow> (case tick' w1 of (ticked, w2) \<Rightarrow>
            if ticked then run sched' tick' (Suc t) R' C' p' ctx' w2 else Some (Some (None, w2)))) = Some y"
      and eqs: "tick' = tick" "R' = R" "C' = C" "p' = p" and inv: "inv w" and y: "y = Some (r, w')"
    obtain b w1 where b: "publishBatch (sched' t) R C p ctx' w = Some (b, w1)"
      using body y by (auto simp: eqs split: option.splits)
    obtain ticked w2 where t: "tick w1 = (ticked, w2)" by fastforce
    have "G w w2"
      using publishBatch_goes [OF inv b] assms(2) [of w1] t transpD [OF trans] by auto
    show "G w w'"
    proof (cases ticked)
      case True
      then have "run sched' tick (Suc t) R C p ctx' w2 = Some y"
        using body b t by (simp add: eqs)
      then have "G w2 w'"
        using IH y inv_stable [OF inv \<open>G w w2\<close>] by blast
      with \<open>G w w2\<close> show ?thesis by (rule transpD [OF trans])
    next
      case False
      then show ?thesis using body b t y \<open>G w w2\<close> by (simp add: eqs)
    qed
  qed
  then show ?thesis using assms(1) by blast
qed

end

section \<open>PostgreSQL and Kafka satisfy the contract\<close>

definition postgres_outbox :: "pg \<Rightarrow> ('z server_scheme) outbox_repository" where
  "postgres_outbox P = \<lparr>or_Claim = (\<lambda>ctx. Claim P), or_MarkPublished = (\<lambda>ctx. MarkPublished P),
     or_Release = (\<lambda>ctx. Release P), or_MarkFailed = (\<lambda>ctx. MarkFailed P),
     or_PendingCount = (\<lambda>ctx. PendingCount)\<rparr>"

definition node_publisher :: "pg \<Rightarrow> ('c) codec_scheme \<Rightarrow> publisher_config \<Rightarrow> ('z node_scheme) publisher" where
  "node_publisher P C config = NewPublisher (postgres_outbox P) (Publish C broker_client) config"

definition event_record :: "('c) codec_scheme \<Rightarrow> outbox_event \<Rightarrow> string \<Rightarrow> envelope \<Rightarrow> krecord" where
  "event_record C ev topic envelope = \<lparr>rec_Topic = topic, rec_Key = lib_uuid_string C (ev_AggregateID ev),
     rec_Value = ev_Payload ev, rec_Headers = envelope_headers C envelope, rec_Partition = 0, rec_Offset = 0\<rparr>"

definition logged :: "('c) codec_scheme \<Rightarrow> topics \<Rightarrow> outbox_event \<Rightarrow> krecord list \<Rightarrow> bool" where
  "logged C t ev log \<longleftrightarrow>
     (\<exists>topic envelope. publishable C t ev topic envelope \<and> event_record C ev topic envelope \<in> set log)"

text \<open>
  The invariant of the whole: the outbox is in order, what is PUBLISHED is in Kafka's log under its
  topic and key with its stored payload, and what is FAILED could not have been published.
\<close>

definition node_ok :: "('c) codec_scheme \<Rightarrow> topics \<Rightarrow> 'z node_scheme \<Rightarrow> bool" where
  "node_ok C t w \<longleftrightarrow> outbox_ok (sv_db w)
     \<and> (\<forall>r \<in> set (outbox_events (sv_db w)).
          (ob_status r = OB_PUBLISHED \<longrightarrow> logged C t (event_of_row r) (nd_log w))
          \<and> (ob_status r = OB_FAILED \<longrightarrow> (\<nexists>topic envelope. publishable C t (event_of_row r) topic envelope)))"

definition publishes :: "('c) codec_scheme \<Rightarrow> topics \<Rightarrow> 'z node_scheme \<Rightarrow> 'z node_scheme \<Rightarrow> bool" where
  "publishes C t w w' \<longleftrightarrow> (node_ok C t w \<longrightarrow> node_ok C t w' \<and> set (nd_log w) \<subseteq> set (nd_log w')
     \<and> (\<forall>i r. row_of (sv_db w) i = Some r \<longrightarrow> (\<exists>r'. row_of (sv_db w') i = Some r' \<and> evolves r r')))"

definition same_event :: "outbox_event \<Rightarrow> outbox_row \<Rightarrow> bool" where
  "same_event ev r \<longleftrightarrow> ev_ID ev = ob_id r \<and> ev_AggregateID ev = ob_aggregate_id r
     \<and> ev_EventType ev = ob_event_type r \<and> ev_Payload ev = ob_payload r"

definition in_outbox :: "('c) codec_scheme \<Rightarrow> topics \<Rightarrow> outbox_event \<Rightarrow> 'z node_scheme \<Rightarrow> bool" where
  "in_outbox C t ev w \<longleftrightarrow> node_ok C t w \<and> (\<exists>r. row_of (sv_db w) (ev_ID ev) = Some r \<and> same_event ev r)"

definition in_log :: "('c) codec_scheme \<Rightarrow> topics \<Rightarrow> outbox_event \<Rightarrow> 'z node_scheme \<Rightarrow> bool" where
  "in_log C t ev w \<longleftrightarrow> node_ok C t w \<and> logged C t ev (nd_log w)"

lemma publishes_refl: "publishes C t w w"
  by (auto simp: publishes_def evolves_def)

lemma publishes_trans: "publishes C t w w' \<Longrightarrow> publishes C t w' w'' \<Longrightarrow> publishes C t w w''"
  unfolding publishes_def using evolves_trans by (metis order_trans)

lemma publishable_same: "same_event ev r \<Longrightarrow> publishable C t ev = publishable C t (event_of_row r)"
  by (auto simp: publishable_def same_event_def event_of_row_def fun_eq_iff)

lemma logged_same: "same_event ev r \<Longrightarrow> logged C t ev log = logged C t (event_of_row r) log"
  unfolding logged_def using publishable_same [of ev r C t]
  by (auto simp: event_record_def same_event_def event_of_row_def)

lemma same_event_evolves: "evolves r r' \<Longrightarrow> same_event ev r \<Longrightarrow> same_event ev r'"
  by (auto simp: same_event_def evolves_def)

lemma same_event_of_row: "same_event (event_of_row r) r"
  by (simp add: same_event_def event_of_row_def)

lemma logged_mono: "logged C t ev log \<Longrightarrow> set log \<subseteq> set log' \<Longrightarrow> logged C t ev log'"
  by (auto simp: logged_def)

text \<open>Statements of the outbox leave the broker alone.\<close>

lemma next_reply_log: "next_reply w = (r, w') \<Longrightarrow> nd_log w' = nd_log w"
  by (cases "sv_plan w") (auto simp: next_reply_def)

lemma query_log: "nd_log (snd (query stmt w)) = nd_log w"
proof -
  obtain r w' where n: "next_reply w = (r, w')" by fastforce
  have "nd_log (w'\<lparr>sv_db := d\<rparr>) = nd_log w'" for d by simp
  then show ?thesis
    using next_reply_log [OF n] by (auto simp: query_def n split: reply.split sum.split)
qed

lemma event_of_row_kept [simp]:
  "event_of_row (published_row now r) = event_of_row r" "event_of_row (failed_row m r) = event_of_row r"
  by (simp_all add: event_of_row_def published_row_def failed_row_def)

lemma exec_owned_log: "nd_log (snd (exec_owned what stmt w)) = nd_log w"
  using query_log [of stmt w] by (auto simp: exec_owned_def split: prod.split sum.split)

lemma Claim_log: "nd_log (snd (Claim P owner limit lease w)) = nd_log w"
  by (auto simp: Claim_def split: prod.splits sum.splits) (metis query_log snd_conv)+

lemma run_op_log: "nd_log (run_op P op w) = nd_log w"
  by (cases op) (simp_all add: run_op_def MarkPublished_def Release_def MarkFailed_def exec_owned_log Claim_log query_log)

text \<open>
  One statement of a publisher keeps everything, provided that what it marks published is in the log and
  what it marks failed cannot be published.
\<close>

lemma op_publishes:
  assumes "\<And>eid agg ty payload created. op \<noteq> OpInsert eid agg ty payload created"
    and "\<And>i owner r. op = OpPublished i owner \<Longrightarrow> node_ok C t w \<Longrightarrow> row_of (sv_db w) i = Some r \<Longrightarrow>
      logged C t (event_of_row r) (nd_log w)"
    and "\<And>i owner m r. op = OpFailed i owner m \<Longrightarrow> node_ok C t w \<Longrightarrow> row_of (sv_db w) i = Some r \<Longrightarrow>
      \<nexists>topic envelope. publishable C t (event_of_row r) topic envelope"
  shows "publishes C t w (run_op P op w)"
  unfolding publishes_def
proof
  assume ok: "node_ok C t w"
  let ?w' = "run_op P op w"
  have ob: "outbox_ok (sv_db w)" and db: "db_ok (sv_db w)"
    using ok by (simp_all add: node_ok_def outbox_ok_def)
  have row: "\<exists>r'. row_of (sv_db ?w') i = Some r' \<and> row_step P (sv_now w) op r r' \<and> evolves r r'"
    if "row_of (sv_db w) i = Some r" for i r
    using run_op_refines [OF db that, of P op] row_step_evolves outbox_ok_row [OF ob that] by blast
  have "(ob_status r' = OB_PUBLISHED \<longrightarrow> logged C t (event_of_row r') (nd_log w))
      \<and> (ob_status r' = OB_FAILED \<longrightarrow> (\<nexists>topic envelope. publishable C t (event_of_row r') topic envelope))"
    if r': "r' \<in> set (outbox_events (sv_db ?w'))" for r'
  proof -
    have "ob_id r' \<in> set (map ob_id (outbox_events (sv_db ?w')))" using r' by simp
    then have "ob_id r' \<in> set (map ob_id (outbox_events (sv_db w)))"
      using run_op_ids [of op P w] assms(1) by simp
    then obtain r where r: "row_of (sv_db w) (ob_id r') = Some r"
      by (metis not_None_eq row_of_None)
    then have step: "row_step P (sv_now w) op r r'"
      using row [OF r] row_of_mem [OF run_op_keeps [OF db] r'] by auto
    have old: "(ob_status r = OB_PUBLISHED \<longrightarrow> logged C t (event_of_row r) (nd_log w))
      \<and> (ob_status r = OB_FAILED \<longrightarrow> (\<nexists>topic envelope. publishable C t (event_of_row r) topic envelope))"
      and id: "ob_id r = ob_id r'"
      using ok row_of_Some [OF r] by (auto simp: node_ok_def)
    from step show ?thesis
    proof (cases rule: row_step.cases)
      case row_same
      then show ?thesis using old by simp
    next
      case (row_claim owner limit lease)
      then show ?thesis by (simp add: claim_row_def)
    next
      case (row_publish i owner)
      have "i = ob_id r'" using row_publish(3) id by (simp add: owned_def)
      then have "logged C t (event_of_row r) (nd_log w)"
        using assms(2) [OF row_publish(1) ok] r by blast
      then show ?thesis
        unfolding row_publish(2) by simp (simp add: published_row_def)
    next
      case (row_release i owner m u)
      then show ?thesis by (simp add: released_row_def)
    next
      case (row_fail i owner m)
      have "i = ob_id r'" using row_fail(3) id by (simp add: owned_def)
      then have "\<nexists>topic envelope. publishable C t (event_of_row r) topic envelope"
        using assms(3) [OF row_fail(1) ok] r by blast
      then show ?thesis
        unfolding row_fail(2) by simp (simp add: failed_row_def)
    qed
  qed
  then show "node_ok C t ?w' \<and> set (nd_log w) \<subseteq> set (nd_log ?w')
     \<and> (\<forall>i r. row_of (sv_db w) i = Some r \<longrightarrow> (\<exists>r'. row_of (sv_db ?w') i = Some r' \<and> evolves r r'))"
    using row run_op_outbox_ok [OF ob] by (auto simp: node_ok_def run_op_log) blast
qed

lemma read_only_publishes:
  "sv_db w' = sv_db w \<Longrightarrow> nd_log w' = nd_log w \<Longrightarrow> publishes C t w w'"
  by (auto simp: publishes_def node_ok_def evolves_def)

lemma PendingCount_db: "sv_db (snd (PendingCount w)) = sv_db w"
  unfolding PendingCount_def
  by (cases rule: query_cases [OF prod.collapse [symmetric],
        where stmt = "\<lambda>d. Inr (of_nat (length (filter pending_row (outbox_events d))), d)" and s = w]) auto

lemma PendingCount_log: "nd_log (snd (PendingCount w)) = nd_log w"
  unfolding PendingCount_def by (rule query_log)

lemma more_log_publishes:
  assumes "sv_db w' = sv_db w" and "set (nd_log w) \<subseteq> set (nd_log w')"
  shows "publishes C t w w'"
  using assms by (auto simp: publishes_def node_ok_def evolves_def intro: logged_mono)

lemma Claim_events:
  assumes "Claim P owner limit lease w = (Inr evs, w')" and "node_ok C t w" and "ev \<in> set evs"
  shows "\<exists>r. row_of (sv_db w') (ev_ID ev) = Some r \<and> same_event ev r"
proof -
  have "db_ok (sv_db w)" using assms(2) by (simp add: node_ok_def outbox_ok_def)
  then obtain r where "row_of (sv_db w') (ev_ID ev) = Some r" "ev = event_of_row r"
    using Claim_event [OF assms(1) _ assms(3)] by metis
  then show ?thesis using same_event_of_row by blast
qed

lemma produce_publishes:
  assumes "publishable C t ev topic env"
    and "Publish C broker_client ctx topic (lib_uuid_string C (ev_AggregateID ev)) (ev_Payload ev) env w = (s, w')"
  shows "publishes C t w w' \<and> (node_ok C t w \<and> s = None \<longrightarrow> in_log C t ev w')"
proof -
  obtain r w1 where b: "broker_produce (event_record C ev topic env) w = (r, w1)" by fastforce
  note log = broker_produce_log [OF b]
  have w1: "w' = w1" "s = None \<longrightarrow> r = None"
    using assms(2) b by (auto simp: Publish_def event_record_def split: option.splits)
  have "publishes C t w w1"
    using log by (intro more_log_publishes) auto
  moreover have "logged C t ev (nd_log w1)" if "r = None"
    using log that assms(1) by (auto simp: logged_def)
  ultimately show ?thesis
    using w1 by (auto simp: in_log_def publishes_def)
qed

lemma claim_publishes:
  "Claim P owner limit lease w = (r, w') \<Longrightarrow> publishes C t w w'"
  using op_publishes [where op = "OpClaim owner limit lease" and P = P and w = w and C = C and t = t]
  by (simp add: run_op_def)

lemma mark_publishes:
  "in_outbox C t ev w \<Longrightarrow> in_log C t ev w \<Longrightarrow> publishes C t w (snd (MarkPublished P (ev_ID ev) owner w))"
  using op_publishes [where op = "OpPublished (ev_ID ev) owner" and P = P and w = w and C = C and t = t]
    logged_same [of ev _ C t "nd_log w"]
  by (force simp: run_op_def in_outbox_def in_log_def)

lemma release_publishes: "publishes C t w (snd (Release P i owner message u w))"
  using op_publishes [where op = "OpRelease i owner message u" and P = P and w = w and C = C and t = t]
  by (simp add: run_op_def)

lemma reject_publishes:
  "in_outbox C t ev w \<Longrightarrow> \<nexists>topic env. publishable C t ev topic env \<Longrightarrow>
     publishes C t w (snd (MarkFailed P (ev_ID ev) owner message w))"
  using op_publishes [where op = "OpFailed (ev_ID ev) owner message" and P = P and w = w and C = C and t = t]
    publishable_same [of ev _ C t]
  by (force simp: run_op_def in_outbox_def)

lemma in_outbox_stable: "in_outbox C t ev w \<Longrightarrow> publishes C t w w' \<Longrightarrow> in_outbox C t ev w'"
  unfolding in_outbox_def publishes_def using same_event_evolves by blast

lemma in_log_stable: "in_log C t ev w \<Longrightarrow> publishes C t w w' \<Longrightarrow> in_log C t ev w'"
  unfolding in_log_def publishes_def using logged_mono by blast

definition config_topics :: "publisher_config \<Rightarrow> topics" where
  "config_topics config = \<lparr>topic_OrderCreated = pc_OrderCreatedTopic config,
     topic_OrderStatusChanged = pc_OrderStatusChangedTopic config\<rparr>"

lemma node_publisher_simps [simp]:
  "p_repository (node_publisher P C config) = postgres_outbox P"
  "p_producer (node_publisher P C config) = Publish C broker_client"
  "p_topics (node_publisher P C config) = config_topics config"
  "p_workers (node_publisher P C config) = pc_Workers config"
  "p_owner (node_publisher P C config) = pc_Owner config"
  by (simp_all add: node_publisher_def NewPublisher_def config_topics_def)

lemma postgres_outbox_simps [simp]:
  "or_Claim (postgres_outbox P) ctx = Claim P"
  "or_MarkPublished (postgres_outbox P) ctx = MarkPublished P"
  "or_Release (postgres_outbox P) ctx = Release P"
  "or_MarkFailed (postgres_outbox P) ctx = MarkFailed P"
  "or_PendingCount (postgres_outbox P) ctx = PendingCount"
  by (simp_all add: postgres_outbox_def)

interpretation pg_kafka: outbox_contract "node_publisher P C config" host_runtime C
    "node_ok C (config_topics config)"
    "publishes C (config_topics config)"
    "in_outbox C (config_topics config)"
    "in_log C (config_topics config)"
  for P and C :: "('c) codec_scheme" and config
proof (unfold_locales, goal_cases)
  case 1 show ?case by (rule reflpI) (rule publishes_refl)
next
  case 2 show ?case by (rule transpI) (rule publishes_trans)
next
  case (3 w w')
  then show ?case by (simp add: publishes_def)
next
  case (4 ev w w')
  then show ?case by (rule in_outbox_stable)
next
  case (5 ev w)
  then show ?case by (simp add: in_outbox_def)
next
  case (6 ev w w')
  then show ?case by (rule in_log_stable)
next
  case (9 w ctx r w')
  then show ?case
    using claim_publishes [of P _ _ _ w r w' C] Claim_events [of P _ _ _ w _ w' C]
    by (auto simp: in_outbox_def publishes_def)
next
  case (11 ev topic env ctx w s w')
  then show ?case using produce_publishes [OF 11(1)] by simp
qed (simp_all add: read_only_publishes PendingCount_db PendingCount_log release_publishes mark_publishes
    reject_publishes)

interpretation publish_pool: pool_handler "publishOne host_runtime C (node_publisher P C config)"
    "publishes C (config_topics config)" "in_outbox C (config_topics config)" "in_log C (config_topics config)"
  for P and C :: "('c) codec_scheme" and config
  by (rule pg_kafka.handler)

section \<open>The loop over this machine\<close>

text \<open>The batches of this machine take no time: its calls answer at once and move neither clock nor context.\<close>

definition same_clock :: "'z host_scheme \<Rightarrow> 'z host_scheme \<Rightarrow> bool" where
  "same_clock w w' \<longleftrightarrow> h_clock w' = h_clock w \<and> h_cancel_at w' = h_cancel_at w"

lemma same_clock_refl: "same_clock w w"
  by (simp add: same_clock_def)

lemma same_clock_trans: "same_clock w w' \<Longrightarrow> same_clock w' w'' \<Longrightarrow> same_clock w w''"
  by (simp add: same_clock_def)

lemma query_same_clock: "query stmt (w :: 'z host_scheme) = (x, w') \<Longrightarrow> same_clock w w'"
  unfolding same_clock_def by (intro conjI; rule query_frame; simp)

lemma exec_owned_same_clock: "same_clock w (snd (exec_owned what stmt (w :: 'z host_scheme)))"
  by (auto simp: exec_owned_def dest!: query_same_clock split: prod.split sum.split)

lemma Claim_same_clock: "Claim P owner limit lease (w :: 'z host_scheme) = (r, w') \<Longrightarrow> same_clock w w'"
  by (auto simp: Claim_def dest!: query_same_clock intro: same_clock_trans split: prod.splits sum.splits)

lemma Publish_same_clock: "Publish C broker_client ctx topic k v env w = (s, w') \<Longrightarrow> same_clock w w'"
  by (auto simp: same_clock_def Publish_def Let_def broker_produce_def split: list.splits reply.splits)

interpretation publisher_clock: outbox_contract "node_publisher P C config" host_runtime C
    "\<lambda>w. True" same_clock "\<lambda>ev w. True" "\<lambda>ev w. True"
  for P and C :: "('c) codec_scheme" and config
  by unfold_locales
     (auto simp: reflp_def transp_def same_clock_refl MarkPublished_def Release_def MarkFailed_def PendingCount_def
       exec_owned_same_clock query_same_clock [OF prod.collapse [symmetric]] dest: Claim_same_clock Publish_same_clock
       intro: same_clock_trans, simp add: same_clock_def)

text \<open>
  The select of \<open>Run\<close>: the ticker fires after the poll interval unless the context ends first. \<open>others\<close> is
  what the rest of the system does to the tables and to Kafka in the meantime.
\<close>

definition wait_tick :: "duration \<Rightarrow> ('z host_scheme \<Rightarrow> 'z host_scheme) \<Rightarrow> 'z host_scheme \<Rightarrow> bool \<times> 'z host_scheme" where
  "wait_tick poll others w = (case host_timer poll w of (ticked, w1) \<Rightarrow> (ticked, others w1))"

lemma publishBatch_Some:
  assumes "0 < sint (pc_Workers config)"
  obtains r w' where "publishBatch sched host_runtime C (node_publisher P C config) ctx w = Some (r, w')"
proof -
  have "\<exists>x. publishBatch sched host_runtime C (node_publisher P C config) ctx w = Some x"
    using assms unfolding publishBatch_def Let_def
    by (auto split: prod.split sum.split option.split dest: Process_returns)
  then show thesis using that by auto
qed

lemma publish_loop_returns:
  fixes w :: "'z node_scheme"
  assumes "0 < sint (pc_Workers config)" and "0 < sint poll" and others: "\<And>w. same_clock w (others w)" and "h_cancel_at w = Some c"
  shows "\<exists>w'. Publisher_Run sched (wait_tick poll others) t host_runtime C (node_publisher P C config) ctx w = Some (Some (None, w'))
    \<and> c \<le> h_clock w'"
  using assms(4)
proof (induction "nat (c - h_clock w)" arbitrary: w t rule: less_induct)
  case less
  let ?p = "node_publisher P C config"
  obtain err w1 where b: "publishBatch (sched t) host_runtime C ?p ctx w = Some (err, w1)"
    by (rule publishBatch_Some [OF assms(1)])
  have w1: "h_clock w1 = h_clock w" "h_cancel_at w1 = Some c"
    using publisher_clock.publishBatch_goes [OF TrueI b] less.prems by (simp_all add: same_clock_def)
  let ?w2 = "w1\<lparr>h_clock := h_clock w1 + sint poll\<rparr>"
  show ?case
  proof (cases "c \<le> h_clock w1 + sint poll")
    case True
    then have "wait_tick poll others w1 = (False, others (w1\<lparr>h_clock := max (h_clock w1) c\<rparr>))"
      using w1 assms(2) by (simp add: wait_tick_def host_timer_def Let_def canceled_by_def)
    moreover have "c \<le> h_clock (others (w1\<lparr>h_clock := max (h_clock w1) c\<rparr>))"
      using others [of "w1\<lparr>h_clock := max (h_clock w1) c\<rparr>"] by (simp add: same_clock_def)
    ultimately show ?thesis by (subst Publisher_Run.simps) (simp add: b)
  next
    case False
    then have tick: "wait_tick poll others w1 = (True, others ?w2)"
      using w1 assms(2) by (simp add: wait_tick_def host_timer_def Let_def canceled_by_def)
    have "h_clock (others ?w2) = h_clock w + sint poll" "h_cancel_at (others ?w2) = Some c"
      using others [of ?w2] w1 by (simp_all add: same_clock_def)
    then have "\<exists>w'. Publisher_Run sched (wait_tick poll others) (Suc t) host_runtime C ?p ctx (others ?w2) = Some (Some (None, w'))
        \<and> c \<le> h_clock w'"
      using False w1 assms(2) by (intro less.hyps) auto
    then show ?thesis by (subst Publisher_Run.simps) (simp add: b tick)
  qed
qed

section \<open>The delay is exact for the values in use\<close>

lemma bit_length_le: "n < 2 ^ k \<Longrightarrow> bit_length n \<le> k"
proof (induction k arbitrary: n)
  case (Suc k)
  have "n div 2 < 2 ^ k" using Suc.prems by (simp add: less_mult_imp_div_less)
  then show ?case using Suc.IH by (subst bit_length.simps) simp
qed (simp add: bit_length.simps)

lemma f64_round_exact: "\<bar>n\<bar> < 2 ^ 53 \<Longrightarrow> f64_round n = n"
proof -
  assume "\<bar>n\<bar> < 2 ^ 53"
  then have "nat \<bar>n\<bar> < 2 ^ 53" by (simp add: nat_less_iff)
  then have "bit_length (nat \<bar>n\<bar>) - 53 = 0" using bit_length_le [of "nat \<bar>n\<bar>" 53] by simp
  then show ?thesis by (simp add: f64_round_def Let_def sgn_mult_abs)
qed

definition backoff_exponent :: "int64 \<Rightarrow> nat" where
  "backoff_exponent attempt = nat (min (max (sint attempt - 1) 0) 10)"

lemma backoff_exponent_word:
  assumes "- (2 ^ 63) < sint attempt"
  shows "nat (sint (smin (smax (attempt - 1) 0) 10)) = backoff_exponent attempt"
proof -
  have "sint (attempt - 1) = sint attempt - 1"
    using assms sint_bounds64 [of attempt] by (subst sint_diff64) simp_all
  then show ?thesis by (simp add: backoff_exponent_def sint_smin sint_smax)
qed

lemma sint_duration_of_float:
  assumes "- (2 ^ 63) \<le> x" and "x < 2 ^ 63"
  shows "sint (duration_of_float x) = x"
  unfolding duration_of_float_def using assms sint_of_int64 [OF assms] by presburger

lemma exponentialBackoff_seconds:
  assumes "- (2 ^ 63) < sint attempt"
  shows "sint (exponentialBackoff attempt second minute) = min (10 ^ 9 * 2 ^ backoff_exponent attempt) (60 * 10 ^ 9)"
proof -
  define x :: int where "x = 2 ^ backoff_exponent attempt"
  have "backoff_exponent attempt \<le> 10" by (simp add: backoff_exponent_def)
  then have "x \<le> 2 ^ 10" unfolding x_def by (intro power_increasing) simp_all
  moreover have "0 < x" by (simp add: x_def)
  ultimately have "- (2 ^ 63) \<le> 1000000000 * x" and "1000000000 * x < 2 ^ 63" by simp_all
  then have "sint (duration_of_float (1000000000 * x)) = 1000000000 * x"
    by (rule sint_duration_of_float)
  then show ?thesis
    by (simp add: exponentialBackoff_def Let_def backoff_exponent_word [OF assms, simplified sint_smin, simplified]
        f64_round_exact sint_smin x_def)
qed

section \<open>Without failures\<close>

lemma exec_owned_quiet:
  assumes "sv_plan s = []" and "db_ok (sv_db s)" and "row_of (sv_db s) i = Some r" and "owned i owner r"
    and "stmt (sv_db s) = update_outbox P (owned i owner) upd (sv_db s)"
    and "\<And>r. ob_id (upd r) = ob_id r" and "outbox_row_ok (upd r)"
  obtains d where "exec_owned what stmt s = (None, s\<lparr>sv_db := d\<rparr>)" "row_of d i = Some (upd r)" "db_ok d"
proof -
  have one: "filter (owned i owner) (outbox_events (sv_db s)) = [r]"
    using filter_owned [OF assms(2), of i owner] assms(3,4) by simp
  have "outbox_row_ok q" if "q \<in> set (outbox_events (sv_db s))" for q
    using that assms(2) by (auto simp: db_ok_def list_all_iff)
  moreover have "q = r" if "q \<in> set (outbox_events (sv_db s))" "owned i owner q" for q
  proof -
    have "q \<in> set (filter (owned i owner) (outbox_events (sv_db s)))" using that by simp
    then show ?thesis unfolding one by simp
  qed
  ultimately have ok: "list_all outbox_row_ok
      (map (\<lambda>r. if owned i owner r then upd r else r) (outbox_events (sv_db s)))"
    using assms(7) by (auto simp: list_all_iff)
  let ?d = "(sv_db s)\<lparr>outbox_events := map (\<lambda>r. if owned i owner r then upd r else r) (outbox_events (sv_db s))\<rparr>"
  have st: "update_outbox P (owned i owner) upd (sv_db s) = Inr (1, ?d)"
    using ok one by (simp add: update_outbox_def)
  have "query stmt s = (Inr 1, s\<lparr>sv_db := ?d\<rparr>)"
    using assms(1,5) st by (intro query_quiet) auto
  then have "exec_owned what stmt s = (None, s\<lparr>sv_db := ?d\<rparr>)"
    by (simp add: exec_owned_def)
  moreover have "row_of ?d i = Some (upd r)"
    using row_of_update [OF assms(6) st, of i] assms(3,4) by simp
  moreover have "db_ok ?d"
    using keepsD [OF update_outbox_keeps [OF assms(6)] assms(2) st] .
  ultimately show thesis using that by blast
qed

lemma owned_row_facts:
  assumes "db_ok d" and "row_of d i = Some r" and "owned i owner r"
  shows "outbox_row_ok (published_row now r)" and "outbox_row_ok (released_row m u r)"
    and "outbox_row_ok (failed_row m r)"
proof -
  have "outbox_row_ok r"
    using assms(1,2) by (auto simp: db_ok_def list_all_iff dest: row_of_Some)
  then show "outbox_row_ok (published_row now r)" and "outbox_row_ok (released_row m u r)"
    and "outbox_row_ok (failed_row m r)"
    using assms(3)
    by (auto simp: outbox_row_ok_def owned_def published_row_def released_row_def failed_row_def)
qed

lemma query_metrics: "h_metrics (snd (query stmt w)) = h_metrics w"
proof -
  obtain r w' where n: "next_reply w = (r, w')" by fastforce
  then have "h_metrics w' = h_metrics w"
    by (cases "sv_plan w") (auto simp: next_reply_def)
  then show ?thesis by (auto simp: query_def n split: reply.split sum.split)
qed

lemma exec_owned_metrics: "h_metrics (snd (exec_owned what stmt w)) = h_metrics w"
  using query_metrics [of stmt w] by (auto simp: exec_owned_def split: prod.split sum.split)

lemma Publish_frame:
  assumes "Publish C broker_client ctx topic k v env w = (s, w')"
  shows "sv_db w' = sv_db w \<and> sv_now w' = sv_now w \<and> sv_plan w' = sv_plan w \<and> h_metrics w' = h_metrics w
    \<and> (s = None \<longrightarrow> nd_log w' = nd_log w @ [\<lparr>rec_Topic = topic, rec_Key = k, rec_Value = v,
         rec_Headers = envelope_headers C env, rec_Partition = 0, rec_Offset = 0\<rparr>])"
  using assms by (auto simp: Publish_def Let_def broker_produce_def split: list.splits reply.splits)

section \<open>Properties\<close>

definition publish_config :: publisher_config where
  "publish_config = \<lparr>pc_Owner = ''a'', pc_OrderCreatedTopic = ''created'', pc_OrderStatusChangedTopic = ''changed'',
     pc_Workers = 2, pc_BatchSize = 1, pc_PollInterval = second, pc_LeaseDuration = sample_lease\<rparr>"

definition publish_envelope :: envelope where
  "publish_envelope = \<lparr>EventID = 12, EventType = ''OrderCreated'', AggregateID = 1, env_RequestID = ''req-1'',
     OccurredAt = 4000600, Version = 1, Payload = ''payload''\<rparr>"

abbreviation publish_codec :: codec where
  "publish_codec \<equiv> sample_codec publish_envelope (created_payload_of sample_order)"

text \<open>A node whose outbox holds one event, leased by publisher a and ready to go.\<close>

definition leased_node :: "reply list \<Rightarrow> node" where
  "leased_node answers = sample_node (outbox_db\<lparr>outbox_events := [claimed_row]\<rparr>) [] answers"

lemma leased_row: "row_of (sv_db (leased_node answers)) 12 = Some claimed_row" "owned 12 ''a'' claimed_row"
  "db_ok (sv_db (leased_node answers))"
  by (simp_all add: leased_node_def row_of_def claimed_row_def claim_row_def sample_row_def fresh_outbox_row_def
      owned_def db_ok_def outbox_db_def outbox_row_ok_def)

lemma claimed_event: "event_of_row claimed_row = \<lparr>ev_ID = 12, ev_AggregateID = 1, ev_EventType = ''OrderCreated'',
    ev_Payload = ''envelope'', ev_Attempts = 1, ev_CreatedAt = 2000000\<rparr>"
  by (simp add: event_of_row_def claimed_row_def claim_row_def sample_row_def fresh_outbox_row_def)

lemma publish_envelope_ok: "envelope_ok publish_envelope"
  by (simp add: envelope_ok_def publish_envelope_def uuid_nil_def ascii_simps)

lemma sample_publishable: "publishable publish_codec (config_topics publish_config) (event_of_row claimed_row) ''created'' publish_envelope"
  by (simp add: publishable_def publish_envelope_ok claimed_event Topics_For_def config_topics_def)
     (simp add: publish_config_def publish_envelope_def)

text \<open>
  C7. The publisher keeps its word, whatever fails, however its workers interleave: with at least one
  worker a batch always returns, and afterwards still every event marked PUBLISHED is in Kafka's log under
  its topic and key with its stored payload, every event given up as FAILED really could not be published,
  no record left the log, and every row only moved forward in its life.
\<close>
theorem publishBatch_keeps_outbox_and_log:
  assumes "node_ok C (config_topics config) w" and "0 < sint (pc_Workers config)"
  shows "\<exists>r w'. publishBatch sched host_runtime C (node_publisher P C config) ctx w = Some (r, w')
    \<and> node_ok C (config_topics config) w' \<and> set (nd_log w) \<subseteq> set (nd_log w')
    \<and> (\<forall>i q. row_of (sv_db w) i = Some q \<longrightarrow> (\<exists>q'. row_of (sv_db w') i = Some q' \<and> evolves q q'))"
proof -
  obtain r w' where b: "publishBatch sched host_runtime C (node_publisher P C config) ctx w = Some (r, w')"
    by (rule publishBatch_Some [OF assms(2)])
  show ?thesis
    using pg_kafka.publishBatch_goes [OF assms(1) b] assms(1) b by (auto simp: publishes_def)
qed

theorem publishBatch_keeps_outbox_and_log_witness:
  "\<exists>r w'. publishBatch (\<lambda>t. 5 * t) host_runtime publish_codec (node_publisher sample_pg publish_codec publish_config)
      background (sample_node outbox_db [Done, Lost ctx_canceled] [Applied ctx_canceled]) = Some (r, w')
    \<and> node_ok publish_codec (config_topics publish_config) w'"
proof -
  have "node_ok publish_codec (config_topics publish_config) (sample_node outbox_db [Done, Lost ctx_canceled] [Applied ctx_canceled])"
    using outbox_db_ok by (simp add: node_ok_def outbox_ok_def)
      (simp add: outbox_db_def lease_ok_def sample_row_def fresh_outbox_row_def)
  moreover have "0 < sint (pc_Workers publish_config)" by (simp add: publish_config_def)
  ultimately show ?thesis using publishBatch_keeps_outbox_and_log by blast
qed

text \<open>
  C21. The loop: with at least one worker and a poll interval, \<open>Run\<close> returns once its context ends, not before,
  and with nil, however its batches fail; and everything the batches keep holds after any number of them:
  what is marked PUBLISHED is in Kafka's log, what is given up could not be published, no record leaves the
  log and every row only moves forward in its life. Between two batches the rest of the system may change
  tables and log in every way that keeps this too.
\<close>
theorem Publisher_Run_keeps_outbox_and_log:
  fixes w :: "'z node_scheme"
  assumes "0 < sint (pc_Workers config)" and "0 < sint (pc_PollInterval config)" and "h_cancel_at w = Some c"
    and "\<And>w. publishes C (config_topics config) w (others w) \<and> same_clock w (others w)"
    and "node_ok C (config_topics config) w"
  shows "\<exists>w'. Publisher_Run sched (wait_tick (pc_PollInterval config) others) t host_runtime C (node_publisher P C config) ctx w
      = Some (Some (None, w'))
    \<and> c \<le> h_clock w' \<and> node_ok C (config_topics config) w' \<and> set (nd_log w) \<subseteq> set (nd_log w')
    \<and> (\<forall>i q. row_of (sv_db w) i = Some q \<longrightarrow> (\<exists>q'. row_of (sv_db w') i = Some q' \<and> evolves q q'))"
proof -
  have "publishes C (config_topics config) w (snd (wait_tick (pc_PollInterval config) others w))" for w
  proof -
    obtain b w1 where timer: "host_timer (pc_PollInterval config) w = (b, w1)" by fastforce
    have "publishes C (config_topics config) w w1"
      using timer by (intro read_only_publishes) (auto simp: host_timer_def Let_def split: if_splits)
    then have "publishes C (config_topics config) w (others w1)" using assms(4) publishes_trans by blast
    then show ?thesis by (simp add: wait_tick_def timer)
  qed
  then have "publishes C (config_topics config) w w'"
    if "Publisher_Run sched (wait_tick (pc_PollInterval config) others) t host_runtime C (node_publisher P C config) ctx w
      = Some (Some (None, w'))" for w'
    using pg_kafka.Publisher_Run_goes [OF assms(5) _ that] by blast
  moreover obtain w' where "Publisher_Run sched (wait_tick (pc_PollInterval config) others) t host_runtime C
      (node_publisher P C config) ctx w = Some (Some (None, w'))" "c \<le> h_clock w'"
    using publish_loop_returns [OF assms(1,2) conjunct2 [OF assms(4)] assms(3)] by blast
  ultimately show ?thesis using assms(5) unfolding publishes_def by blast
qed

theorem Publisher_Run_keeps_outbox_and_log_witness:
  "\<exists>w'. Publisher_Run (\<lambda>t u. u) (wait_tick (pc_PollInterval publish_config) (\<lambda>w. w)) 0 host_runtime publish_codec
      (node_publisher sample_pg publish_codec publish_config) background ((leased_node [Done])\<lparr>h_cancel_at := Some 9000000000\<rparr>)
      = Some (Some (None, w'))
    \<and> 9000000000 \<le> h_clock w' \<and> node_ok publish_codec (config_topics publish_config) w'"
proof -
  let ?w = "(leased_node [Done])\<lparr>h_cancel_at := Some 9000000000\<rparr>"
  have ok: "node_ok publish_codec (config_topics publish_config) ?w"
    using leased_row(3) [of "[Done]"]
    by (simp add: node_ok_def outbox_ok_def)
       (simp add: leased_node_def lease_ok_def claimed_row_def claim_row_def sample_row_def fresh_outbox_row_def)
  have "0 < sint (pc_Workers publish_config)" "0 < sint (pc_PollInterval publish_config)" "h_cancel_at ?w = Some 9000000000"
    by (simp_all add: publish_config_def second_def)
  from Publisher_Run_keeps_outbox_and_log [OF this _ ok, of "\<lambda>w. w" "\<lambda>t u. u" 0 sample_pg background] show ?thesis
    by (auto simp: publishes_refl same_clock_refl)
qed

text \<open>
  C32. The delay before a failed event is due again starts at one second for the first attempt, doubles
  with every attempt and is capped at a minute; it never wraps, for any attempt count that fits the column.
\<close>
theorem exponentialBackoff_doubles_to_a_minute:
  assumes "1 \<le> sint attempt"
  shows "sint (exponentialBackoff attempt second minute)
    = (if sint attempt \<le> 6 then 10 ^ 9 * 2 ^ nat (sint attempt - 1) else 60 * 10 ^ 9)"
proof -
  have "sint (exponentialBackoff attempt second minute)
      = min (10 ^ 9 * 2 ^ backoff_exponent attempt) (60 * 10 ^ 9)"
    using assms by (intro exponentialBackoff_seconds) simp
  moreover have "backoff_exponent attempt = nat (sint attempt - 1)" if "sint attempt \<le> 6"
    using that assms by (simp add: backoff_exponent_def)
  moreover have "(2 :: int) ^ nat (sint attempt - 1) \<le> 2 ^ 5" if "sint attempt \<le> 6"
    using that by (intro power_increasing) simp_all
  moreover have "(2 :: int) ^ 6 \<le> 2 ^ backoff_exponent attempt" if "6 < sint attempt"
    using that by (intro power_increasing) (simp_all add: backoff_exponent_def)
  ultimately show ?thesis by (auto simp: min_def)
qed

theorem exponentialBackoff_doubles_to_a_minute_witness:
  "sint (exponentialBackoff 3 second minute) = 4000000000"
  by (subst exponentialBackoff_doubles_to_a_minute) simp_all

text \<open>
  C29. \<open>publishOne\<close> returns nil only for an event that has been published: its record, with the stored
  payload under the aggregate's key, has just been appended to the log, its row was leased by this
  publisher and is now PUBLISHED, and exactly the success metric was counted.
\<close>
theorem publishOne_nil_means_published:
  fixes w :: "'z node_scheme"
  assumes "run (publishOne host_runtime C (node_publisher P C config) ctx ev) w = (None, w')" and "db_ok (sv_db w)"
  shows "\<exists>topic envelope r. publishable C (config_topics config) ev topic envelope
    \<and> nd_log w' = nd_log w @ [event_record C ev topic envelope]
    \<and> row_of (sv_db w) (ev_ID ev) = Some r \<and> owned (ev_ID ev) (pc_Owner config) r
    \<and> row_of (sv_db w') (ev_ID ev) = Some (published_row (sv_now w) r)
    \<and> h_metrics w' = h_metrics w @ [OutboxPublished ''success'']"
proof (cases rule: publishOne_cases [of C "node_publisher P C config :: ('z node_scheme) publisher" ev host_runtime ctx])
  case (good topic envelope)
  let ?key = "lib_uuid_string C (ev_AggregateID ev)"
  obtain s w1 where 1: "Publish C broker_client (with_timeout ctx PublishTimeout) topic ?key (ev_Payload ev) envelope w
      = (s, w1)" by fastforce
  obtain m w2 where 2: "MarkPublished P (ev_ID ev) (pc_Owner config) w1 = (m, w2)" by fastforce
  have none: "s = None" "m = None" "w' = w2\<lparr>h_metrics := h_metrics w2 @ [OutboxPublished ''success'']\<rparr>"
    using assms(1) good(2) 1 2 by (auto simp: publishValid_def Let_def split: option.splits prod.splits)
  note f = Publish_frame [OF 1]
  note upd = updates_owned_intros(1) [of P "ev_ID ev" "pc_Owner config" "sv_now w1" "pg_error P (InvalidText ''outbox_events'')"]
  have "db_ok (sv_db w1)" using f assms(2) by simp
  then obtain r where "row_of (sv_db w) (ev_ID ev) = Some r" "owned (ev_ID ev) (pc_Owner config) r"
      "row_of (sv_db w2) (ev_ID ev) = Some (published_row (sv_now w) r)"
    using exec_owned_spec(2) [OF 2 [unfolded MarkPublished_def] upd] f none(2) by auto
  moreover have "nd_log w2 = nd_log w1" "h_metrics w2 = h_metrics w1"
    using 2 exec_owned_log exec_owned_metrics unfolding MarkPublished_def by (metis snd_conv)+
  ultimately show ?thesis
    using none f good(1) by (auto simp: event_record_def)
next
  case (rejected res cause)
  then show ?thesis
    using assms(1) by (auto simp: failPermanently_def split: option.splits prod.splits)
qed

lemma publishOne_valid:
  "publishable C (p_topics p) ev topic env \<Longrightarrow> publishOne R C p ctx ev = publishValid R C p ctx ev topic env"
  by (cases rule: publishOne_cases [of C p ev R ctx]) (auto simp: publishable_def)

text \<open>
  A publishable event that its publisher still holds is published when nothing fails on the way.
\<close>

lemma publishOne_publishes_when_nothing_fails:
  fixes w :: "'z node_scheme"
  assumes "publishable C (config_topics config) ev topic envelope"
    and "sv_plan w = []" and "nd_answers w = []" and "db_ok (sv_db w)" and "text_ok (pc_Owner config)"
    and "row_of (sv_db w) (ev_ID ev) = Some r" and "owned (ev_ID ev) (pc_Owner config) r"
  shows "\<exists>w'. run (publishOne host_runtime C (node_publisher P C config) ctx ev) w = (None, w')
    \<and> nd_log w' = nd_log w @ [event_record C ev topic envelope]"
proof -
  let ?w1 = "w\<lparr>nd_log := nd_log w @ [event_record C ev topic envelope]\<rparr>"
  have send: "Publish C broker_client (with_timeout ctx PublishTimeout) topic (lib_uuid_string C (ev_AggregateID ev))
      (ev_Payload ev) envelope w = (None, ?w1)"
    using assms(3) by (simp add: Publish_def broker_produce_def event_record_def)
  obtain d where "MarkPublished P (ev_ID ev) (pc_Owner config) ?w1 = (None, ?w1\<lparr>sv_db := d\<rparr>)"
    unfolding MarkPublished_def
    by (rule exec_owned_quiet [where s = ?w1 and i = "ev_ID ev" and r = r and owner = "pc_Owner config"
          and upd = "published_row (sv_now ?w1)" and what = "''mark outbox event published''" and P = P
          and stmt = "\<lambda>d. if \<not> text_ok (pc_Owner config) then Inl (pg_error P (InvalidText ''outbox_events''))
            else update_outbox P (owned (ev_ID ev) (pc_Owner config)) (published_row (sv_now ?w1)) d"])
       (use assms owned_row_facts(1) [OF assms(4,6,7)] in simp_all)
  then show ?thesis
    using publishOne_valid [of C "node_publisher P C config :: ('z node_scheme) publisher" ev topic envelope] assms(1) send
    by (simp add: publishValid_def)
qed

lemma sample_leased_run:
  "\<exists>w'. run (publishOne host_runtime publish_codec (node_publisher sample_pg publish_codec publish_config) background
      (event_of_row claimed_row)) (leased_node []) = (None, w')
    \<and> nd_log w' = nd_log (leased_node []) @ [event_record publish_codec (event_of_row claimed_row) ''created'' publish_envelope]"
proof (rule publishOne_publishes_when_nothing_fails [OF sample_publishable _ _ leased_row(3)])
  show "row_of (sv_db (leased_node [])) (ev_ID (event_of_row claimed_row)) = Some claimed_row"
    using leased_row(1) by (simp add: claimed_event)
  show "owned (ev_ID (event_of_row claimed_row)) (pc_Owner publish_config) claimed_row"
    using leased_row(2) by (simp add: claimed_event) (simp add: publish_config_def)
qed (simp_all add: leased_node_def publish_config_def text_ok_def valid_utf8_ascii)

theorem publishOne_nil_means_published_witness:
  "\<exists>w'. row_of (sv_db (w' :: node)) 12 = Some (published_row 5000000 claimed_row)
     \<and> h_metrics w' = [OutboxPublished ''success'']"
proof -
  have now: "sv_now (leased_node []) = 5000000" "h_metrics (leased_node []) = []"
    by (simp_all add: leased_node_def)
  obtain w' where "run (publishOne host_runtime publish_codec (node_publisher sample_pg publish_codec publish_config)
      background (event_of_row claimed_row)) (leased_node []) = (None, w')"
    using sample_leased_run by blast
  from publishOne_nil_means_published [OF this leased_row(3)] show ?thesis
    using leased_row(1) [of "[]"] by (auto simp: claimed_event now)
qed

text \<open>
  C38. When Kafka refuses the record and the database answers, the event is given back: \<open>publishOne\<close>
  returns the error, the row is PENDING again without a lease, due after the back-off for its attempts,
  with the error's text, and the failed metric is counted; nothing is marked published.
\<close>
theorem publishOne_gives_back_on_refusal:
  fixes w :: "'z node_scheme"
  assumes "publishable C (config_topics config) ev topic envelope"
    and "sv_plan w = []" and "nd_answers w = [Lost e]" and "db_ok (sv_db w)" and "text_ok (pc_Owner config)"
    and "row_of (sv_db w) (ev_ID ev) = Some r" and "owned (ev_ID ev) (pc_Owner config) r"
    and "text_ok (err_string C (wrapf ''produce kafka record: '' e))"
  shows "\<exists>w'. run (publishOne host_runtime C (node_publisher P C config) ctx ev) w
      = (Some (wrapf ''produce kafka record: '' e), w')
    \<and> row_of (sv_db w') (ev_ID ev) = Some (released_row (err_string C (wrapf ''produce kafka record: '' e))
        (pg_timestamp P (h_clock w + sint (exponentialBackoff (ev_Attempts ev) second minute))) r)
    \<and> nd_log w' = nd_log w \<and> h_metrics w' = h_metrics w @ [OutboxPublished ''failed'']"
proof -
  let ?err = "wrapf ''produce kafka record: '' e"
  let ?due = "time_add (h_clock w) (exponentialBackoff (ev_Attempts ev) second minute)"
  let ?w1 = "w\<lparr>nd_answers := []\<rparr>"
  have send: "Publish C broker_client (with_timeout ctx PublishTimeout) topic (lib_uuid_string C (ev_AggregateID ev))
      (ev_Payload ev) envelope w = (Some ?err, ?w1)"
    using assms(3) by (simp add: Publish_def broker_produce_def)
  obtain d where d: "Release P (ev_ID ev) (pc_Owner config) (err_string C ?err) ?due ?w1 = (None, ?w1\<lparr>sv_db := d\<rparr>)"
      "row_of d (ev_ID ev) = Some (released_row (err_string C ?err) (pg_timestamp P ?due) r)"
    unfolding Release_def
    by (rule exec_owned_quiet [where s = ?w1 and i = "ev_ID ev" and r = r and owner = "pc_Owner config"
          and upd = "released_row (err_string C ?err) (pg_timestamp P ?due)" and what = "''release outbox event''" and P = P
          and stmt = "\<lambda>d. if \<not> text_ok (pc_Owner config) \<or> \<not> text_ok (err_string C ?err)
            then Inl (pg_error P (InvalidText ''outbox_events''))
            else update_outbox P (owned (ev_ID ev) (pc_Owner config)) (released_row (err_string C ?err) (pg_timestamp P ?due)) d"])
       (use assms owned_row_facts(2) [OF assms(4,6,7)] in simp_all)
  have "run (publishOne host_runtime C (node_publisher P C config) ctx ev) w
      = (Some ?err, ?w1\<lparr>sv_db := d, h_metrics := h_metrics w @ [OutboxPublished ''failed'']\<rparr>)"
    using publishOne_valid [of C "node_publisher P C config :: ('z node_scheme) publisher" ev topic envelope] assms(1) send d(1)
    by (simp add: publishValid_def Let_def)
  then show ?thesis using d(2) by (simp add: time_add_def)
qed

theorem publishOne_gives_back_on_refusal_witness:
  "\<exists>w'. row_of (sv_db (w' :: node)) 12 = Some (released_row ''produce kafka record: no leader'' 1004000000 claimed_row)
     \<and> nd_log w' = [] \<and> h_metrics w' = [OutboxPublished ''failed'']"
proof -
  let ?e = "errorf [Lit ''no leader'']" and ?w = "leased_node [Lost (errorf [Lit ''no leader''])]"
  have msg: "err_string publish_codec (wrapf ''produce kafka record: '' ?e) = ''produce kafka record: no leader''"
    by (simp add: err_string_def error_text_def wrapf_def wrapfs_def errorf_def)
  have delay: "sint (exponentialBackoff 1 second minute) = 1000000000"
    by (subst exponentialBackoff_seconds) (simp_all add: backoff_exponent_def)
  have w: "h_clock ?w = 4000000" "nd_log ?w = []" "h_metrics ?w = []" "ev_ID (event_of_row claimed_row) = 12"
    "ev_Attempts (event_of_row claimed_row) = 1"
    by (simp_all add: leased_node_def claimed_event)
  have r: "row_of (sv_db ?w) (ev_ID (event_of_row claimed_row)) = Some claimed_row"
    "owned (ev_ID (event_of_row claimed_row)) (pc_Owner publish_config) claimed_row"
    using leased_row(1,2) by (simp_all add: claimed_event publish_config_def)
  have t: "text_ok (err_string publish_codec (wrapf ''produce kafka record: '' ?e))" "text_ok (pc_Owner publish_config)"
    unfolding msg by (simp_all add: text_ok_def valid_utf8_ascii publish_config_def)
  have plan: "sv_plan ?w = []" "nd_answers ?w = [Lost ?e]"
    by (simp_all add: leased_node_def)
  show ?thesis
    using publishOne_gives_back_on_refusal [OF sample_publishable plan leased_row(3) t(2) r t(1), of sample_pg background]
    unfolding msg w delay by auto
qed

end
