(* ===== verification/Consumer_Repo.thy ===== *)
theory Consumer_Repo
  imports Order_Store
begin

text \<open>
  internal/consumer/postgres.go: the check whether an event was processed, and the transaction that
  records it, moves the order out of PENDING and writes the OrderStatusChanged event. What a completed
  transaction may do to the tables is the relation \<open>completion\<close>; the lemmas show that \<open>Complete\<close> does
  that or nothing, whatever its round trips answer. Row locks make two completions of one event or order
  wait for each other, so a transaction is one step here.
\<close>

section \<open>Statements\<close>

definition processed_exists :: "pg \<Rightarrow> uuid \<Rightarrow> string \<Rightarrow> bool stmt" where
  "processed_exists P eid consumerName d =
     (if \<not> text_ok consumerName then Inl (pg_error P (InvalidText ''processed_events''))
      else Inr (list_ex (\<lambda>r. p_event_id r = eid \<and> p_consumer_name r = consumerName) (processed_events d), d))"

definition insert_processed :: "pg \<Rightarrow> time \<Rightarrow> uuid \<Rightarrow> string \<Rightarrow> nat stmt" where
  "insert_processed P now eid consumerName d =
     (let row = \<lparr>p_event_id = eid, p_consumer_name = consumerName, p_processed_at = now\<rparr>
      in if \<not> text_ok consumerName then Inl (pg_error P (InvalidText ''processed_events''))
         else if \<not> processed_row_ok row then Inl (pg_error P (CheckViolation ''processed_events''))
         else if processed_key row \<in> set (map processed_key (processed_events d)) then Inr (0, d)
         else Inr (1, d\<lparr>processed_events := processed_events d @ [row]\<rparr>))"

definition select_status :: "uuid \<Rightarrow> status stmt" where
  "select_status oid d =
     (case find (\<lambda>r. o_id r = oid) (orders d) of None \<Rightarrow> Inl no_rows | Some r \<Rightarrow> Inr (o_status r, d))"

definition update_status :: "pg \<Rightarrow> time \<Rightarrow> uuid \<Rightarrow> status \<Rightarrow> unit stmt" where
  "update_status P now oid status d =
     (let rows = map (\<lambda>r. if o_id r = oid then r\<lparr>o_status := status, o_updated_at := now\<rparr> else r) (orders d)
      in if status \<notin> set order_status_enum then Inl (pg_error P (InvalidEnum ''orders''))
         else if list_all order_row_ok rows then Inr ((), d\<lparr>orders := rows\<rparr>)
         else Inl (pg_error P (CheckViolation ''orders'')))"

section \<open>PostgresRepository\<close>

definition IsProcessed :: "pg \<Rightarrow> uuid \<Rightarrow> string \<Rightarrow> 'z server_scheme \<Rightarrow> bool result \<times> 'z server_scheme" where
  "IsProcessed P eventID consumerName s =
     (case query (processed_exists P eventID consumerName) s of
        (Inl err, s1) \<Rightarrow> (Inl (wrapf ''check processed event: '' err), s1)
      | (Inr found, s1) \<Rightarrow> (Inr found, s1))"

definition commit_false :: "string \<Rightarrow> 'z server_scheme \<Rightarrow> 'z server_scheme \<Rightarrow> bool result \<times> 'z server_scheme" where
  "commit_false what base s =
     (case commit base s of
        (Inl err, s1) \<Rightarrow> (Inl (wrapf what err), s1)
      | (Inr _, s1) \<Rightarrow> (Inr False, s1))"

text \<open>The rest of the transaction once the order is locked and PENDING; \<open>base\<close> is the state at \<open>BeginTx\<close>.\<close>

definition complete_pending ::
  "pg \<Rightarrow> ('z server_scheme) runtime \<Rightarrow> ('c) codec_scheme \<Rightarrow> uuid \<Rightarrow> status \<Rightarrow> string \<Rightarrow> string \<Rightarrow> status \<Rightarrow>
     'z server_scheme \<Rightarrow> 'z server_scheme \<Rightarrow> bool result \<times> 'z server_scheme" where
  "complete_pending P R C orderID status reason requestID previous base s3 =
     (case query (update_status P (sv_now base) orderID status) s3 of
        (Inl err, s4) \<Rightarrow> (Inl (wrapf ''update order status: '' err), rollback base s4)
      | (Inr _, s4) \<Rightarrow>
     (case run_New_envelope R OrderStatusChanged orderID requestID
             (marshal_status_changed C \<lparr>scp_PreviousStatus = previous, scp_CurrentStatus = status,
                scp_Reason = reason\<rparr>) s4 of
        (Inl err, s5) \<Rightarrow> (Inl err, rollback base s5)
      | (Inr statusEvent, s5) \<Rightarrow>
     (case marshal_envelope C statusEvent of
        Inl err \<Rightarrow> (Inl (wrapf ''marshal status event: '' err), rollback base s5)
      | Inr payload \<Rightarrow>
     (case query (insert_outbox P (sv_now base) (EventID statusEvent) orderID (EventType statusEvent) payload
                    (OccurredAt statusEvent)) s5 of
        (Inl err, s6) \<Rightarrow> (Inl (wrapf ''insert status outbox event: '' err), rollback base s6)
      | (Inr _, s6) \<Rightarrow>
     (case commit base s6 of
        (Inl err, s7) \<Rightarrow> (Inl (wrapf ''commit completion transaction: '' err), s7)
      | (Inr _, s7) \<Rightarrow> (Inr True, s7))))))"

definition Complete ::
  "pg \<Rightarrow> ('z server_scheme) runtime \<Rightarrow> ('c) codec_scheme \<Rightarrow> uuid \<Rightarrow> string \<Rightarrow> uuid \<Rightarrow> status \<Rightarrow> string \<Rightarrow> string \<Rightarrow>
     'z server_scheme \<Rightarrow> bool result \<times> 'z server_scheme" where
  "Complete P R C eventID consumerName orderID status reason requestID s =
     (case begin_tx s of
        (Inl err, s1) \<Rightarrow> (Inl (wrapf ''begin completion transaction: '' err), s1)
      | (Inr _, s1) \<Rightarrow>
     (case query (insert_processed P (sv_now s1) eventID consumerName) s1 of
        (Inl err, s2) \<Rightarrow> (Inl (wrapf ''record processed event: '' err), rollback s1 s2)
      | (Inr affected, s2) \<Rightarrow>
     (if affected = 0 then commit_false ''commit duplicate event transaction: '' s1 s2 else
     (case query (select_status orderID) s2 of
        (Inl err, s3) \<Rightarrow> (Inl (wrapf ''lock order: '' err), rollback s1 s3)
      | (Inr previous, s3) \<Rightarrow>
     (if previous \<noteq> StatusPending then commit_false ''commit stale event transaction: '' s1 s3
      else complete_pending P R C orderID status reason requestID previous s1 s3)))))"

section \<open>What a completed transaction does\<close>

definition processed_keys :: "db \<Rightarrow> (string \<times> uuid) set" where
  "processed_keys d = set (map processed_key (processed_events d))"

definition with_processed :: "time \<Rightarrow> uuid \<Rightarrow> string \<Rightarrow> db \<Rightarrow> db" where
  "with_processed now eid consumerName d = d\<lparr>processed_events := processed_events d
     @ [\<lparr>p_event_id = eid, p_consumer_name = consumerName, p_processed_at = now\<rparr>]\<rparr>"

definition with_status :: "time \<Rightarrow> uuid \<Rightarrow> status \<Rightarrow> db \<Rightarrow> db" where
  "with_status now oid status d = d\<lparr>orders :=
     map (\<lambda>r. if o_id r = oid then r\<lparr>o_status := status, o_updated_at := now\<rparr> else r) (orders d)\<rparr>"

definition with_event :: "pg \<Rightarrow> time \<Rightarrow> envelope \<Rightarrow> string \<Rightarrow> db \<Rightarrow> db" where
  "with_event P now env json d = d\<lparr>outbox_events := outbox_events d
     @ [fresh_outbox_row P now (EventID env) (AggregateID env) (EventType env) json (OccurredAt env)]\<rparr>"

definition status_of :: "db \<Rightarrow> uuid \<Rightarrow> status option" where
  "status_of d oid = map_option o_status (find (\<lambda>r. o_id r = oid) (orders d))"

inductive completion ::
  "pg \<Rightarrow> ('c) codec_scheme \<Rightarrow> time \<Rightarrow> uuid \<Rightarrow> string \<Rightarrow> uuid \<Rightarrow> status \<Rightarrow> string \<Rightarrow> string \<Rightarrow> db \<Rightarrow> bool \<Rightarrow> db \<Rightarrow> bool"
  for P C now eid consumerName oid status reason rid d where
  duplicate: "(consumerName, eid) \<in> processed_keys d \<Longrightarrow>
    completion P C now eid consumerName oid status reason rid d False d"
| stale: "(consumerName, eid) \<notin> processed_keys d \<Longrightarrow> status_of d oid = Some previous \<Longrightarrow> previous \<noteq> StatusPending \<Longrightarrow>
    completion P C now eid consumerName oid status reason rid d False (with_processed now eid consumerName d)"
| completed: "(consumerName, eid) \<notin> processed_keys d \<Longrightarrow> status_of d oid = Some StatusPending \<Longrightarrow>
    status \<in> set order_status_enum \<Longrightarrow>
    marshal_status_changed C \<lparr>scp_PreviousStatus = StatusPending, scp_CurrentStatus = status, scp_Reason = reason\<rparr>
      = Inr (Payload env) \<Longrightarrow>
    envelope_ok env \<Longrightarrow> EventType env = OrderStatusChanged \<Longrightarrow> AggregateID env = oid \<Longrightarrow> env_RequestID env = rid \<Longrightarrow>
    marshal_envelope C env = Inr payload \<Longrightarrow> pg_jsonb P payload = Some json \<Longrightarrow>
    completion P C now eid consumerName oid status reason rid d True
      (with_event P now env json (with_status now oid status (with_processed now eid consumerName d)))"

inductive_cases completion_elim: "completion P C now eid consumerName oid status reason rid d b d'"

section \<open>Lemmas\<close>

lemma insert_processed_Inr:
  "insert_processed P now eid name d = Inr (n, d') \<longleftrightarrow> text_ok name \<and> name \<noteq> '''' \<and>
     (if (name, eid) \<in> processed_keys d then n = 0 \<and> d' = d else n = 1 \<and> d' = with_processed now eid name d)"
  by (auto simp: insert_processed_def Let_def processed_row_ok_def processed_key_def processed_keys_def with_processed_def)

lemma insert_processed_keeps: "keeps db_ok (insert_processed P now eid name)"
  by (rule keepsI)
     (auto simp: insert_processed_Inr with_processed_def db_ok_def processed_row_ok_def processed_key_def
       processed_keys_def split: if_splits)

lemma select_status_Inr: "select_status oid d = Inr (st, d') \<longleftrightarrow> status_of d oid = Some st \<and> d' = d"
  by (auto simp: select_status_def status_of_def split: option.split)

lemma update_status_Inr:
  "update_status P now oid status d = Inr (u, d') \<longleftrightarrow> status \<in> set order_status_enum
     \<and> list_all order_row_ok (orders (with_status now oid status d)) \<and> d' = with_status now oid status d"
  by (auto simp: update_status_def Let_def with_status_def)

lemma with_status_ids [simp]: "map o_id (orders (with_status now oid status d)) = map o_id (orders d)"
  by (simp add: with_status_def comp_def if_distrib cong: if_cong)

lemma update_status_keeps: "keeps db_ok (update_status P now oid status)"
proof (rule keepsI)
  fix d u d' assume ok: "db_ok d" and "update_status P now oid status d = Inr (u, d')"
  then have d': "d' = with_status now oid status d" "list_all order_row_ok (orders d')"
    by (simp_all add: update_status_Inr)
  have "map o_id (orders d') = map o_id (orders d)" by (simp add: d'(1))
  then show "db_ok d'" using ok d'(2) unfolding db_ok_def by (simp add: d'(1)) (simp add: with_status_def)
qed

text \<open>Everything the completion transaction reads or writes besides its tables stays out of the data.\<close>

lemma run_New_envelope_host:
  fixes w :: "'z host_scheme"
  assumes "run_New_envelope host_runtime ty agg rid raw w = (r, w')"
  shows "sv_db w' = sv_db w \<and> sv_now w' = sv_now w \<and> sv_plan w' = sv_plan w
    \<and> (\<forall>env. r = Inr env \<longrightarrow> raw = Inr (Payload env) \<and> envelope_ok env \<and> EventType env = ty
         \<and> AggregateID env = agg \<and> env_RequestID env = rid)"
  using assms by (auto simp: run_New_envelope_def New_envelope_Inr split: sum.splits)

lemma commit_false_cases:
  assumes "commit_false what base s = (r, s')"
  shows "(r = Inr False \<or> (\<exists>e. r = Inl e)) \<and> (sv_db s' = sv_db s \<or> sv_db s' = sv_db base \<and> (\<exists>e. r = Inl e))"
proof -
  obtain c s1 where c: "commit base s = (c, s1)" by fastforce
  show ?thesis
    by (cases rule: commit_cases [OF c]) (use assms c in \<open>auto simp: commit_false_def\<close>)
qed

text \<open>Whatever the round trips answer: an error and nothing changed, or a completion.\<close>

lemma complete_pending_cases:
  fixes base :: "'z host_scheme"
  assumes "complete_pending P host_runtime C oid status reason rid previous base s = (r, s')"
  shows "(\<exists>e. r = Inl e) \<and> sv_db s' = sv_db base
    \<or> (\<exists>env payload json. status \<in> set order_status_enum
         \<and> marshal_status_changed C \<lparr>scp_PreviousStatus = previous, scp_CurrentStatus = status, scp_Reason = reason\<rparr>
             = Inr (Payload env)
         \<and> envelope_ok env \<and> EventType env = OrderStatusChanged \<and> AggregateID env = oid \<and> env_RequestID env = rid
         \<and> marshal_envelope C env = Inr payload \<and> pg_jsonb P payload = Some json
         \<and> sv_db s' = with_event P (sv_now base) env json (with_status (sv_now base) oid status (sv_db s))
         \<and> (r = Inr True \<or> (\<exists>e. r = Inl e)) \<and> (db_ok (sv_db s) \<longrightarrow> db_ok (sv_db s')))"
proof (cases "(\<exists>e. r = Inl e) \<and> sv_db s' = sv_db base")
  case False
  let ?raw = "marshal_status_changed C \<lparr>scp_PreviousStatus = previous, scp_CurrentStatus = status, scp_Reason = reason\<rparr>"
  from assms False obtain u s4 env s5 payload v s6 c where
    4: "query (update_status P (sv_now base) oid status) s = (Inr u, s4)"
    and 5: "run_New_envelope host_runtime OrderStatusChanged oid rid ?raw s4 = (Inr env, s5)"
    and m: "marshal_envelope C env = Inr payload"
    and 6: "query (insert_outbox P (sv_now base) (EventID env) oid (EventType env) payload (OccurredAt env)) s5 = (Inr (), s6)"
    and c: "commit base s6 = (c, s')" and r: "c = Inr () \<and> r = Inr True \<or> (\<exists>e e'. c = Inl e \<and> r = Inl e')"
    by (auto simp: complete_pending_def split: prod.splits sum.splits)
  have d4: "status \<in> set order_status_enum" "sv_db s4 = with_status (sv_now base) oid status (sv_db s)"
    using query_Inr [OF 4] by (simp_all add: update_status_Inr)
  note env = run_New_envelope_host [OF 5]
  have d6: "sv_db s6 = with_event P (sv_now base) env json (sv_db s4) \<and> pg_jsonb P payload = Some json"
    if "pg_jsonb P payload = Some json" for json
    using query_Inr [OF 6] env that
    by (auto simp: insert_outbox_def with_event_def split: if_splits)
  obtain json where json: "pg_jsonb P payload = Some json"
    using query_Inr [OF 6] by (auto simp: insert_outbox_def split: option.splits)
  have "db_ok (sv_db s) \<longrightarrow> db_ok (sv_db s6)"
    using query_keeps [OF update_status_keeps _ 4] query_keeps [OF insert_outbox_keeps _ 6] env by auto
  moreover have "sv_db s' = sv_db s6"
    using False r by (cases rule: commit_cases [OF c]) auto
  ultimately have "sv_db s' = with_event P (sv_now base) env json (with_status (sv_now base) oid status (sv_db s))"
    and "db_ok (sv_db s) \<longrightarrow> db_ok (sv_db s')" and "r = Inr True \<or> (\<exists>e. r = Inl e)"
    using d6 [OF json] d4 r by auto
  then show ?thesis using d4(1) env m json by blast
qed simp

lemma Complete_cases:
  fixes s :: "'z host_scheme"
  assumes "Complete P host_runtime C eid name oid status reason rid s = (r, s')"
  shows "(\<exists>e. r = Inl e) \<and> sv_db s' = sv_db s
    \<or> (\<exists>b. completion P C (sv_now s) eid name oid status reason rid (sv_db s) b (sv_db s')
         \<and> (r = Inr b \<or> (\<exists>e. r = Inl e)) \<and> (db_ok (sv_db s) \<longrightarrow> db_ok (sv_db s')))"
proof (cases "(\<exists>e. r = Inl e) \<and> sv_db s' = sv_db s")
  case False
  let ?now = "sv_now s"
  obtain b s1 where b: "begin_tx s = (b, s1)" by fastforce
  note s1 = begin_tx_db [OF b]
  from False assms b s1 obtain u n s2 where bu: "b = Inr u"
    and 2: "query (insert_processed P ?now eid name) s1 = (Inr n, s2)"
    by (auto simp: Complete_def split: prod.splits sum.splits)
  note p = query_Inr [OF 2, unfolded insert_processed_Inr s1 [THEN conjunct1]]
  have ok2: "db_ok (sv_db s) \<longrightarrow> db_ok (sv_db s2)"
    using query_keeps [OF insert_processed_keeps _ 2] s1 by simp
  show ?thesis
  proof (cases "n = 0")
    case True
    then have dup: "(name, eid) \<in> processed_keys (sv_db s)" and d2: "sv_db s2 = sv_db s"
      using p by (simp_all split: if_splits)
    have "commit_false ''commit duplicate event transaction: '' s1 s2 = (r, s')"
      using assms b bu 2 True s1 by (auto simp: Complete_def)
    from commit_false_cases [OF this] show ?thesis
      using completion.duplicate [OF dup, of P C ?now oid status reason rid] s1 d2 by auto
  next
    case n: False
    then have new: "(name, eid) \<notin> processed_keys (sv_db s)" and d2: "sv_db s2 = with_processed ?now eid name (sv_db s)"
      using p by (simp_all split: if_splits)
    from False assms b s1 2 n obtain previous s3 where 3: "query (select_status oid) s2 = (Inr previous, s3)"
      by (auto simp: Complete_def split: prod.splits sum.splits)
    have st: "status_of (sv_db s) oid = Some previous" and d3: "sv_db s3 = sv_db s2"
      using query_Inr [OF 3] d2 by (simp_all add: select_status_Inr with_processed_def status_of_def)
    have rest: "(if previous \<noteq> StatusPending then commit_false ''commit stale event transaction: '' s1 s3
      else complete_pending P host_runtime C oid status reason rid previous s1 s3) = (r, s')"
      using assms b bu 2 3 n s1 by (auto simp: Complete_def)
    show ?thesis
    proof (cases "previous = StatusPending")
      case stale: False
      then have "commit_false ''commit stale event transaction: '' s1 s3 = (r, s')" using rest by simp
      from commit_false_cases [OF this] show ?thesis
        using completion.stale [OF new st stale, of P C ?now status reason rid] s1 d2 d3 ok2 by auto
    next
      case pending: True
      then have "complete_pending P host_runtime C oid status reason rid previous s1 s3 = (r, s')" using rest by simp
      note ends = complete_pending_cases [OF this]
      show ?thesis
      proof (cases "(\<exists>e. r = Inl e) \<and> sv_db s' = sv_db s1")
        case True
        then show ?thesis using s1 by simp
      next
        case False
        with ends obtain env payload json where a: "status \<in> set order_status_enum"
          "marshal_status_changed C \<lparr>scp_PreviousStatus = previous, scp_CurrentStatus = status, scp_Reason = reason\<rparr>
             = Inr (Payload env)"
          "envelope_ok env" "EventType env = OrderStatusChanged" "AggregateID env = oid" "env_RequestID env = rid"
          "marshal_envelope C env = Inr payload" "pg_jsonb P payload = Some json"
          and d': "sv_db s' = with_event P (sv_now s1) env json (with_status (sv_now s1) oid status (sv_db s3))"
          and r: "r = Inr True \<or> (\<exists>e. r = Inl e)" and ok: "db_ok (sv_db s3) \<longrightarrow> db_ok (sv_db s')"
          by blast
        have "completion P C ?now eid name oid status reason rid (sv_db s) True (sv_db s')"
          unfolding d' d3 d2 s1 [THEN conjunct2] pending
          using completion.completed [OF new st [unfolded pending] a(1) a(2) [unfolded pending] a(3-8)] .
        then show ?thesis using r ok ok2 d3 by metis
      qed
    qed
  qed
qed simp

lemma IsProcessed_spec:
  assumes "IsProcessed P eid name s = (r, s')"
  shows "sv_db s' = sv_db s \<and> sv_now s' = sv_now s \<and> (\<forall>b. r = Inr b \<longrightarrow> b = ((name, eid) \<in> processed_keys (sv_db s)))"
proof -
  obtain q s1 where q: "query (processed_exists P eid name) s = (q, s1)" by fastforce
  have found: "list_ex (\<lambda>r. p_event_id r = eid \<and> p_consumer_name r = name) (processed_events d)
      = ((name, eid) \<in> processed_keys d)" for d
    by (auto simp: list_ex_iff processed_keys_def processed_key_def)
  show ?thesis
    using query_now [OF q] assms
    by (cases rule: query_cases [OF q])
       (auto simp: IsProcessed_def q processed_exists_def found split: if_splits)
qed

lemma completion_keys:
  "completion P C now eid name oid status reason rid d b d' \<Longrightarrow>
     (name, eid) \<in> processed_keys d' \<and> processed_keys d \<subseteq> processed_keys d'"
  by (erule completion_elim)
     (auto simp: processed_keys_def with_processed_def with_status_def with_event_def processed_key_def)

lemma completion_known:
  "completion P C now eid name oid status reason rid d b d' \<Longrightarrow> (name, eid) \<in> processed_keys d \<Longrightarrow> d' = d \<and> \<not> b"
  by (erule completion_elim) simp_all

lemma find_with_status:
  "find (\<lambda>r. o_id r = i) (orders (with_status now oid status d))
    = map_option (\<lambda>r. if o_id r = oid then r\<lparr>o_status := status, o_updated_at := now\<rparr> else r) (find (\<lambda>r. o_id r = i) (orders d))"
proof -
  have "find (\<lambda>r. o_id r = i) (map (\<lambda>r. if o_id r = oid then r\<lparr>o_status := status, o_updated_at := now\<rparr> else r) rs)
      = map_option (\<lambda>r. if o_id r = oid then r\<lparr>o_status := status, o_updated_at := now\<rparr> else r) (find (\<lambda>r. o_id r = i) rs)" for rs
    by (induction rs) auto
  then show ?thesis by (simp add: with_status_def)
qed

lemma completion_status:
  assumes "completion P C now eid name oid status reason rid d b d'"
  shows "status_of d' i = (if b \<and> i = oid then Some status else status_of d i)"
  using assms
proof cases
  case (completed env payload json)
  have "status_of d' i = status_of (with_status now oid status d) i"
    by (simp add: completed(2) with_event_def with_status_def with_processed_def status_of_def)
  moreover have "status_of (with_status now oid status d) i = (if i = oid then Some status else status_of d i)"
  proof (cases "find (\<lambda>r. o_id r = i) (orders d)")
    case None
    then have "i \<noteq> oid" using completed(4) by (auto simp: status_of_def)
    then show ?thesis using None by (simp add: status_of_def find_with_status)
  next
    case (Some z)
    then have "o_id z = i" using find_SomeD by fastforce
    then show ?thesis using Some by (simp add: status_of_def find_with_status)
  qed
  ultimately show ?thesis using completed(1) by simp
qed (simp_all add: with_processed_def status_of_def)

lemma order_status_changed_text: "text_ok OrderStatusChanged" "OrderStatusChanged \<noteq> ''''"
  by (simp_all add: text_ok_def valid_utf8_ascii OrderStatusChanged_def)

text \<open>What depends on neither the tables nor the plan nor the supply of ids is untouched by a transaction.\<close>

lemma Complete_frame:
  fixes w :: "'z host_scheme" and f :: "'z host_scheme \<Rightarrow> 'b"
  assumes "Complete P host_runtime C eid name oid status reason rid w = (r, w')"
    and db: "\<And>w d. f (w\<lparr>sv_db := d\<rparr>) = f w" and plan: "\<And>w p. f (w\<lparr>sv_plan := p\<rparr>) = f w"
    and ids: "\<And>w n. f (w\<lparr>h_next := n\<rparr>) = f w"
  shows "f w' = f w"
proof -
  have q: "f s' = f s" if "query stmt s = (x, s')" for stmt :: "status stmt" and s x s'
    using that db plan by (rule query_frame)
  have q2: "f s' = f s" if "query stmt s = (x, s')" for stmt :: "nat stmt" and s x s'
    using that db plan by (rule query_frame)
  have q3: "f s' = f s" if "query stmt s = (x, s')" for stmt :: "unit stmt" and s x s'
    using that db plan by (rule query_frame)
  have c: "f s' = f s" if "commit base s = (x, s')" for base s x s'
    using that db plan by (rule commit_frame)
  have e: "f s' = f s" if "run_New_envelope host_runtime ty agg rid raw s = (x, s')" for ty agg rid raw s x s'
    using that ids by (rule run_New_envelope_frame)
  have r: "f (rollback base s) = f s" for base s unfolding rollback_def by (rule db)
  have cf: "f s' = f s" if "commit_false what base s = (x, s')" for what base s x s'
    using that by (auto simp: commit_false_def dest!: c split: prod.splits sum.splits)
  have cp: "f s' = f s" if "complete_pending P host_runtime C oid status reason rid previous base s = (x, s')" for previous base s x s'
    using that unfolding complete_pending_def
    by (auto simp: r dest!: q3 e c split: prod.splits sum.splits)
  show ?thesis
    using assms(1) unfolding Complete_def begin_tx_def
    by (auto simp: r dest!: q q2 q3 cf cp split: prod.splits sum.splits if_splits)
qed

lemma IsProcessed_frame:
  assumes "IsProcessed P eid name w = (r, w')" and "\<And>w d. f (w\<lparr>sv_db := d\<rparr>) = f w" and "\<And>w p. f (w\<lparr>sv_plan := p\<rparr>) = f w"
  shows "f w' = f w"
proof -
  obtain q w1 where q: "query (processed_exists P eid name) w = (q, w1)" by fastforce
  then have "w' = w1" using assms(1) by (auto simp: IsProcessed_def split: sum.splits)
  then show ?thesis using query_frame [OF q assms(2,3)] by simp
qed

section \<open>Without failures\<close>

lemma complete_pending_quiet:
  fixes s :: "'z host_scheme"
  assumes "sv_plan s = []" and "sv_now base = sv_now s" and "status \<in> set order_status_enum"
    and "list_all order_row_ok (orders (with_status (sv_now s) oid status (sv_db s)))"
    and "marshal_status_changed C \<lparr>scp_PreviousStatus = previous, scp_CurrentStatus = status, scp_Reason = reason\<rparr> = Inr raw"
    and env: "env = \<lparr>EventID = h_uuids s (h_next s), EventType = OrderStatusChanged, AggregateID = oid, env_RequestID = rid,
      OccurredAt = h_clock s, Version = 1, Payload = raw\<rparr>" and "envelope_ok env"
    and "marshal_envelope C env = Inr payload" and "pg_jsonb P payload = Some json"
    and "h_uuids s (h_next s) \<notin> set (map ob_id (outbox_events (sv_db s)))"
  shows "complete_pending P host_runtime C oid status reason rid previous base s = (Inr True,
    s\<lparr>sv_db := with_event P (sv_now s) env json (with_status (sv_now s) oid status (sv_db s)), h_next := Suc (h_next s)\<rparr>)"
proof -
  let ?s4 = "s\<lparr>sv_db := with_status (sv_now s) oid status (sv_db s)\<rparr>"
  let ?s5 = "?s4\<lparr>h_next := Suc (h_next s)\<rparr>"
  have 4: "query (update_status P (sv_now base) oid status) s = (Inr (), ?s4)"
    using assms(1-4) by (intro query_quiet) (simp_all add: update_status_Inr)
  have 5: "run_New_envelope host_runtime OrderStatusChanged oid rid (Inr raw) ?s4 = (Inr env, ?s5)"
    using assms(7) by (simp add: run_New_envelope_def New_envelope_Inr env)
  have ob: "outbox_events (with_status now i st d) = outbox_events d" for now i st d
    by (simp add: with_status_def)
  have 6: "query (insert_outbox P (sv_now base) (EventID env) oid (EventType env) payload (OccurredAt env)) ?s5
      = (Inr (), ?s5\<lparr>sv_db := with_event P (sv_now s) env json (sv_db ?s4)\<rparr>)"
    using assms(1,2,9,10) order_status_changed_text
    by (intro query_quiet) (simp_all add: insert_outbox_def with_event_def env fresh_outbox_row_def outbox_row_ok_def ob)
  show ?thesis
    using assms(1) by (simp add: complete_pending_def 4 5 6 assms(5,8) commit_def next_reply_def)
qed

lemma Complete_quiet:
  fixes s :: "'z host_scheme"
  assumes "sv_plan s = []" and "text_ok name" and "name \<noteq> ''''" and "(name, eid) \<notin> processed_keys (sv_db s)"
    and "status_of (sv_db s) oid = Some StatusPending"
  shows "Complete P host_runtime C eid name oid status reason rid s =
    complete_pending P host_runtime C oid status reason rid StatusPending s (s\<lparr>sv_db := with_processed (sv_now s) eid name (sv_db s)\<rparr>)"
proof -
  let ?s2 = "s\<lparr>sv_db := with_processed (sv_now s) eid name (sv_db s)\<rparr>"
  have b: "begin_tx s = (Inr (), s)"
    using assms(1) by (simp add: begin_tx_def query_quiet)
  have 2: "query (insert_processed P (sv_now s) eid name) s = (Inr 1, ?s2)"
    using assms by (intro query_quiet) (simp_all add: insert_processed_Inr)
  have 3: "query (select_status oid) ?s2 = (Inr StatusPending, ?s2)"
  proof -
    have "status_of (with_processed (sv_now s) eid name (sv_db s)) oid = Some StatusPending"
      using assms(5) by (simp add: with_processed_def status_of_def)
    then show ?thesis
      using assms(1) by (subst query_quiet [where a = StatusPending and d = "sv_db ?s2"]) (simp_all add: select_status_Inr)
  qed
  show ?thesis by (simp add: Complete_def b 2 3)
qed

section \<open>Properties\<close>

definition worker_db :: db where
  "worker_db = empty_db\<lparr>orders := [order_row_of sample_pg sample_order]\<rparr>"

lemma worker_db_ok: "db_ok worker_db"
  by (simp add: db_ok_def worker_db_def order_row_ok_def order_row_of_def sample_order_def order_status_enum_def status_defs)

lemma worker_status: "status_of worker_db 1 = Some StatusPending"
  by (simp add: status_of_def worker_db_def order_row_of_def sample_order_def)

abbreviation sample_complete :: "db \<Rightarrow> reply list \<Rightarrow> bool result \<times> host" where
  "sample_complete d plan \<equiv> Complete sample_pg host_runtime C0 7 ''worker'' 1 StatusConfirmed '''' ''req-1'' (sample_host d plan)"

text \<open>
  C9. The completion transaction is atomic whatever its round trips answer. Either the caller has an error
  and the tables are as before, or they show one whole completion: a duplicate event changes nothing, an
  event of an order that is no longer PENDING is only recorded, and otherwise the record, the new status
  and the OrderStatusChanged event are there together; the schema holds throughout. The answer says
  which it was, except when the answer to the commit was lost.
\<close>
theorem Complete_atomic:
  fixes s :: "'z host_scheme"
  assumes "Complete P host_runtime C eid name oid status reason rid s = (r, s')" and "db_ok (sv_db s)"
  shows "db_ok (sv_db s') \<and> ((\<exists>e. r = Inl e) \<and> sv_db s' = sv_db s
    \<or> (\<exists>b. completion P C (sv_now s) eid name oid status reason rid (sv_db s) b (sv_db s') \<and> (r = Inr b \<or> (\<exists>e. r = Inl e))))"
  using Complete_cases [OF assms(1)] assms(2) by auto

theorem Complete_atomic_witness:
  "db_ok (sv_db (snd (sample_complete worker_db [Done, Done, Applied ctx_canceled])))"
  using Complete_atomic [OF prod.collapse [symmetric], where s = "sample_host worker_db [Done, Done, Applied ctx_canceled]" and P = sample_pg and C = C0 and eid = 7
      and name = "''worker''" and oid = 1 and status = StatusConfirmed and reason = "''''" and rid = "''req-1''"]
    worker_db_ok by simp

text \<open>
  C23. An event is applied at most once: after \<open>Complete\<close> has answered for an event, a redelivery of it to
  the same consumer, with whatever content and however much later, changes nothing and is never reported
  as applied; the check before the work sees it too.
\<close>
theorem Complete_applies_once:
  fixes s t :: "'z host_scheme"
  assumes "Complete P host_runtime C eid name oid status reason rid s = (Inr b, s')"
    and "processed_keys (sv_db s') \<subseteq> processed_keys (sv_db t)"
  shows "(Complete P host_runtime C eid name oid' status' reason' rid' t = (r, t') \<longrightarrow> sv_db t' = sv_db t \<and> r \<noteq> Inr True)
    \<and> (IsProcessed P eid name t = (Inr found, t'') \<longrightarrow> found)"
proof -
  have key: "(name, eid) \<in> processed_keys (sv_db t)"
    using Complete_cases [OF assms(1)] completion_keys assms(2) by blast
  have "sv_db t' = sv_db t \<and> r \<noteq> Inr True" if "Complete P host_runtime C eid name oid' status' reason' rid' t = (r, t')"
    using Complete_cases [OF that] by (auto dest: completion_known [OF _ key])
  moreover have "found" if "IsProcessed P eid name t = (Inr found, t'')"
    using IsProcessed_spec [OF that] key by simp
  ultimately show ?thesis by blast
qed

text \<open>
  A pending order is decided: when nothing fails, the consumer has a name the column takes, the event is
  new, the order is PENDING and was not created later than the database's clock, \<open>Complete\<close> reports
  success; the order has its status and exactly one event row more, PENDING and due at once.
\<close>
theorem Complete_decides_pending_orders:
  fixes s :: "'z host_scheme"
  assumes "sv_plan s = []" and "db_ok (sv_db s)" and "text_ok name" and "name \<noteq> ''''"
    and "(name, eid) \<notin> processed_keys (sv_db s)" and "status_of (sv_db s) oid = Some StatusPending"
    and "status \<in> set order_status_enum"
    and "\<forall>r \<in> set (orders (sv_db s)). o_id r = oid \<longrightarrow> o_created_at r \<le> sv_now s"
    and "marshal_status_changed C \<lparr>scp_PreviousStatus = StatusPending, scp_CurrentStatus = status, scp_Reason = reason\<rparr> = Inr raw"
    and "env = \<lparr>EventID = h_uuids s (h_next s), EventType = OrderStatusChanged, AggregateID = oid, env_RequestID = rid,
      OccurredAt = h_clock s, Version = 1, Payload = raw\<rparr>" and "Envelope_Validate env = None"
    and "marshal_envelope C env = Inr payload" and "pg_jsonb P payload = Some json"
    and "h_uuids s (h_next s) \<notin> set (map ob_id (outbox_events (sv_db s)))"
  shows "\<exists>s'. Complete P host_runtime C eid name oid status reason rid s = (Inr True, s')
    \<and> sv_db s' = with_event P (sv_now s) env json (with_status (sv_now s) oid status (with_processed (sv_now s) eid name (sv_db s)))"
proof -
  let ?s = "s\<lparr>sv_db := with_processed (sv_now s) eid name (sv_db s)\<rparr>"
  have rows: "list_all order_row_ok (orders (with_status (sv_now s) oid status (with_processed (sv_now s) eid name (sv_db s))))"
    using assms(2,7,8) by (auto simp: with_status_def with_processed_def db_ok_def list_all_iff order_row_ok_def)
  have "complete_pending P host_runtime C oid status reason rid StatusPending s ?s = (Inr True,
    ?s\<lparr>sv_db := with_event P (sv_now ?s) env json (with_status (sv_now ?s) oid status (sv_db ?s)), h_next := Suc (h_next ?s)\<rparr>)"
    using assms rows by (intro complete_pending_quiet [where raw = raw]) (simp_all add: with_processed_def)
  then show ?thesis
    using Complete_quiet [OF assms(1,3,4,5,6), of P C status reason rid] by simp
qed

definition completed_event :: envelope where
  "completed_event = \<lparr>EventID = 100, EventType = OrderStatusChanged, AggregateID = 1, env_RequestID = ''req-1'',
     OccurredAt = 4000000, Version = 1, Payload = ''changed''\<rparr>"

lemma completed_event_ok: "envelope_ok completed_event"
  by (simp add: envelope_ok_def completed_event_def uuid_nil_def ascii_simps OrderStatusChanged_def)

lemma worker_created: "\<forall>r \<in> set (orders worker_db). o_id r = 1 \<longrightarrow> o_created_at r \<le> 5000000"
  by (simp add: worker_db_def order_row_of_def sample_order_def)

lemma worker_keys: "processed_keys worker_db = {}" "outbox_events worker_db = []"
  by (simp_all add: worker_db_def processed_keys_def)

theorem Complete_decides_pending_orders_witness:
  "\<exists>s'. sample_complete worker_db [] = (Inr True, s') \<and> status_of (sv_db s') 1 = Some StatusConfirmed"
proof -
  let ?d = "with_event sample_pg 5000000 completed_event ''envelope'' (with_status 5000000 1 StatusConfirmed (with_processed 5000000 7 ''worker'' worker_db))"
  have "\<exists>s'. sample_complete worker_db [] = (Inr True, s') \<and> sv_db s' = ?d"
    using Complete_decides_pending_orders [of "sample_host worker_db []" "''worker''" 7 1 StatusConfirmed C0 "''''" "''changed''"
        completed_event "''req-1''" "''envelope''" sample_pg "''envelope''"] worker_db_ok worker_status worker_keys worker_created
    by (simp add: completed_event_ok text_ok_def valid_utf8_ascii order_status_enum_def status_defs del: ball_simps)
       (simp add: completed_event_def)
  moreover have "status_of ?d 1 = Some StatusConfirmed"
    by (simp add: status_of_def with_event_def with_status_def with_processed_def worker_db_def order_row_of_def sample_order_def)
  ultimately show ?thesis by metis
qed

lemma sample_complete_true: "fst (sample_complete worker_db []) = Inr True"
proof -
  have ok: "list_all order_row_ok (orders (with_status 5000000 1 StatusConfirmed (with_processed 5000000 7 ''worker'' worker_db)))"
    by (simp add: with_status_def with_processed_def worker_db_def order_row_ok_def order_row_of_def sample_order_def
        order_status_enum_def status_defs)
  have "fst (complete_pending sample_pg host_runtime C0 1 StatusConfirmed '''' ''req-1'' StatusPending (sample_host worker_db [])
      ((sample_host worker_db [])\<lparr>sv_db := with_processed 5000000 7 ''worker'' worker_db\<rparr>)) = Inr True"
    by (subst complete_pending_quiet [where raw = "''changed''" and env = completed_event and payload = "''envelope''"
          and json = "''envelope''"])
       (use ok completed_event_ok in \<open>simp_all add: order_status_enum_def status_defs completed_event_def with_processed_def worker_keys\<close>)
  then show ?thesis
    by (subst Complete_quiet) (simp_all add: text_ok_def valid_utf8_ascii worker_keys worker_status)
qed

theorem Complete_applies_once_witness:
  "sv_db (snd (Complete sample_pg host_runtime C0 7 ''worker'' 1 StatusFailed ''late'' ''req-2'' (snd (sample_complete worker_db []))))
     = sv_db (snd (sample_complete worker_db []))"
proof -
  obtain s' where s': "sample_complete worker_db [] = (Inr True, s')"
    using sample_complete_true by (metis prod.collapse)
  show ?thesis
    using Complete_applies_once [OF s' order_refl, where oid' = 1 and status' = StatusFailed and reason' = "''late''"
        and rid' = "''req-2''"] unfolding s' by (metis prod.collapse snd_conv)
qed

text \<open>
  The schema and the two clocks can disagree: as long as the database's clock is behind the creation time
  the API's clock gave the order, the constraint \<open>updated_at >= created_at\<close> rejects the status change, so
  every completion of the order ends in an error and changes nothing, whatever else goes well.
\<close>
theorem clock_skew_blocks_completion:
  fixes s :: "'z host_scheme"
  assumes "Complete P host_runtime C eid name oid status reason rid s = (r, s')" and "db_ok (sv_db s)"
    and "(name, eid) \<notin> processed_keys (sv_db s)" and "status_of (sv_db s) oid = Some StatusPending"
    and "row \<in> set (orders (sv_db s))" and "o_id row = oid" and "sv_now s < o_created_at row"
  shows "(\<exists>e. r = Inl e) \<and> sv_db s' = sv_db s"
proof (rule ccontr)
  assume "\<not> ((\<exists>e. r = Inl e) \<and> sv_db s' = sv_db s)"
  then obtain b where c: "completion P C (sv_now s) eid name oid status reason rid (sv_db s) b (sv_db s')" and ok: "db_ok (sv_db s')"
    using Complete_cases [OF assms(1)] assms(2) by blast
  from c show False
  proof cases
    case (completed env payload json)
    let ?row = "row\<lparr>o_status := status, o_updated_at := sv_now s\<rparr>"
    have "?row \<in> set (orders (sv_db s'))"
      unfolding completed(2) using assms(5,6)
      by (auto simp: with_event_def with_status_def with_processed_def image_iff intro!: bexI [of _ row])
    then have "order_row_ok ?row" using ok by (auto simp: db_ok_def list_all_iff)
    then show False using assms(7) by (simp add: order_row_ok_def)
  qed (use assms(3,4) in simp_all)
qed

theorem clock_skew_blocks_completion_witness:
  "sv_db (snd (sample_complete (worker_db\<lparr>orders := [(order_row_of sample_pg sample_order)\<lparr>o_created_at := 6000000, o_updated_at := 6000000\<rparr>]\<rparr>) []))
     = worker_db\<lparr>orders := [(order_row_of sample_pg sample_order)\<lparr>o_created_at := 6000000, o_updated_at := 6000000\<rparr>]\<rparr>"
proof -
  let ?row = "(order_row_of sample_pg sample_order)\<lparr>o_created_at := 6000000, o_updated_at := 6000000\<rparr>"
  let ?d = "worker_db\<lparr>orders := [?row]\<rparr>"
  have "db_ok ?d"
    by (simp add: db_ok_def worker_db_def order_row_ok_def order_row_of_def sample_order_def order_status_enum_def status_defs)
  moreover have "(''worker'', 7) \<notin> processed_keys ?d" by (simp add: processed_keys_def worker_db_def)
  moreover have "status_of ?d 1 = Some StatusPending" by (simp add: status_of_def order_row_of_def sample_order_def)
  ultimately show ?thesis
    using clock_skew_blocks_completion [OF prod.collapse [symmetric], where s = "sample_host ?d []" and row = ?row and P = sample_pg and C = C0 and eid = 7
      and name = "''worker''" and oid = 1 and status = StatusConfirmed and reason = "''''" and rid = "''req-1''"] by (simp add: order_row_of_def sample_order_def)
qed

end
