(* ===== verification/Processing.thy ===== *)
theory Processing
  imports Order_Model "HOL-Library.Multiset"
begin

text \<open>
  internal/processing: the operations an order goes through and the processor that runs them side by
  side, collects their results in order of arrival, cancels the rest on the first error and decides the
  order's status. The fan-out is a step relation (an operation looks at its context, sends its result,
  the collector receives; the caller's context may end at any time); \<open>Processor_Process\<close> runs it under
  a schedule.
\<close>

section \<open>Operations\<close>

record input =
  in_OrderID :: string
  in_WarehouseID :: string
  in_Currency :: string
  in_TotalAmountMinor :: int64
  in_Items :: "item list"

record outcome =
  oc_Operation :: string
  oc_Success :: bool
  oc_Required :: bool
  oc_Details :: string

record proc_result =
  pr_Status :: status
  pr_Reason :: string
  pr_Outcomes :: "outcome list"

text \<open>The interface \<open>Operation\<close>: \<open>Execute\<close> is given what \<open>ctx.Err()\<close> returns when it looks.\<close>

record operation =
  op_Name :: string
  op_Execute :: "goerr option \<Rightarrow> input \<Rightarrow> outcome \<times> goerr option"

definition Inventory_Execute :: "int32 \<Rightarrow> goerr option \<Rightarrow> input \<Rightarrow> outcome \<times> goerr option" where
  "Inventory_Execute maxQuantityPerSKU ctxErr inp =
     (case ctxErr of
        Some err \<Rightarrow> (\<lparr>oc_Operation = ''inventory'', oc_Success = False, oc_Required = True, oc_Details = ''''\<rparr>, Some err)
      | None \<Rightarrow>
          (let limit = (if sint maxQuantityPerSKU \<le> 0 then 100 else maxQuantityPerSKU)
           in case find (\<lambda>i. sint limit < sint (Quantity i)) (in_Items inp) of
                Some i \<Rightarrow> (\<lparr>oc_Operation = ''inventory'', oc_Success = False, oc_Required = True,
                            oc_Details = ''insufficient stock for '' @ SKU i\<rparr>, None)
              | None \<Rightarrow> (\<lparr>oc_Operation = ''inventory'', oc_Success = True, oc_Required = True,
                          oc_Details = ''reserved at warehouse '' @ in_WarehouseID inp\<rparr>, None)))"

definition Delivery_Execute :: "goerr option \<Rightarrow> input \<Rightarrow> outcome \<times> goerr option" where
  "Delivery_Execute ctxErr inp =
     (case ctxErr of
        Some err \<Rightarrow> (\<lparr>oc_Operation = ''delivery'', oc_Success = False, oc_Required = True, oc_Details = ''''\<rparr>, Some err)
      | None \<Rightarrow> (\<lparr>oc_Operation = ''delivery'', oc_Success = True, oc_Required = True, oc_Details = ''calculated''\<rparr>, None))"

definition Notification_Execute :: "goerr option \<Rightarrow> input \<Rightarrow> outcome \<times> goerr option" where
  "Notification_Execute ctxErr inp =
     (case ctxErr of
        Some err \<Rightarrow> (\<lparr>oc_Operation = ''notification'', oc_Success = False, oc_Required = False, oc_Details = ''''\<rparr>, Some err)
      | None \<Rightarrow> (\<lparr>oc_Operation = ''notification'', oc_Success = True, oc_Required = False, oc_Details = ''prepared''\<rparr>, None))"

definition Inventory :: "int32 \<Rightarrow> operation" where
  "Inventory m = \<lparr>op_Name = ''inventory'', op_Execute = Inventory_Execute m\<rparr>"

definition Delivery :: operation where
  "Delivery = \<lparr>op_Name = ''delivery'', op_Execute = Delivery_Execute\<rparr>"

definition Notification :: operation where
  "Notification = \<lparr>op_Name = ''notification'', op_Execute = Notification_Execute\<rparr>"

section \<open>The fan-out\<close>

type_synonym op_result = "outcome \<times> goerr option"

datatype phase = Waiting | Ready op_result | Sent

record fanout =
  fo_err :: "goerr option"
  fo_phases :: "phase list"
  fo_channel :: "op_result list"
  fo_received :: "op_result list"

definition fanout_init :: "operation list \<Rightarrow> fanout" where
  "fanout_init ops = \<lparr>fo_err = None, fo_phases = replicate (length ops) Waiting, fo_channel = [], fo_received = []\<rparr>"

text \<open>What an operation's goroutine sends: an outcome without a name gets the operation's.\<close>

definition named_result :: "operation \<Rightarrow> goerr option \<Rightarrow> input \<Rightarrow> op_result" where
  "named_result op ctxErr inp = (case op_Execute op ctxErr inp of (out, err) \<Rightarrow>
     (if oc_Operation out = '''' then out\<lparr>oc_Operation := op_Name op\<rparr> else out, err))"

text \<open>
  \<open>parent\<close> is how the caller's context may end during the run (\<open>None\<close> if it does not). The error of the
  derived context is that of whatever ended it first; it never changes afterwards. The channel has room for
  one result of each operation.
\<close>

inductive fanout_step :: "operation list \<Rightarrow> input \<Rightarrow> goerr option \<Rightarrow> fanout \<Rightarrow> fanout \<Rightarrow> bool"
  for ops inp parent where
  execute: "k < length ops \<Longrightarrow> k < length (fo_phases s) \<Longrightarrow> fo_phases s ! k = Waiting \<Longrightarrow>
    fanout_step ops inp parent s
      (s\<lparr>fo_phases := (fo_phases s)[k := Ready (named_result (ops ! k) (fo_err s) inp)]\<rparr>)"
| send: "k < length (fo_phases s) \<Longrightarrow> fo_phases s ! k = Ready r \<Longrightarrow> length (fo_channel s) < length ops \<Longrightarrow>
    fanout_step ops inp parent s
      (s\<lparr>fo_phases := (fo_phases s)[k := Sent], fo_channel := fo_channel s @ [r]\<rparr>)"
| receive: "fo_channel s = r # rs \<Longrightarrow>
    fanout_step ops inp parent s
      (s\<lparr>fo_channel := rs, fo_received := fo_received s @ [r],
         fo_err := (if snd r \<noteq> None \<and> fo_err s = None then Some ctx_canceled else fo_err s)\<rparr>)"
| parent_done: "parent = Some e \<Longrightarrow> fo_err s = None \<Longrightarrow> fanout_step ops inp parent s (s\<lparr>fo_err := Some e\<rparr>)"

inductive_cases fanout_step_elim: "fanout_step ops inp parent s s'"

definition fanout_finished :: "operation list \<Rightarrow> fanout \<Rightarrow> bool" where
  "fanout_finished ops s \<longleftrightarrow> length (fo_received s) = length ops"

section \<open>The decision\<close>

fun join_errors :: "goerr option \<Rightarrow> op_result list \<Rightarrow> goerr option" where
  "join_errors joined [] = joined"
| "join_errors joined ((out, err) # rs) =
     (case err of None \<Rightarrow> join_errors joined rs
      | Some e \<Rightarrow> join_errors (Some (errors_join joined (wrapfs [Lit (oc_Operation out), Lit '': ''] e))) rs)"

definition failures :: "outcome list \<Rightarrow> string list" where
  "failures outs = map (\<lambda>out. oc_Operation out @ '': '' @ oc_Details out)
     (filter (\<lambda>out. oc_Required out \<and> \<not> oc_Success out) outs)"

text \<open>\<open>sort.Slice\<close> is not stable; names that differ leave it no choice.\<close>

definition decide :: "op_result list \<Rightarrow> proc_result result" where
  "decide received =
     (case join_errors None received of
        Some joined \<Rightarrow> Inl joined
      | None \<Rightarrow>
          (let outs = sort_key oc_Operation (map fst received); fs = failures outs
           in if fs \<noteq> [] then
                Inr \<lparr>pr_Status = StatusFailed, pr_Reason = join_with ''; '' fs, pr_Outcomes = outs\<rparr>
              else Inr \<lparr>pr_Status = StatusConfirmed, pr_Reason = '''', pr_Outcomes = outs\<rparr>))"

section \<open>A scheduled run\<close>

datatype fo_move = FoOperation nat | FoReceive | FoParent

definition fo_ready :: "fanout \<Rightarrow> nat \<Rightarrow> bool" where
  "fo_ready s k = (case fo_phases s ! k of
      Waiting \<Rightarrow> True | Ready r \<Rightarrow> length (fo_channel s) < length (fo_phases s) | Sent \<Rightarrow> False)"

definition fo_moves :: "goerr option \<Rightarrow> fanout \<Rightarrow> fo_move list" where
  "fo_moves parent s = map FoOperation (filter (fo_ready s) [0..<length (fo_phases s)])
     @ (if fo_channel s = [] then [] else [FoReceive])
     @ (if parent = None \<or> fo_err s \<noteq> None then [] else [FoParent])"

definition fo_fire :: "operation list \<Rightarrow> input \<Rightarrow> goerr option \<Rightarrow> fo_move \<Rightarrow> fanout \<Rightarrow> fanout" where
  "fo_fire ops inp parent m s = (case m of
      FoOperation k \<Rightarrow> (case fo_phases s ! k of
          Waiting \<Rightarrow> s\<lparr>fo_phases := (fo_phases s)[k := Ready (named_result (ops ! k) (fo_err s) inp)]\<rparr>
        | Ready r \<Rightarrow> s\<lparr>fo_phases := (fo_phases s)[k := Sent], fo_channel := fo_channel s @ [r]\<rparr>
        | Sent \<Rightarrow> s)
    | FoReceive \<Rightarrow> s\<lparr>fo_channel := tl (fo_channel s), fo_received := fo_received s @ [hd (fo_channel s)],
        fo_err := (if snd (hd (fo_channel s)) \<noteq> None \<and> fo_err s = None then Some ctx_canceled else fo_err s)\<rparr>
    | FoParent \<Rightarrow> s\<lparr>fo_err := parent\<rparr>)"

definition phase_cost :: "phase \<Rightarrow> nat" where
  "phase_cost ph = (case ph of Waiting \<Rightarrow> 3 | Ready r \<Rightarrow> 2 | Sent \<Rightarrow> 0)"

definition fo_cost :: "fanout \<Rightarrow> nat" where
  "fo_cost s = sum_list (map phase_cost (fo_phases s)) + length (fo_channel s) + (if fo_err s = None then 1 else 0)"

lemma phase_cost_update:
  assumes "k < length phs" and "phase_cost x + d = phase_cost (phs ! k)"
  shows "sum_list (map phase_cost (phs[k := x])) + d = sum_list (map phase_cost phs)"
proof -
  have "phs = take k phs @ phs ! k # drop (Suc k) phs" using assms(1) by (rule id_take_nth_drop)
  moreover have "phs[k := x] = take k phs @ x # drop (Suc k) phs" using assms(1) by (rule upd_conv_take_nth_drop)
  ultimately have "sum_list (map phase_cost phs) = sum_list (map phase_cost (take k phs)) + phase_cost (phs ! k)
      + sum_list (map phase_cost (drop (Suc k) phs))"
    and "sum_list (map phase_cost (phs[k := x])) = sum_list (map phase_cost (take k phs)) + phase_cost x
      + sum_list (map phase_cost (drop (Suc k) phs))"
    by (metis add.assoc list.simps(9) map_append sum_list.Cons sum_list.append)+
  then show ?thesis using assms(2) by simp
qed

lemma fanout_step_cost: "fanout_step ops inp parent s s' \<Longrightarrow> fo_cost s' < fo_cost s"
proof (erule fanout_step_elim)
  fix k assume s': "s' = s\<lparr>fo_phases := (fo_phases s)[k := Ready (named_result (ops ! k) (fo_err s) inp)]\<rparr>"
    and k: "k < length (fo_phases s)" "fo_phases s ! k = Waiting"
  then show ?thesis
    using phase_cost_update [OF k(1), of "Ready (named_result (ops ! k) (fo_err s) inp)" 1]
    by (simp add: fo_cost_def phase_cost_def)
next
  fix k r assume s': "s' = s\<lparr>fo_phases := (fo_phases s)[k := Sent], fo_channel := fo_channel s @ [r]\<rparr>"
    and k: "k < length (fo_phases s)" "fo_phases s ! k = Ready r" "length (fo_channel s) < length ops"
  then show ?thesis
    using phase_cost_update [OF k(1), of Sent 2] by (simp add: fo_cost_def phase_cost_def)
qed (auto simp: fo_cost_def)

definition fo_shape :: "operation list \<Rightarrow> fanout \<Rightarrow> bool" where
  "fo_shape ops s \<longleftrightarrow> length (fo_phases s) = length ops"

lemma fo_fire_step:
  assumes "m \<in> set (fo_moves parent s)" and "fo_shape ops s"
  shows "fanout_step ops inp parent s (fo_fire ops inp parent m s)"
proof (cases m)
  case (FoOperation k)
  then have "k < length ops" "k < length (fo_phases s)" "fo_ready s k" "length (fo_phases s) = length ops"
    using assms by (auto simp: fo_moves_def fo_shape_def split: if_splits)
  then show ?thesis
    by (cases "fo_phases s ! k") (auto simp: FoOperation fo_fire_def fo_ready_def intro: fanout_step.intros)
next
  case FoReceive
  then obtain r rs where "fo_channel s = r # rs"
    using assms by (cases "fo_channel s") (auto simp: fo_moves_def split: if_splits)
  then show ?thesis using fanout_step.receive [of s r rs ops inp parent] by (simp add: FoReceive fo_fire_def)
next
  case FoParent
  then show ?thesis
    using assms by (auto simp: fo_moves_def fo_fire_def split: if_splits intro: fanout_step.parent_done)
qed

lemma fanout_step_shape: "fanout_step ops inp parent s s' \<Longrightarrow> fo_shape ops s = fo_shape ops s'"
  by (auto simp: fo_shape_def elim!: fanout_step_elim)

function fo_loop ::
  "(nat \<Rightarrow> nat) \<Rightarrow> nat \<Rightarrow> operation list \<Rightarrow> input \<Rightarrow> goerr option \<Rightarrow> fanout \<Rightarrow> fanout" where
  "fo_loop sched t ops inp parent s =
     (let ms = fo_moves parent s
      in if fanout_finished ops s \<or> ms = [] \<or> \<not> fo_shape ops s then s
         else fo_loop sched (Suc t) ops inp parent (fo_fire ops inp parent (ms ! (sched t mod length ms)) s))"
  by pat_completeness auto
termination
proof (relation "measure (\<lambda>(sched, t, ops, inp, parent, s). fo_cost s)")
  fix sched :: "nat \<Rightarrow> nat" and t ops inp parent s and ms :: "fo_move list"
  assume "ms = fo_moves parent s" "\<not> (fanout_finished ops s \<or> ms = [] \<or> \<not> fo_shape ops s)"
  moreover from this have "ms ! (sched t mod length ms) \<in> set (fo_moves parent s)"
    by (metis length_greater_0_conv mod_less_divisor nth_mem)
  ultimately show "((sched, Suc t, ops, inp, parent, fo_fire ops inp parent (ms ! (sched t mod length ms)) s),
      (sched, t, ops, inp, parent, s)) \<in> measure (\<lambda>(sched, t, ops, inp, parent, s). fo_cost s)"
    using fanout_step_cost fo_fire_step by fastforce
qed simp

declare fo_loop.simps [simp del]

definition Processor_Process ::
  "(nat \<Rightarrow> nat) \<Rightarrow> operation list \<Rightarrow> goerr option \<Rightarrow> input \<Rightarrow> proc_result result" where
  "Processor_Process sched ops parent inp =
     (if ops = [] then Inl (errorf [Lit ''processing pipeline has no operations''])
      else decide (fo_received (fo_loop sched 0 ops inp parent (fanout_init ops))))"

section \<open>What every run has in common\<close>

text \<open>
  \<open>es k\<close> is what operation \<open>k\<close> saw of its context. The results sent so far, in whatever order, are those
  of the operations that have sent; only a context that has ended shows an error.
\<close>

definition sent_results :: "operation list \<Rightarrow> input \<Rightarrow> (nat \<Rightarrow> goerr option) \<Rightarrow> phase list \<Rightarrow> op_result list" where
  "sent_results ops inp es phs =
     map (\<lambda>k. named_result (ops ! k) (es k) inp) (filter (\<lambda>k. phs ! k = Sent) [0..<length phs])"

definition fo_inv :: "operation list \<Rightarrow> input \<Rightarrow> goerr option \<Rightarrow> (nat \<Rightarrow> goerr option) \<Rightarrow> fanout \<Rightarrow> bool" where
  "fo_inv ops inp parent es s \<longleftrightarrow> length (fo_phases s) = length ops
     \<and> mset (fo_received s @ fo_channel s)
         = mset (sent_results ops inp es (fo_phases s))
     \<and> (\<forall>k < length ops. \<forall>r. fo_phases s ! k = Ready r \<longrightarrow> r = named_result (ops ! k) (es k) inp)
     \<and> (\<forall>k < length ops. fo_phases s ! k = Waiting \<longrightarrow> es k = None)
     \<and> (\<forall>k e. es k = Some e \<longrightarrow> fo_err s = Some e)
     \<and> (\<forall>e. fo_err s = Some e \<longrightarrow> parent = Some e \<or> (\<exists>r \<in> set (fo_received s). snd r \<noteq> None))"

lemma fo_inv_init: "fo_inv ops inp parent (\<lambda>k. None) (fanout_init ops)"
  by (auto simp: fo_inv_def fanout_init_def sent_results_def filter_empty_conv)

lemma filter_update:
  assumes "k < length phs" and "\<not> P (phs ! k)"
  shows "P x \<Longrightarrow> mset (filter (\<lambda>j. P (phs[k := x] ! j)) [0..<length phs])
      = add_mset k (mset (filter (\<lambda>j. P (phs ! j)) [0..<length phs]))"
    and "\<not> P x \<Longrightarrow> filter (\<lambda>j. P (phs[k := x] ! j)) [0..<length phs] = filter (\<lambda>j. P (phs ! j)) [0..<length phs]"
proof -
  have split: "[0..<length phs] = [0..<k] @ k # [Suc k..<length phs]"
    using assms(1) upt_add_eq_append [of 0 k "length phs - k"] upt_conv_Cons [of k "length phs"] by simp
  have low: "filter (\<lambda>j. P (phs[k := x] ! j)) [0..<k] = filter (\<lambda>j. P (phs ! j)) [0..<k]"
    by (rule filter_cong) auto
  have high: "filter (\<lambda>j. P (phs[k := x] ! j)) [Suc k..<length phs] = filter (\<lambda>j. P (phs ! j)) [Suc k..<length phs]"
    by (rule filter_cong) auto
  show "P x \<Longrightarrow> mset (filter (\<lambda>j. P (phs[k := x] ! j)) [0..<length phs])
      = add_mset k (mset (filter (\<lambda>j. P (phs ! j)) [0..<length phs]))"
    unfolding split filter_append filter.simps low high using assms by simp
  show "\<not> P x \<Longrightarrow> filter (\<lambda>j. P (phs[k := x] ! j)) [0..<length phs] = filter (\<lambda>j. P (phs ! j)) [0..<length phs]"
    unfolding split filter_append filter.simps low high using assms by simp
qed

lemma sent_execute:
  assumes "k < length phs" and "phs ! k = Waiting"
  shows "sent_results ops inp (es(k := x)) (phs[k := Ready y]) = sent_results ops inp es phs"
proof -
  have "filter (\<lambda>j. phs[k := Ready y] ! j = Sent) [0..<length phs] = filter (\<lambda>j. phs ! j = Sent) [0..<length phs]"
    using filter_update(2) [OF assms(1), of "\<lambda>ph. ph = Sent" "Ready y"] assms(2) by simp
  then show ?thesis using assms(2) by (auto simp: sent_results_def)
qed

lemma sent_send:
  assumes "k < length phs" and "phs ! k = Ready (named_result (ops ! k) (es k) inp)"
  shows "mset (sent_results ops inp es (phs[k := Sent]))
    = add_mset (named_result (ops ! k) (es k) inp) (mset (sent_results ops inp es phs))"
proof -
  have "mset (filter (\<lambda>j. phs[k := Sent] ! j = Sent) [0..<length phs])
      = add_mset k (mset (filter (\<lambda>j. phs ! j = Sent) [0..<length phs]))"
    using filter_update(1) [OF assms(1), of "\<lambda>ph. ph = Sent" Sent] assms(2) by simp
  then show ?thesis by (simp add: sent_results_def del: mset_filter)
qed

lemma sent_all:
  assumes "\<forall>k < length phs. phs ! k = Sent"
  shows "sent_results ops inp es phs = map (\<lambda>k. named_result (ops ! k) (es k) inp) [0..<length phs]"
proof -
  have "filter (\<lambda>k. phs ! k = Sent) [0..<length phs] = [0..<length phs]"
    using assms by (intro filter_True) simp
  then show ?thesis by (simp add: sent_results_def)
qed

lemma sent_length:
  "length (sent_results ops inp es phs) \<le> length phs"
  "length (sent_results ops inp es phs) = length phs \<Longrightarrow> \<forall>k < length phs. phs ! k = Sent"
proof -
  let ?f = "filter (\<lambda>k. phs ! k = Sent) [0..<length phs]"
  show "length (sent_results ops inp es phs) \<le> length phs"
    using length_filter_le [of "\<lambda>k. phs ! k = Sent" "[0..<length phs]"] by (simp add: sent_results_def)
  assume "length (sent_results ops inp es phs) = length phs"
  then have "\<not> length ?f < length [0..<length phs]" by (simp add: sent_results_def)
  then show "\<forall>k < length phs. phs ! k = Sent"
    using length_filter_less [of _ "[0..<length phs]" "\<lambda>k. phs ! k = Sent"] by auto
qed

lemma fo_inv_step:
  assumes "fo_inv ops inp parent es s" and "fanout_step ops inp parent s s'"
  shows "\<exists>es'. fo_inv ops inp parent es' s'"
  using assms(2)
proof cases
  case (execute k)
  have "fo_inv ops inp parent (es(k := fo_err s)) s'"
    using assms(1) execute sent_execute [OF execute(3,4)]
    by (auto simp: fo_inv_def nth_list_update simp del: mset_append)
  then show ?thesis by blast
next
  case (send k r)
  have k: "k < length ops"
    using send(2) assms(1) by (simp add: fo_inv_def)
  have r: "r = named_result (ops ! k) (es k) inp"
    using k send(3) assms(1) unfolding fo_inv_def by blast
  have m: "mset (sent_results ops inp es ((fo_phases s)[k := Sent])) = add_mset r (mset (sent_results ops inp es (fo_phases s)))"
    using sent_send [OF send(2), of ops es inp] send(3) by (simp add: r)
  have ph: "(fo_phases s)[k := Sent] ! j = (if j = k then Sent else fo_phases s ! j)" if "j < length ops" for j
    using that assms(1) by (simp add: fo_inv_def nth_list_update)
  have "fo_inv ops inp parent es s'"
    using assms(1) unfolding fo_inv_def send(1) by (simp add: ph m)
  then show ?thesis by blast
next
  case (receive r rs)
  have "fo_inv ops inp parent es s'"
    using assms(1) receive by (auto simp: fo_inv_def)
  then show ?thesis by blast
next
  case (parent_done e)
  have "fo_inv ops inp parent es s'"
    using assms(1) parent_done by (auto simp: fo_inv_def)
  then show ?thesis by blast
qed

lemma fo_inv_run:
  assumes "(fanout_step ops inp parent)\<^sup>*\<^sup>* (fanout_init ops) s"
  shows "\<exists>es. fo_inv ops inp parent es s"
  using assms
proof (induction rule: rtranclp_induct)
  case base
  show ?case using fo_inv_init by blast
next
  case (step s s')
  then show ?case using fo_inv_step by blast
qed

lemma fo_finished:
  assumes "fo_inv ops inp parent es s" and "fanout_finished ops s"
  shows "mset (fo_received s) = mset (map (\<lambda>k. named_result (ops ! k) (es k) inp) [0..<length ops])"
proof -
  let ?sent = "sent_results ops inp es (fo_phases s)"
  have m: "mset (fo_received s @ fo_channel s) = mset ?sent" and n: "length (fo_phases s) = length ops"
    using assms(1) by (simp_all add: fo_inv_def)
  have "length (fo_received s) + length (fo_channel s) = length ?sent"
    using arg_cong [OF m, of size] by simp
  then have "length (fo_channel s) = 0 \<and> length ?sent = length ops"
    using assms(2) sent_length(1) [of ops inp es "fo_phases s"] n unfolding fanout_finished_def by linarith
  then have "fo_channel s = []" "length ?sent = length ops" by simp_all
  then show ?thesis
    using m n sent_all [OF sent_length(2) [of ops inp es "fo_phases s"]] by simp
qed

text \<open>As long as results are missing, something can move; and every step lowers the cost.\<close>

lemma fo_not_stuck:
  assumes "fo_inv ops inp parent es s" and "\<not> fanout_finished ops s"
  shows "fo_moves parent s \<noteq> []"
proof
  assume e: "fo_moves parent s = []"
  then have stuck: "\<forall>k < length (fo_phases s). \<not> fo_ready s k" and "fo_channel s = []"
    by (auto simp: fo_moves_def filter_empty_conv split: if_splits)
  have sent: "\<forall>k < length (fo_phases s). fo_phases s ! k = Sent"
  proof (intro allI impI)
    fix k assume "k < length (fo_phases s)"
    then show "fo_phases s ! k = Sent"
      using stuck \<open>fo_channel s = []\<close> by (cases "fo_phases s ! k") (auto simp: fo_ready_def)
  qed
  then have "mset (fo_received s) = mset (sent_results ops inp es (fo_phases s))"
    using \<open>fo_channel s = []\<close> assms(1) by (simp add: fo_inv_def)
  then have "length (fo_received s) = length (sent_results ops inp es (fo_phases s))"
    by (rule mset_eq_length)
  then have "length (fo_received s) = length ops"
    using assms(1) by (simp add: sent_all [OF sent] fo_inv_def)
  then show False using assms(2) by (simp add: fanout_finished_def)
qed

text \<open>The channel is never full for a goroutine that has a result to send.\<close>

lemma fo_room:
  assumes "fo_inv ops inp parent es s" and "k < length (fo_phases s)" and "fo_phases s ! k \<noteq> Sent"
  shows "length (fo_received s) + length (fo_channel s) < length ops"
proof -
  let ?sent = "sent_results ops inp es (fo_phases s)"
  have m: "mset (fo_received s @ fo_channel s) = mset ?sent" and n: "length (fo_phases s) = length ops"
    using assms(1) by (simp_all add: fo_inv_def)
  have "length (fo_received s) + length (fo_channel s) = length ?sent"
    using arg_cong [OF m, of size] by simp
  moreover have "length ?sent \<noteq> length (fo_phases s)" using sent_length(2) assms(2,3) by blast
  ultimately show ?thesis using sent_length(1) [of ops inp es "fo_phases s"] n by linarith
qed

lemma fo_loop_run:
  "(fanout_step ops inp parent)\<^sup>*\<^sup>* (fanout_init ops) s \<Longrightarrow>
     (fanout_step ops inp parent)\<^sup>*\<^sup>* (fanout_init ops) (fo_loop sched t ops inp parent s)
     \<and> fanout_finished ops (fo_loop sched t ops inp parent s)"
proof (induction sched t ops inp parent s rule: fo_loop.induct)
  case (1 sched t ops inp parent s)
  obtain es where inv: "fo_inv ops inp parent es s" using fo_inv_run [OF "1.prems"] by blast
  then have shape: "fo_shape ops s" by (simp add: fo_inv_def fo_shape_def)
  show ?case
  proof (cases "fanout_finished ops s")
    case True
    then show ?thesis using "1.prems" by (subst (1 2) fo_loop.simps) (simp add: Let_def)
  next
    case False
    let ?ms = "fo_moves parent s"
    let ?s = "fo_fire ops inp parent (?ms ! (sched t mod length ?ms)) s"
    have ms: "?ms \<noteq> []" using fo_not_stuck [OF inv False] .
    then have "?ms ! (sched t mod length ?ms) \<in> set ?ms"
      by (metis length_greater_0_conv mod_less_divisor nth_mem)
    then have "fanout_step ops inp parent s ?s" using fo_fire_step [OF _ shape] by blast
    then have "(fanout_step ops inp parent)\<^sup>*\<^sup>* (fanout_init ops) ?s" using "1.prems" by auto
    then show ?thesis
      using "1.IH" [OF refl] False ms shape by (subst (1 2) fo_loop.simps) (simp add: Let_def)
  qed
qed

section \<open>A pipeline of well-behaved operations\<close>

text \<open>
  What the processor relies on: an operation names its own outcome, no two share a name, an operation
  whose context is live reports no technical error, and one whose context has ended reports that end.
\<close>

locale pipeline =
  fixes ops :: "operation list"
  assumes named: "op \<in> set ops \<Longrightarrow> oc_Operation (fst (named_result op ctxErr inp)) = op_Name op"
    and names: "distinct (map op_Name ops)"
    and live: "op \<in> set ops \<Longrightarrow> snd (op_Execute op None inp) = None"
    and ended: "op \<in> set ops \<Longrightarrow> snd (op_Execute op (Some err) inp) = Some err"

lemma named_result_snd: "snd (named_result op ctxErr inp) = snd (op_Execute op ctxErr inp)"
  by (simp add: named_result_def split: prod.split)

lemma filter_distinct_key: "distinct (map f xs) \<Longrightarrow> x \<in> set xs \<Longrightarrow> filter (\<lambda>y. f x = f y) xs = [x]"
proof (induction xs)
  case (Cons z xs)
  show ?case
  proof (cases "x = z")
    case True
    then have "filter (\<lambda>y. f x = f y) xs = []" using Cons.prems(1) by (auto simp: filter_empty_conv image_iff)
    then show ?thesis using True by simp
  next
    case False
    then have "f x \<noteq> f z" using Cons.prems by (auto simp: image_iff)
    then show ?thesis using False Cons by simp
  qed
qed simp

lemma sort_key_unique:
  assumes "mset xs = mset ys" and "distinct (map f ys)"
  shows "sort_key f xs = sort_key f ys"
proof (rule properties_for_sort_key)
  show "mset (sort_key f ys) = mset xs" using assms(1) by simp
  fix k assume "k \<in> set (sort_key f ys)"
  then have ky: "k \<in> set ys" and kx: "k \<in> set xs"
    using assms(1) by (auto dest: mset_eq_setD)
  have "distinct (map f xs)" and "distinct (map f (sort_key f ys))"
    using assms mset_eq_imp_distinct_iff [of "map f xs" "map f ys"]
      mset_eq_imp_distinct_iff [of "map f (sort_key f ys)" "map f ys"] by simp_all
  then show "filter (\<lambda>x. f k = f x) (sort_key f ys) = filter (\<lambda>x. f k = f x) xs"
    using ky kx by (simp add: filter_distinct_key)
qed simp

lemma join_errors_None: "join_errors j rs = None \<longleftrightarrow> j = None \<and> (\<forall>r \<in> set rs. snd r = None)"
  by (induction j rs rule: join_errors.induct) (auto split: option.split)

lemma join_errors_is:
  "join_errors j rs = Some e \<Longrightarrow>
     errors_is e s \<longleftrightarrow> (\<exists>a. j = Some a \<and> errors_is a s) \<or> (\<exists>r \<in> set rs. \<exists>a. snd r = Some a \<and> errors_is a s)"
  by (induction j rs arbitrary: e rule: join_errors.induct)
     (auto simp: errors_is_join split: option.splits)

lemma decide_same:
  assumes "mset rs = mset qs" and "distinct (map (\<lambda>r. oc_Operation (fst r)) qs)" and "\<forall>r \<in> set qs. snd r = None"
  shows "decide rs = decide qs"
proof -
  have "sort_key oc_Operation (map fst rs) = sort_key oc_Operation (map fst qs)"
    using assms(1,2) by (intro sort_key_unique) (simp_all add: comp_def)
  moreover have "set rs = set qs" using assms(1) by (rule mset_eq_setD)
  then have "join_errors None rs = None" "join_errors None qs = None"
    using assms(3) by (simp_all add: join_errors_None)
  ultimately show ?thesis by (simp add: decide_def)
qed

text \<open>The results in flight: computed, sent or received.\<close>

definition in_flight :: "fanout \<Rightarrow> op_result set" where
  "in_flight s = {r. Ready r \<in> set (fo_phases s)} \<union> set (fo_channel s) \<union> set (fo_received s)"

definition honest :: "goerr option \<Rightarrow> fanout \<Rightarrow> bool" where
  "honest parent s \<longleftrightarrow> (fo_err s = None \<or> fo_err s = parent)
     \<and> (\<forall>r \<in> in_flight s. snd r \<noteq> None \<longrightarrow> fo_err s \<noteq> None \<and> snd r = fo_err s)"

lemma honest_more:
  assumes "honest parent s" and "fo_err s' = fo_err s" and "in_flight s' \<subseteq> insert r (in_flight s)"
    and "snd r \<noteq> None \<Longrightarrow> snd r = fo_err s"
  shows "honest parent s'"
  unfolding honest_def assms(2)
proof (intro conjI ballI impI)
  show "fo_err s = None \<or> fo_err s = parent" using assms(1) by (simp add: honest_def)
  fix q assume q: "q \<in> in_flight s'" "snd q \<noteq> None"
  have "snd q = fo_err s"
  proof (cases "q = r")
    case True
    then show ?thesis using assms(4) q(2) by simp
  next
    case False
    then have "q \<in> in_flight s" using assms(3) q(1) by blast
    then show ?thesis using assms(1) q(2) by (simp add: honest_def)
  qed
  then show "snd q = fo_err s" and "fo_err s \<noteq> None" using q(2) by simp_all
qed

lemma in_flight_update:
  "in_flight (s\<lparr>fo_phases := (fo_phases s)[k := Ready r]\<rparr>) \<subseteq> insert r (in_flight s)"
  "in_flight (s\<lparr>fo_phases := (fo_phases s)[k := Sent], fo_channel := fo_channel s @ [r]\<rparr>) \<subseteq> insert r (in_flight s)"
  using set_update_subset_insert [of "fo_phases s" k] by (fastforce simp: in_flight_def)+

context pipeline
begin

lemma honest_step:
  assumes "honest parent s" and "fanout_step ops inp parent s s'"
  shows "honest parent s'"
  using assms(2)
proof cases
  case (execute k)
  have "snd (named_result (ops ! k) (fo_err s) inp) = fo_err s"
    using execute(2) live [of "ops ! k"] ended [of "ops ! k"] by (cases "fo_err s") (simp_all add: named_result_snd)
  then show ?thesis
    unfolding execute(1) by (intro honest_more [OF assms(1) _ in_flight_update(1)]) simp_all
next
  case (send k r)
  have "Ready r \<in> set (fo_phases s)" using send(2,3) by (metis nth_mem)
  then have "r \<in> in_flight s" by (simp add: in_flight_def)
  then have "snd r \<noteq> None \<Longrightarrow> snd r = fo_err s" using assms(1) by (simp add: honest_def)
  then show ?thesis
    unfolding send(1) by (intro honest_more [OF assms(1) _ in_flight_update(2)]) simp_all
next
  case (receive r rs)
  have "r \<in> in_flight s" and f: "in_flight s' = in_flight s"
    using receive by (auto simp: in_flight_def)
  then have "snd r = None \<or> fo_err s \<noteq> None" using assms(1) by (auto simp: honest_def)
  then have "fo_err s' = fo_err s" unfolding receive(1) by auto
  then show ?thesis using assms(1) f by (simp add: honest_def)
next
  case (parent_done e)
  have "in_flight s' = in_flight s" by (simp add: parent_done(1) in_flight_def)
  moreover have "\<forall>r \<in> in_flight s. snd r = None" using assms(1) parent_done(3) by (auto simp: honest_def)
  ultimately show ?thesis using parent_done(1,2) by (simp add: honest_def)
qed

lemma honest_run: "(fanout_step ops inp parent)\<^sup>*\<^sup>* (fanout_init ops) s \<Longrightarrow> honest parent s"
proof (induction rule: rtranclp_induct)
  case base
  show ?case by (auto simp: honest_def in_flight_def fanout_init_def)
qed (rule honest_step)

text \<open>At the end the collector holds the decision of the operations run one after the other, or the
  caller's context has ended and it holds nothing but that.\<close>

lemma finished_decision:
  assumes "(fanout_step ops inp parent)\<^sup>*\<^sup>* (fanout_init ops) s" and "fanout_finished ops s"
  shows "decide (fo_received s) = decide (map (\<lambda>op. named_result op None inp) ops)
    \<or> (\<exists>e j. parent = Some e \<and> decide (fo_received s) = Inl j \<and> (\<forall>x. errors_is j x \<longleftrightarrow> errors_is e x))"
proof -
  obtain es where inv: "fo_inv ops inp parent es s" using fo_inv_run [OF assms(1)] by blast
  note all = fo_finished [OF inv assms(2)] and hon = honest_run [OF assms(1)]
  let ?f = "\<lambda>k. named_result (ops ! k) (es k) inp"
  show ?thesis
  proof (cases "\<forall>k < length ops. es k = None")
    case True
    then have eq: "map ?f [0..<length ops] = map (\<lambda>op. named_result op None inp) ops"
      by (intro nth_equalityI) simp_all
    have "map (\<lambda>r. oc_Operation (fst r)) (map (\<lambda>op. named_result op None inp) ops) = map op_Name ops"
      by (simp add: named)
    then have "distinct (map (\<lambda>r. oc_Operation (fst r)) (map (\<lambda>op. named_result op None inp) ops))"
      using names by metis
    moreover have "\<forall>r \<in> set (map (\<lambda>op. named_result op None inp) ops). snd r = None"
      using live by (auto simp: named_result_snd)
    ultimately show ?thesis using decide_same [OF all [unfolded eq]] by blast
  next
    case False
    then obtain k e where k: "k < length ops" "es k = Some e" by auto
    have "?f k \<in># mset (map ?f [0..<length ops])" using k(1) by auto
    then have mem: "?f k \<in> set (fo_received s)" unfolding all [symmetric] by simp
    have err: "snd (?f k) = Some e" using k ended [of "ops ! k"] by (simp add: named_result_snd)
    have flight: "set (fo_received s) \<subseteq> in_flight s" by (auto simp: in_flight_def)
    with hon mem err have ctx: "fo_err s = Some e" "parent = Some e" by (auto simp: honest_def)
    have same: "a = e" if "r \<in> set (fo_received s)" "snd r = Some a" for r a
      using hon flight ctx(1) that by (auto simp: honest_def)
    have "\<not> (\<forall>r \<in> set (fo_received s). snd r = None)" using mem err by (metis option.distinct(1))
    then obtain j where j: "join_errors None (fo_received s) = Some j"
      using join_errors_None [of None "fo_received s"] by auto
    have "errors_is j x \<longleftrightarrow> errors_is e x" for x
      unfolding join_errors_is [OF j] using same mem err by (metis option.distinct(1))
    moreover have "decide (fo_received s) = Inl j" by (simp add: decide_def j)
    ultimately show ?thesis using ctx(2) by blast
  qed
qed

end

definition shop_operations :: "int32 \<Rightarrow> operation list" where
  "shop_operations m = [Inventory m, Delivery, Notification]"

lemmas operation_defs = Inventory_def Delivery_def Notification_def
  Inventory_Execute_def Delivery_Execute_def Notification_Execute_def

interpretation shop: pipeline "shop_operations m" for m
  by unfold_locales
     (auto simp: shop_operations_def operation_defs named_result_def Let_def split: option.split)

section \<open>Properties\<close>

definition stock_limit :: "int32 \<Rightarrow> int" where
  "stock_limit m = (if sint m \<le> 0 then 100 else sint m)"

definition shop_outcomes :: "bool \<Rightarrow> string \<Rightarrow> outcome list" where
  "shop_outcomes stock details =
     [\<lparr>oc_Operation = ''delivery'', oc_Success = True, oc_Required = True, oc_Details = ''calculated''\<rparr>,
      \<lparr>oc_Operation = ''inventory'', oc_Success = stock, oc_Required = True, oc_Details = details\<rparr>,
      \<lparr>oc_Operation = ''notification'', oc_Success = True, oc_Required = False, oc_Details = ''prepared''\<rparr>]"

text \<open>The decision as the business states it: confirmed unless an item exceeds the stock of its SKU.\<close>

definition shop_verdict :: "int32 \<Rightarrow> input \<Rightarrow> proc_result" where
  "shop_verdict m inp =
     (case filter (\<lambda>i. stock_limit m < sint (Quantity i)) (in_Items inp) of
        [] \<Rightarrow> \<lparr>pr_Status = StatusConfirmed, pr_Reason = '''',
               pr_Outcomes = shop_outcomes True (''reserved at warehouse '' @ in_WarehouseID inp)\<rparr>
      | i # is \<Rightarrow> \<lparr>pr_Status = StatusFailed, pr_Reason = ''inventory: insufficient stock for '' @ SKU i,
               pr_Outcomes = shop_outcomes False (''insufficient stock for '' @ SKU i)\<rparr>)"

lemma find_filter: "find P xs = (case filter P xs of [] \<Rightarrow> None | x # _ \<Rightarrow> Some x)"
  by (induction xs) auto

lemma string_order [simp]:
  "(CHR ''d'' # xs :: string) \<le> CHR ''i'' # ys" "(CHR ''i'' # xs :: string) \<le> CHR ''n'' # ys"
  "(CHR ''d'' # xs :: string) \<le> CHR ''n'' # ys" "\<not> (CHR ''i'' # xs :: string) \<le> CHR ''d'' # ys"
  by (simp_all add: less_char_def)

lemma Inventory_decides:
  "Inventory_Execute m None inp =
     (case filter (\<lambda>i. stock_limit m < sint (Quantity i)) (in_Items inp) of
        [] \<Rightarrow> (\<lparr>oc_Operation = ''inventory'', oc_Success = True, oc_Required = True,
                oc_Details = ''reserved at warehouse '' @ in_WarehouseID inp\<rparr>, None)
      | i # is \<Rightarrow> (\<lparr>oc_Operation = ''inventory'', oc_Success = False, oc_Required = True,
                oc_Details = ''insufficient stock for '' @ SKU i\<rparr>, None))"
proof -
  have "sint (if sint m \<le> 0 then 100 else m) = stock_limit m" by (simp add: stock_limit_def)
  then show ?thesis by (simp add: Inventory_Execute_def Let_def find_filter split: list.split)
qed

lemma shop_decision: "decide (map (\<lambda>op. named_result op None inp) (shop_operations m)) = Inr (shop_verdict m inp)"
  by (cases "filter (\<lambda>i. stock_limit m < sint (Quantity i)) (in_Items inp)")
     (simp_all add: decide_def shop_operations_def Inventory_def Delivery_def Notification_def Delivery_Execute_def
       Notification_Execute_def Inventory_decides named_result_def shop_verdict_def shop_outcomes_def Let_def failures_def)

lemma fo_step_exists:
  assumes "(fanout_step ops inp parent)\<^sup>*\<^sup>* (fanout_init ops) s" and "\<not> fanout_finished ops s"
  shows "\<exists>s'. fanout_step ops inp parent s s'"
proof -
  obtain es where inv: "fo_inv ops inp parent es s" using fo_inv_run [OF assms(1)] by blast
  then have "fo_shape ops s" by (simp add: fo_inv_def fo_shape_def)
  moreover obtain m where "m \<in> set (fo_moves parent s)"
    using fo_not_stuck [OF inv assms(2)] by (cases "fo_moves parent s") auto
  ultimately show ?thesis using fo_fire_step by blast
qed

text \<open>
  C12. The status of an order does not depend on how the goroutines of its operations interleave. However a
  run of inventory, delivery and notification ends, it is the business decision: CONFIRMED unless an
  item asks for more than the limit, else FAILED for the first such SKU. Only when the caller's context
  ended meanwhile may the run report an error instead, and then \<open>errors.Is\<close> sees exactly that end in it.
\<close>
theorem processing_is_deterministic:
  assumes "(fanout_step (shop_operations m) inp parent)\<^sup>*\<^sup>* (fanout_init (shop_operations m)) s"
    and "fanout_finished (shop_operations m) s"
  shows "decide (fo_received s) = Inr (shop_verdict m inp)
    \<or> (\<exists>e j. parent = Some e \<and> decide (fo_received s) = Inl j \<and> (\<forall>x. errors_is j x \<longleftrightarrow> errors_is e x))"
  using shop.finished_decision [OF assms] unfolding shop_decision .

definition sample_input :: input where
  "sample_input = \<lparr>in_OrderID = ''1'', in_WarehouseID = ''9'', in_Currency = ''RUB'', in_TotalAmountMinor = 3048,
     in_Items = cmd_Items sample_command\<rparr>"

theorem processing_is_deterministic_witness:
  "decide (fo_received (fo_loop (\<lambda>t. 7 * t) 0 (shop_operations 100) sample_input None (fanout_init (shop_operations 100))))
     = Inr (shop_verdict 100 sample_input)
   \<and> pr_Status (shop_verdict 100 sample_input) = StatusConfirmed
   \<and> pr_Status (shop_verdict 2 sample_input) = StatusFailed"
proof -
  have v: "pr_Status (shop_verdict 100 sample_input) = StatusConfirmed" "pr_Status (shop_verdict 2 sample_input) = StatusFailed"
    by (simp_all add: shop_verdict_def sample_input_def sample_command_def stock_limit_def)
  show ?thesis
    using processing_is_deterministic [OF conjunct1 [OF fo_loop_run] conjunct2 [OF fo_loop_run],
        of 100 sample_input None "fanout_init (shop_operations 100)" "\<lambda>t. 7 * t" 0] v by simp
qed

text \<open>
  C37. \<open>Process\<close> always returns: from every state it can reach, either all results are in or a goroutine
  or the collector can move, and every move brings the end closer; without operations it is an error.
  Its result is the decision at the end of such a run. The channel has room for every result that is still
  to be sent, so no goroutine is ever left waiting to send.
\<close>
theorem Processor_Process_returns:
  assumes "(fanout_step ops inp parent)\<^sup>*\<^sup>* (fanout_init ops) s"
  shows "(fanout_finished ops s \<or> (\<exists>s'. fanout_step ops inp parent s s'))
    \<and> (\<forall>s'. fanout_step ops inp parent s s' \<longrightarrow> fo_cost s' < fo_cost s)
    \<and> (\<forall>k < length (fo_phases s). fo_phases s ! k \<noteq> Sent \<longrightarrow> length (fo_channel s) < length ops)
    \<and> Processor_Process sched [] parent inp = Inl (errorf [Lit ''processing pipeline has no operations''])
    \<and> (ops = [] \<or> (\<exists>s'. (fanout_step ops inp parent)\<^sup>*\<^sup>* (fanout_init ops) s' \<and> fanout_finished ops s'
         \<and> Processor_Process sched ops parent inp = decide (fo_received s')))"
proof -
  have "\<forall>k < length (fo_phases s). fo_phases s ! k \<noteq> Sent \<longrightarrow> length (fo_channel s) < length ops"
    using fo_inv_run [OF assms] fo_room by (metis add_lessD1 add.commute)
  then show ?thesis
    using fo_step_exists [OF assms] fanout_step_cost [of ops inp parent s]
      fo_loop_run [OF rtranclp.rtrancl_refl, of ops inp parent sched 0]
    by (auto simp: Processor_Process_def)
qed

theorem Processor_Process_returns_witness:
  "\<exists>s'. fanout_finished (shop_operations 100) s'
     \<and> Processor_Process (\<lambda>t. t) (shop_operations 100) (Some ctx_canceled) sample_input = decide (fo_received s')"
  using Processor_Process_returns [OF rtranclp.rtrancl_refl, of "shop_operations 100" sample_input "Some ctx_canceled" "\<lambda>t. t"]
  by (auto simp: shop_operations_def)

text \<open>
  C28. What the collector decides, from any results: with a technical error among them the order gets no
  status, and \<open>errors.Is\<close> finds in the joined error exactly what it finds in one of theirs; otherwise the
  outcomes are all reported, ordered by name, and the order is FAILED when a required operation did not
  succeed (with the reasons), and CONFIRMED otherwise.
\<close>
theorem decide_characterised:
  "case decide results of
     Inl joined \<Rightarrow> (\<exists>r \<in> set results. snd r \<noteq> None)
       \<and> (\<forall>x. errors_is joined x \<longleftrightarrow> (\<exists>r \<in> set results. \<exists>e. snd r = Some e \<and> errors_is e x))
   | Inr res \<Rightarrow> (\<forall>r \<in> set results. snd r = None)
       \<and> mset (pr_Outcomes res) = mset (map fst results) \<and> sorted (map oc_Operation (pr_Outcomes res))
       \<and> pr_Status res = (if \<exists>r \<in> set results. oc_Required (fst r) \<and> oc_Success (fst r) = False
            then StatusFailed else StatusConfirmed)
       \<and> pr_Reason res = join_with ''; '' (failures (pr_Outcomes res))"
proof (cases "join_errors None results")
  case (Some j)
  then have "\<not> (\<forall>r \<in> set results. snd r = None)"
    using join_errors_None [of None results] by simp
  then show ?thesis
    using join_errors_is [OF Some] by (simp add: decide_def Some)
next
  case None
  then have "\<forall>r \<in> set results. snd r = None" by (simp add: join_errors_None)
  moreover have "failures (sort_key oc_Operation (map fst results)) = []
      \<longleftrightarrow> \<not> (\<exists>r \<in> set results. oc_Required (fst r) \<and> oc_Success (fst r) = False)"
    by (auto simp: failures_def filter_empty_conv)
  ultimately show ?thesis by (auto simp: decide_def None Let_def)
qed

theorem decide_characterised_witness:
  "\<exists>joined. decide [(\<lparr>oc_Operation = ''inventory'', oc_Success = False, oc_Required = True, oc_Details = ''''\<rparr>, Some ctx_canceled)]
     = Inl joined \<and> errors_is joined ContextCanceled"
proof -
  let ?rs = "[(\<lparr>oc_Operation = ''inventory'', oc_Success = False, oc_Required = True, oc_Details = ''''\<rparr>, Some ctx_canceled)]"
  have "errors_is ctx_canceled ContextCanceled" by (simp add: ctx_canceled_def errors_is_def)
  then show ?thesis
    using decide_characterised [of ?rs] by (cases "decide ?rs") auto
qed

end
