(* ===== verification/Consumer.thy ===== *)
theory Consumer
  imports Consumer_Repo Worker_Pool Kafka_Producer Processing
begin

text \<open>
  internal/consumer/consumer.go: one Kafka record is decoded, checked, processed and completed, or routed
  to the retry or the dead letter topic; a batch is handled by the worker pool and its offsets are
  committed only when every record was handled; the loop repeats batches. The interfaces of the Go code
  are records; their joint contract is the locale \<open>consumer_contract\<close>.
\<close>

section \<open>Interfaces and configuration\<close>

record 'w consumer_repository =
  cr_IsProcessed :: "ctx \<Rightarrow> uuid \<Rightarrow> string \<Rightarrow> 'w \<Rightarrow> bool result \<times> 'w"
  cr_Complete :: "ctx \<Rightarrow> uuid \<Rightarrow> string \<Rightarrow> uuid \<Rightarrow> status \<Rightarrow> string \<Rightarrow> string \<Rightarrow> 'w \<Rightarrow> bool result \<times> 'w"

type_synonym 'w record_producer = "ctx \<Rightarrow> krecord \<Rightarrow> 'w \<Rightarrow> goerr option \<times> 'w"

type_synonym 'w order_processor = "ctx \<Rightarrow> input \<Rightarrow> 'w \<Rightarrow> proc_result result \<times> 'w"

record consumer_config =
  cc_ConsumerName :: string
  cc_RetryTopic :: string
  cc_DLQTopic :: string
  cc_Workers :: int64
  cc_BatchSize :: int64
  cc_MaxRetries :: int64
  cc_BaseBackoff :: duration
  cc_MaxBackoff :: duration
  cc_Timeout :: duration

text \<open>What the loop uses of the kgo client: a poll gives records and fetch errors.\<close>

record 'w consumer_client =
  cl_PollRecords :: "ctx \<Rightarrow> int64 \<Rightarrow> 'w \<Rightarrow> (krecord list \<times> goerr list) \<times> 'w"
  cl_CommitRecords :: "ctx \<Rightarrow> krecord list \<Rightarrow> 'w \<Rightarrow> goerr option \<times> 'w"
  cl_AllowRebalance :: "'w \<Rightarrow> 'w"

record 'w consumer =
  c_client :: "'w consumer_client"
  c_repository :: "'w consumer_repository"
  c_producer :: "'w record_producer"
  c_processor :: "'w order_processor"
  c_config :: consumer_config

definition databaseTimeout :: duration where "databaseTimeout = 5 * second"

definition NewConsumerOf ::
  "'w consumer_client \<Rightarrow> 'w consumer_repository \<Rightarrow> 'w record_producer \<Rightarrow> 'w order_processor \<Rightarrow> consumer_config \<Rightarrow> 'w consumer" where
  "NewConsumerOf client repository producer processor config =
     \<lparr>c_client = client, c_repository = repository, c_producer = producer, c_processor = processor, c_config = config\<rparr>"

section \<open>Headers\<close>

definition header_of :: "krecord \<Rightarrow> string \<Rightarrow> string option" where
  "header_of msg key = map_option hdr_Value (find (\<lambda>h. hdr_Key h = key) (rec_Headers msg))"

definition headerInt :: "krecord \<Rightarrow> string \<Rightarrow> int64 result" where
  "headerInt msg key = (case header_of msg key of
      None \<Rightarrow> Inr 0
    | Some v \<Rightarrow> (case atoi v of
        None \<Rightarrow> Inl (errorf [Lit ''invalid '', Lit key, Lit '' header''])
      | Some n \<Rightarrow> if sint n < 0 then Inl (errorf [Lit ''invalid '', Lit key, Lit '' header'']) else Inr n))"

definition headerTime :: "('c) codec_scheme \<Rightarrow> krecord \<Rightarrow> string \<Rightarrow> time result" where
  "headerTime C msg key = (case header_of msg key of
      None \<Rightarrow> Inr 0
    | Some v \<Rightarrow> (case lib_time_parse C v of
        None \<Rightarrow> Inl (errorf [Lit ''invalid '', Lit key, Lit '' header''])
      | Some t \<Rightarrow> Inr t))"

definition headerString :: "krecord \<Rightarrow> string \<Rightarrow> string" where
  "headerString msg key = (case header_of msg key of None \<Rightarrow> '''' | Some v \<Rightarrow> v)"

definition copyHeadersWithout :: "header list \<Rightarrow> string list \<Rightarrow> header list" where
  "copyHeadersWithout headers excluded = filter (\<lambda>h. hdr_Key h \<notin> set excluded) headers"

definition truncate_to :: "string \<Rightarrow> int64 \<Rightarrow> string" where
  "truncate_to val limit = (if int (length val) \<le> sint limit then val else take (nat (sint limit)) val)"

section \<open>Delays\<close>

fun backoff_loop :: "nat \<Rightarrow> duration \<Rightarrow> duration \<Rightarrow> duration" where
  "backoff_loop 0 delay maximum = smin delay maximum"
| "backoff_loop (Suc n) delay maximum =
     (if sint (quot64 maximum 2) \<le> sint delay then maximum else backoff_loop n (delay * 2) maximum)"

text \<open>The loop variable runs from 1 to \<open>attempt - 1\<close>.\<close>

definition backoff :: "int64 \<Rightarrow> duration \<Rightarrow> duration \<Rightarrow> duration" where
  "backoff attempt base maximum = backoff_loop (nat (sint attempt - 1)) (smin base maximum) maximum"

text \<open>\<open>time.Until\<close> saturates at the ends of \<open>Duration\<close>.\<close>

definition time_until :: "time \<Rightarrow> time \<Rightarrow> duration" where
  "time_until target now = word_of_int (max (- (2 ^ 63)) (min (2 ^ 63 - 1) (target - now)))"

definition waitUntil :: "'w runtime \<Rightarrow> ctx \<Rightarrow> time \<Rightarrow> (goerr option \<Rightarrow> ('w, 'a) prog) \<Rightarrow> ('w, 'a) prog" where
  "waitUntil R ctx target k =
     (if time_is_zero target then k None
      else call (rt_now R) (\<lambda>now.
        if \<not> now < target then k None
        else call (rt_now R) (\<lambda>now.
          call (rt_timer R ctx (time_until target now)) (\<lambda>fired.
            if fired then k None else call (\<lambda>w. (rt_ctx_err R ctx w, w)) k))))"

section \<open>Routing\<close>

definition routed_headers :: "('c) codec_scheme \<Rightarrow> krecord \<Rightarrow> int64 \<Rightarrow> string \<Rightarrow> time \<Rightarrow> header list" where
  "routed_headers C source attempt reason notBefore =
     (let originalTopic = (if headerString source ''original_topic'' = '''' then rec_Topic source
                           else headerString source ''original_topic'')
      in copyHeadersWithout (rec_Headers source) [''attempt'', ''failure_reason'', ''not_before'', ''original_topic'']
         @ [\<lparr>hdr_Key = ''attempt'', hdr_Value = itoa attempt\<rparr>,
            \<lparr>hdr_Key = ''failure_reason'', hdr_Value = truncate_to reason 1024\<rparr>,
            \<lparr>hdr_Key = ''original_topic'', hdr_Value = originalTopic\<rparr>]
         @ (if time_is_zero notBefore then []
            else [\<lparr>hdr_Key = ''not_before'', hdr_Value = lib_time_format C notBefore\<rparr>]))"

definition routed_record :: "('c) codec_scheme \<Rightarrow> krecord \<Rightarrow> string \<Rightarrow> int64 \<Rightarrow> string \<Rightarrow> time \<Rightarrow> krecord" where
  "routed_record C source topic attempt reason notBefore =
     \<lparr>rec_Topic = topic, rec_Key = rec_Key source, rec_Value = rec_Value source,
      rec_Headers = routed_headers C source attempt reason notBefore, rec_Partition = 0, rec_Offset = 0\<rparr>"

definition route ::
  "('c) codec_scheme \<Rightarrow> 'w consumer \<Rightarrow> ctx \<Rightarrow> krecord \<Rightarrow> string \<Rightarrow> int64 \<Rightarrow> string \<Rightarrow> time \<Rightarrow> 'w \<Rightarrow> goerr option \<times> 'w" where
  "route C c ctx source topic attempt reason notBefore w =
     (case c_producer c (with_timeout ctx (10 * second)) (routed_record C source topic attempt reason notBefore) w of
        (Some err, w1) \<Rightarrow> (Some (wrapfs [Lit ''route record to '', Lit topic, Lit '': ''] err), w1)
      | (None, w1) \<Rightarrow> (None, w1))"

definition count_when_nil :: "'w runtime \<Rightarrow> metric \<Rightarrow> goerr option \<Rightarrow> ('w, goerr option) prog" where
  "count_when_nil R m err = (case err of None \<Rightarrow> act (rt_count R m) (Ret None) | Some e \<Rightarrow> Ret (Some e))"

definition dlq ::
  "'w runtime \<Rightarrow> ('c) codec_scheme \<Rightarrow> 'w consumer \<Rightarrow> ctx \<Rightarrow> krecord \<Rightarrow> int64 \<Rightarrow> string \<Rightarrow> ('w, goerr option) prog" where
  "dlq R C c ctx msg attempt reason =
     call (route C c ctx msg (cc_DLQTopic (c_config c)) attempt reason 0)
       (count_when_nil R (KafkaProcessed (rec_Topic msg) ''dlq''))"

definition retry ::
  "'w runtime \<Rightarrow> ('c) codec_scheme \<Rightarrow> 'w consumer \<Rightarrow> ctx \<Rightarrow> krecord \<Rightarrow> int64 \<Rightarrow> goerr \<Rightarrow> ('w, goerr option) prog" where
  "retry R C c ctx msg currentAttempt cause =
     (let attempt = currentAttempt + 1
      in if sint attempt > sint (cc_MaxRetries (c_config c)) then dlq R C c ctx msg attempt (err_string C cause)
         else (let delay = backoff attempt (cc_BaseBackoff (c_config c)) (cc_MaxBackoff (c_config c))
               in call (rt_now R) (\<lambda>now.
                  call (route C c ctx msg (cc_RetryTopic (c_config c)) attempt (err_string C cause) (time_add now delay))
                    (count_when_nil R (KafkaProcessed (rec_Topic msg) ''retry'')))))"

section \<open>One record\<close>

text \<open>After the processor has decided.\<close>

definition completeRecord ::
  "'w runtime \<Rightarrow> ('c) codec_scheme \<Rightarrow> 'w consumer \<Rightarrow> ctx \<Rightarrow> krecord \<Rightarrow> int64 \<Rightarrow> envelope \<Rightarrow> proc_result \<Rightarrow>
     ('w, goerr option) prog" where
  "completeRecord R C c ctx msg attempt envelope res =
     call (cr_Complete (c_repository c) (with_timeout ctx databaseTimeout) (EventID envelope) (cc_ConsumerName (c_config c))
             (AggregateID envelope) (pr_Status res) (pr_Reason res) (env_RequestID envelope))
       (\<lambda>completed. case completed of
          Inl err \<Rightarrow> retry R C c ctx msg attempt err
        | Inr applied \<Rightarrow>
            if \<not> applied then act (rt_count R (KafkaProcessed (rec_Topic msg) ''duplicate'')) (Ret None)
            else act (rt_count R (KafkaProcessed (rec_Topic msg) ''success'')) (Ret None))"

definition input_of :: "('c) codec_scheme \<Rightarrow> envelope \<Rightarrow> created_payload \<Rightarrow> input" where
  "input_of C envelope payload = \<lparr>in_OrderID = lib_uuid_string C (AggregateID envelope),
     in_WarehouseID = lib_uuid_string C (cp_WarehouseID payload), in_Currency = cp_Currency payload,
     in_TotalAmountMinor = cp_TotalAmountMinor payload, in_Items = cp_Items payload\<rparr>"

text \<open>Once the event is known to be new.\<close>

definition processPayload ::
  "'w runtime \<Rightarrow> ('c) codec_scheme \<Rightarrow> 'w consumer \<Rightarrow> ctx \<Rightarrow> krecord \<Rightarrow> int64 \<Rightarrow> envelope \<Rightarrow> ('w, goerr option) prog" where
  "processPayload R C c ctx msg attempt envelope =
     (case unmarshal_created C (Payload envelope) of
        Inl err \<Rightarrow> dlq R C c ctx msg attempt (''invalid payload: '' @ err_string C err)
      | Inr payload \<Rightarrow>
     (case CreatedPayload_Validate payload of
        Some err \<Rightarrow> dlq R C c ctx msg attempt (''invalid payload: '' @ err_string C err)
      | None \<Rightarrow>
        call (rt_now R) (\<lambda>started.
        call (c_processor c (with_timeout ctx (cc_Timeout (c_config c))) (input_of C envelope payload)) (\<lambda>decided.
        call (rt_now R) (\<lambda>ended.
        act (rt_count R OrderProcessingDuration)
          (case decided of
             Inl err \<Rightarrow>
               call (\<lambda>w. (rt_ctx_err R ctx w, w)) (\<lambda>ctxErr.
                 if errors_is err ContextCanceled \<and> ctxErr \<noteq> None then Ret (Some err)
                 else retry R C c ctx msg attempt err)
           | Inr res \<Rightarrow> completeRecord R C c ctx msg attempt envelope res))))))"

text \<open>Once the record is due.\<close>

definition processDue ::
  "'w runtime \<Rightarrow> ('c) codec_scheme \<Rightarrow> 'w consumer \<Rightarrow> ctx \<Rightarrow> krecord \<Rightarrow> int64 \<Rightarrow> ('w, goerr option) prog" where
  "processDue R C c ctx msg attempt =
     (case unmarshal_envelope C (rec_Value msg) of
        Inl err \<Rightarrow> dlq R C c ctx msg attempt (''invalid JSON: '' @ err_string C err)
      | Inr envelope \<Rightarrow>
     (case Envelope_Validate envelope of
        Some err \<Rightarrow> dlq R C c ctx msg attempt (err_string C err)
      | None \<Rightarrow>
     (if EventType envelope \<noteq> OrderCreated then
        dlq R C c ctx msg attempt
          (err_string C (errorf [Lit ''unsupported event type '', Quoted (EventType envelope)]))
      else if rec_Key msg \<noteq> lib_uuid_string C (AggregateID envelope) then
        dlq R C c ctx msg attempt ''Kafka key does not match aggregate_id''
      else
        call (cr_IsProcessed (c_repository c) (with_timeout ctx databaseTimeout) (EventID envelope)
                (cc_ConsumerName (c_config c)))
          (\<lambda>checked. case checked of
             Inl err \<Rightarrow> retry R C c ctx msg attempt err
           | Inr processed \<Rightarrow>
               if processed then act (rt_count R (KafkaProcessed (rec_Topic msg) ''duplicate'')) (Ret None)
               else processPayload R C c ctx msg attempt envelope))))"

definition processRecord ::
  "'w runtime \<Rightarrow> ('c) codec_scheme \<Rightarrow> 'w consumer \<Rightarrow> ctx \<Rightarrow> krecord \<Rightarrow> ('w, goerr option) prog" where
  "processRecord R C c ctx msg =
     (case headerInt msg ''attempt'' of
        Inl err \<Rightarrow> dlq R C c ctx msg 0 (err_string C err)
      | Inr attempt \<Rightarrow>
     (if sint attempt > sint (cc_MaxRetries (c_config c)) then
        dlq R C c ctx msg attempt ''retry limit already exceeded''
      else
     (case headerTime C msg ''not_before'' of
        Inl err \<Rightarrow> dlq R C c ctx msg attempt (err_string C err)
      | Inr notBefore \<Rightarrow>
        call (rt_now R) (\<lambda>now.
          if notBefore > time_add now (cc_MaxBackoff (c_config c) + 5 * second) then
            dlq R C c ctx msg attempt ''not_before exceeds configured retry delay''
          else waitUntil R ctx notBefore (\<lambda>waited. case waited of
                 Some err \<Rightarrow> Ret (Some err)
               | None \<Rightarrow> processDue R C c ctx msg attempt)))))"

section \<open>The loop\<close>

fun batch_error :: "goerr option \<Rightarrow> goerr option list \<Rightarrow> goerr option" where
  "batch_error batchErr [] = batchErr"
| "batch_error batchErr (err # errs) =
     (case err of None \<Rightarrow> batch_error batchErr errs | Some e \<Rightarrow> batch_error (Some (errors_join batchErr e)) errs)"

text \<open>
  One batch that holds records: \<open>Inl\<close> is what \<open>Run\<close> returns, \<open>Inr\<close> goes on with the next poll; the outer
  \<open>None\<close> is the panic of the pool.
\<close>

definition handleBatch ::
  "(nat \<Rightarrow> nat) \<Rightarrow> 'w runtime \<Rightarrow> ('c) codec_scheme \<Rightarrow> 'w consumer \<Rightarrow> ctx \<Rightarrow> krecord list \<Rightarrow> 'w \<Rightarrow> (goerr option \<times> 'w) option" where
  "handleBatch sched R C c ctx records w =
     (case Process sched R ctx (cc_Workers (c_config c)) records (processRecord R C c) w of
        None \<Rightarrow> None
      | Some (errs, w1) \<Rightarrow>
     (case batch_error None errs of
        Some batchErr \<Rightarrow>
          Some (Some (wrapf ''kafka batch incomplete; restart from committed offsets: '' batchErr),
                cl_AllowRebalance (c_client c) w1)
      | None \<Rightarrow>
     (case cl_CommitRecords (c_client c) (with_timeout ctx (10 * second)) records w1 of
        (Some err, w2) \<Rightarrow> Some (Some (wrapf ''commit kafka batch: '' err), cl_AllowRebalance (c_client c) w2)
      | (None, w2) \<Rightarrow> Some (None, cl_AllowRebalance (c_client c) w2))))"

text \<open>\<open>Run\<close>: \<open>None\<close> if it never returns, \<open>Some None\<close> if a batch panics.\<close>

partial_function (option) Consumer_Run ::
  "(nat \<Rightarrow> nat \<Rightarrow> nat) \<Rightarrow> nat \<Rightarrow> 'w runtime \<Rightarrow> ('c) codec_scheme \<Rightarrow> 'w consumer \<Rightarrow> ctx \<Rightarrow> 'w \<Rightarrow>
     (goerr option \<times> 'w) option option" where
  "Consumer_Run sched t R C c ctx w =
     (case cl_PollRecords (c_client c) ctx (cc_BatchSize (c_config c)) w of
        ((records, errs), w1) \<Rightarrow>
          if rt_ctx_err R ctx w1 \<noteq> None then Some (Some (None, w1))
          else if errs \<noteq> [] \<or> records = [] then
            Consumer_Run sched (Suc t) R C c ctx (cl_AllowRebalance (c_client c) w1)
          else (case handleBatch (sched t) R C c ctx records w1 of
                  None \<Rightarrow> Some None
                | Some (Some err, w2) \<Rightarrow> Some (Some (Some err, w2))
                | Some (None, w2) \<Rightarrow> Consumer_Run sched (Suc t) R C c ctx w2))"

section \<open>The contract of a consumer's surroundings\<close>

text \<open>
  When a record is dealt with: its event is recorded as processed, or a copy of it is in the retry or the
  dead letter topic. \<open>recorded eid w\<close> and \<open>produced rec w\<close> say what the repository and Kafka hold.
\<close>

definition order_event :: "('c) codec_scheme \<Rightarrow> krecord \<Rightarrow> envelope \<Rightarrow> bool" where
  "order_event C msg envelope \<longleftrightarrow> unmarshal_envelope C (rec_Value msg) = Inr envelope
     \<and> Envelope_Validate envelope = None \<and> EventType envelope = OrderCreated
     \<and> rec_Key msg = lib_uuid_string C (AggregateID envelope)"

definition handled ::
  "('c) codec_scheme \<Rightarrow> consumer_config \<Rightarrow> (uuid \<Rightarrow> 'w \<Rightarrow> bool) \<Rightarrow> (krecord \<Rightarrow> 'w \<Rightarrow> bool) \<Rightarrow> krecord \<Rightarrow> 'w \<Rightarrow> bool" where
  "handled C config recorded produced msg w \<longleftrightarrow>
     (\<exists>envelope. order_event C msg envelope \<and> recorded (EventID envelope) w)
     \<or> (\<exists>topic attempt reason notBefore. topic \<in> {cc_RetryTopic config, cc_DLQTopic config}
          \<and> produced (routed_record C msg topic attempt reason notBefore) w)"

lemma nil_means_Some [simp]: "nil_means P (Some e) w"
  by (simp add: nil_means_def)

locale record_contract =
  fixes c :: "'w consumer" and R :: "'w runtime" and C :: "('c) codec_scheme" and G :: "'w \<Rightarrow> 'w \<Rightarrow> bool"
    and recorded :: "uuid \<Rightarrow> 'w \<Rightarrow> bool" and produced :: "krecord \<Rightarrow> 'w \<Rightarrow> bool"
  assumes refl: "reflp G" and trans: "transp G"
    and recorded_stable: "recorded eid w \<Longrightarrow> G w w' \<Longrightarrow> recorded eid w'"
    and produced_stable: "produced rec w \<Longrightarrow> G w w' \<Longrightarrow> produced rec w'"
    and now_goes: "G w (snd (rt_now R w))"
    and timer_goes: "G w (snd (rt_timer R ctx d w))"
    and count_goes: "G w (rt_count R m w)"
    and check_goes: "cr_IsProcessed (c_repository c) ctx eid (cc_ConsumerName (c_config c)) w = (r, w') \<Longrightarrow>
        G w w' \<and> (r = Inr True \<longrightarrow> recorded eid w')"
    and complete_goes: "status \<in> {StatusConfirmed, StatusFailed} \<Longrightarrow>
        cr_Complete (c_repository c) ctx eid (cc_ConsumerName (c_config c)) oid status reason rid w = (s, w') \<Longrightarrow>
        G w w' \<and> (\<forall>b. s = Inr b \<longrightarrow> recorded eid w')"
    and process_goes: "c_processor c ctx inp w = (decided, w') \<Longrightarrow>
        G w w' \<and> (\<forall>res. decided = Inr res \<longrightarrow> pr_Status res \<in> {StatusConfirmed, StatusFailed})"
    and produce_goes: "c_producer c ctx rec w = (e, w') \<Longrightarrow> G w w' \<and> (e = None \<longrightarrow> produced rec w')"
begin

abbreviation (input) done_with :: "krecord \<Rightarrow> 'w \<Rightarrow> bool" where
  "done_with \<equiv> handled C (c_config c) recorded produced"

lemma handled_stable: "done_with rec w \<Longrightarrow> G w w' \<Longrightarrow> done_with rec w'"
  unfolding handled_def by (elim disj_forward ex_forward conj_forward) (auto intro: recorded_stable produced_stable)

lemma meets_count: "P w \<Longrightarrow> (\<And>w w'. P w \<Longrightarrow> G w w' \<Longrightarrow> P w') \<Longrightarrow>
    prog_meets (act (rt_count R m) (Ret None)) G (nil_means P) w"
  using count_goes by (auto simp: prog_meets_act nil_means_def) blast

lemma recorded_meets:
  assumes "order_event C msg envelope" and "recorded (EventID envelope) w"
  shows "prog_meets (act (rt_count R m) (Ret None)) G (nil_means (done_with msg)) w"
proof (rule meets_count)
  show "done_with msg w" using assms by (auto simp: handled_def)
qed (rule handled_stable)

lemma route_goes:
  assumes "route C c ctx msg topic attempt reason notBefore w = (e, w')" and "topic \<in> {cc_RetryTopic (c_config c), cc_DLQTopic (c_config c)}"
  shows "G w w' \<and> (e = None \<longrightarrow> done_with msg w')"
proof -
  obtain p w1 where p: "c_producer c (with_timeout ctx (10 * second)) (routed_record C msg topic attempt reason notBefore) w = (p, w1)"
    by fastforce
  then have "w' = w1" "e = None \<longrightarrow> p = None"
    using assms(1) by (auto simp: route_def split: option.splits)
  moreover have "produced (routed_record C msg topic attempt reason notBefore) w1 \<Longrightarrow> done_with msg w1"
    unfolding handled_def using assms(2) by blast
  ultimately show ?thesis using produce_goes [OF p] by auto
qed

lemma route_meets:
  assumes "topic \<in> {cc_RetryTopic (c_config c), cc_DLQTopic (c_config c)}"
  shows "prog_meets (call (route C c ctx msg topic attempt reason notBefore) (count_when_nil R m)) G (nil_means (done_with msg)) w0"
proof -
  have "prog_meets (count_when_nil R m (fst (route C c ctx msg topic attempt reason notBefore w))) G (nil_means (done_with msg))
      (snd (route C c ctx msg topic attempt reason notBefore w))
    \<and> G w (snd (route C c ctx msg topic attempt reason notBefore w))" for w
    using route_goes [OF prod.collapse [symmetric] assms, where w = w and ctx = ctx and msg = msg and attempt = attempt
        and reason = reason and notBefore = notBefore]
    by (auto simp: count_when_nil_def handled_stable intro!: meets_count split: option.split)
  then show ?thesis by (simp add: prog_meets_call)
qed

lemma dlq_meets: "prog_meets (dlq R C c ctx msg attempt reason) G (nil_means (done_with msg)) w"
  unfolding dlq_def by (rule route_meets) simp

lemma retry_meets: "prog_meets (retry R C c ctx msg attempt cause) G (nil_means (done_with msg)) w"
  unfolding retry_def Let_def
  by (simp add: dlq_meets prog_meets_call [of "rt_now R"] now_goes route_meets)

lemma complete_meets:
  assumes "order_event C msg envelope" and "pr_Status res \<in> {StatusConfirmed, StatusFailed}"
  shows "prog_meets (completeRecord R C c ctx msg attempt envelope res) G (nil_means (done_with msg)) w0"
  unfolding completeRecord_def prog_meets_call
proof (intro allI impI conjI)
  fix w
  let ?k = "cr_Complete (c_repository c) (with_timeout ctx databaseTimeout) (EventID envelope) (cc_ConsumerName (c_config c))
      (AggregateID envelope) (pr_Status res) (pr_Reason res) (env_RequestID envelope) w"
  note g = complete_goes [OF assms(2) prod.collapse [symmetric], where w = w and ctx = "with_timeout ctx databaseTimeout"
      and eid = "EventID envelope" and oid = "AggregateID envelope" and reason = "pr_Reason res" and rid = "env_RequestID envelope"]
  show "G w (snd ?k)" using g by blast
  show "prog_meets (case fst ?k of Inl err \<Rightarrow> retry R C c ctx msg attempt err
      | Inr applied \<Rightarrow> if \<not> applied then act (rt_count R (KafkaProcessed (rec_Topic msg) ''duplicate'')) (Ret None)
            else act (rt_count R (KafkaProcessed (rec_Topic msg) ''success'')) (Ret None)) G (nil_means (done_with msg)) (snd ?k)"
    using g by (auto simp: retry_meets recorded_meets [OF assms(1)] split: sum.split)
qed

lemma decided_meets:
  assumes "order_event C msg envelope" and "\<And>res. decided = Inr res \<Longrightarrow> pr_Status res \<in> {StatusConfirmed, StatusFailed}"
  shows "prog_meets (call (rt_now R) (\<lambda>ended. act (rt_count R OrderProcessingDuration)
      (case decided of
         Inl err \<Rightarrow> call (\<lambda>w. (rt_ctx_err R ctx w, w)) (\<lambda>ctxErr.
           if errors_is err ContextCanceled \<and> ctxErr \<noteq> None then Ret (Some err) else retry R C c ctx msg attempt err)
       | Inr res \<Rightarrow> completeRecord R C c ctx msg attempt envelope res))) G (nil_means (done_with msg)) w0"
proof (cases decided)
  case (Inl err)
  then show ?thesis
    by (simp add: prog_meets_call prog_meets_act now_goes count_goes retry_meets reflpD [OF refl] nil_means_def)
next
  case (Inr res)
  then show ?thesis
    using complete_meets [OF assms(1) assms(2)]
    by (simp add: prog_meets_call prog_meets_act now_goes count_goes)
qed

lemma payload_meets:
  assumes "order_event C msg envelope"
  shows "prog_meets (processPayload R C c ctx msg attempt envelope) G (nil_means (done_with msg)) w0"
proof (cases "unmarshal_created C (Payload envelope)")
  case (Inl err)
  then show ?thesis by (simp add: processPayload_def dlq_meets)
next
  case (Inr payload)
  show ?thesis
  proof (cases "CreatedPayload_Validate payload")
    case None
    let ?p = "c_processor c (with_timeout ctx (cc_Timeout (c_config c))) (input_of C envelope payload)"
    have "G w (snd (?p w))" "fst (?p w) = Inr res \<Longrightarrow> pr_Status res \<in> {StatusConfirmed, StatusFailed}" for w res
      using process_goes [OF prod.collapse [symmetric], where w = w and ctx = "with_timeout ctx (cc_Timeout (c_config c))"
          and inp = "input_of C envelope payload"]
      by blast+
    then show ?thesis
      by (simp add: processPayload_def Inr None prog_meets_call [of "rt_now R" "\<lambda>started. call ?p _"] prog_meets_call [of ?p]
          now_goes decided_meets [OF assms])
  qed (simp add: processPayload_def Inr dlq_meets)
qed

lemma due_meets: "prog_meets (processDue R C c ctx msg attempt) G (nil_means (done_with msg)) w0"
proof (cases "\<exists>envelope. order_event C msg envelope")
  case True
  then obtain envelope where e: "order_event C msg envelope" by blast
  let ?check = "cr_IsProcessed (c_repository c) (with_timeout ctx databaseTimeout) (EventID envelope) (cc_ConsumerName (c_config c))"
  have g: "G w (snd (?check w))" "fst (?check w) = Inr True \<Longrightarrow> recorded (EventID envelope) (snd (?check w))" for w
    using check_goes [OF prod.collapse [symmetric], where w = w and ctx = "with_timeout ctx databaseTimeout" and eid = "EventID envelope"] by blast+
  have "processDue R C c ctx msg attempt = call ?check (\<lambda>checked. case checked of
      Inl err \<Rightarrow> retry R C c ctx msg attempt err
    | Inr processed \<Rightarrow> if processed then act (rt_count R (KafkaProcessed (rec_Topic msg) ''duplicate'')) (Ret None)
        else processPayload R C c ctx msg attempt envelope)"
    using e by (simp add: processDue_def order_event_def del: Envelope_Validate_None)
  then show ?thesis
    using g by (auto simp: prog_meets_call retry_meets payload_meets [OF e] recorded_meets [OF e] split: sum.split)
next
  case False
  then have "\<exists>reason. processDue R C c ctx msg attempt = dlq R C c ctx msg attempt reason"
    by (auto simp: processDue_def order_event_def simp del: Envelope_Validate_None split: sum.split option.split)
  then show ?thesis using dlq_meets by auto
qed

lemma wait_meets:
  assumes "\<And>w. prog_meets (k None) G Q w" and "\<And>e w. prog_meets (k (Some e)) G Q w"
  shows "prog_meets (waitUntil R ctx target k) G Q w0"
proof -
  have k: "prog_meets (k e) G Q w" for e w using assms by (cases e) auto
  show ?thesis
    by (simp add: waitUntil_def prog_meets_call now_goes timer_goes k reflpD [OF refl])
qed

lemma record_meets: "prog_meets (processRecord R C c ctx msg) G (nil_means (done_with msg)) w"
proof -
  have wait: "prog_meets (waitUntil R ctx target (\<lambda>waited. case waited of Some err \<Rightarrow> Ret (Some err)
      | None \<Rightarrow> processDue R C c ctx msg attempt)) G (nil_means (done_with msg)) w" for target attempt w
    by (rule wait_meets) (simp_all add: due_meets nil_means_def)
  show ?thesis
  proof (cases "headerInt msg ''attempt''")
    case (Inl e)
    then show ?thesis by (simp add: processRecord_def dlq_meets)
  next
    case (Inr attempt)
    then show ?thesis
      by (cases "headerTime C msg ''not_before''")
         (simp_all add: processRecord_def dlq_meets prog_meets_call [of "rt_now R"] now_goes wait)
  qed
qed

lemma record_handler: "pool_handler (processRecord R C c) G (\<lambda>msg w. True) done_with"
  by unfold_locales (simp_all add: refl trans handled_stable record_meets)

end

lemma batch_error_None: "batch_error b errs = None \<longleftrightarrow> b = None \<and> (\<forall>e \<in> set errs. e = None)"
  by (induction b errs rule: batch_error.induct) (auto split: option.split)

context record_contract
begin

text \<open>A batch is the pool's phase, and then a commit only if every record in it was dealt with.\<close>

lemma handleBatch_cases:
  assumes "handleBatch sched R C c ctx records w = Some (r, w')"
  obtains (incomplete) w1 where "G w w1" and "r \<noteq> None" and "w' = cl_AllowRebalance (c_client c) w1"
  | (complete) w1 e w2 where "G w w1" and "\<forall>msg \<in> set records. done_with msg w1"
      and "cl_CommitRecords (c_client c) (with_timeout ctx (10 * second)) records w1 = (e, w2)"
      and "r = None \<longleftrightarrow> e = None" and "w' = cl_AllowRebalance (c_client c) w2"
proof -
  obtain errs w1 where p: "Process sched R ctx (cc_Workers (c_config c)) records (processRecord R C c) w = Some (errs, w1)"
    using assms by (auto simp: handleBatch_def split: option.splits prod.splits)
  note g = pool_handler.Process_meets [OF record_handler p]
  show thesis
  proof (cases "batch_error None errs")
    case (Some e)
    then show ?thesis using assms g by (intro incomplete [of w1]) (auto simp: handleBatch_def p)
  next
    case None
    have all: "done_with msg w1" if m: "msg \<in> set records" for msg
    proof -
      obtain i where i: "i < length records" "msg = records ! i" using m by (auto simp: in_set_conv_nth)
      have "errs ! i \<in> set errs" using i(1) conjunct1 [OF conjunct2 [OF g]] by simp
      moreover have "\<forall>e \<in> set errs. e = None" using None batch_error_None [of None errs] by blast
      ultimately have "errs ! i = None" by blast
      then show ?thesis using g i by blast
    qed
    obtain e w2 where c: "cl_CommitRecords (c_client c) (with_timeout ctx (10 * second)) records w1 = (e, w2)"
      by fastforce
    show ?thesis
    proof (rule complete [OF _ _ c])
      show "r = None \<longleftrightarrow> e = None" and "w' = cl_AllowRebalance (c_client c) w2"
        using assms by (auto simp: handleBatch_def p None c split: option.splits)
    qed (use g all in auto)
  qed
qed

end

text \<open>A whole batch also commits, and the loop polls.\<close>

locale consumer_contract = record_contract +
  assumes poll_goes: "G w (snd (cl_PollRecords (c_client c) ctx n w))"
    and commit_goes: "\<forall>rec \<in> set recs. handled C (c_config c) recorded produced rec w \<Longrightarrow>
        G w (snd (cl_CommitRecords (c_client c) ctx recs w))"
    and rebalance_goes: "G w (cl_AllowRebalance (c_client c) w)"
begin

lemma handleBatch_goes:
  assumes "handleBatch sched R C c ctx records w = Some (r, w')"
  shows "G w w' \<and> (r = None \<longrightarrow> (\<forall>msg \<in> set records. done_with msg w'))"
  using assms
proof (cases rule: handleBatch_cases)
  case (incomplete w1)
  then show ?thesis using transpD [OF trans _ rebalance_goes] by auto
next
  case (complete w1 e w2)
  have "G w1 w2" using commit_goes [OF complete(2)] complete(3) by (metis snd_conv)
  then have end_: "G w1 w'" unfolding complete(5) by (rule transpD [OF trans _ rebalance_goes])
  then show ?thesis using complete(1,2) handled_stable [OF _ end_] transpD [OF trans] by blast
qed

lemma Consumer_Run_goes:
  assumes "Consumer_Run sched t R C c ctx w = Some (Some (r, w'))"
  shows "G w w'"
proof -
  let ?P = "\<lambda>sched' t R' C' c' ctx' w y. R' = R \<and> C' = C \<and> c' = c \<longrightarrow> (\<forall>r w'. y = Some (r, w') \<longrightarrow> G w w')"
  have "?P sched t R C c ctx w (Some (r, w'))"
  proof (rule Consumer_Run.raw_induct [where P = ?P, OF _ assms], intro impI allI, elim conjE)
    fix run sched' t R' C' c' ctx' w y r w'
    assume IH: "\<And>sched' t R' C' c' ctx' w y. run sched' t R' C' c' ctx' w = Some y \<Longrightarrow> ?P sched' t R' C' c' ctx' w y"
      and body: "(case cl_PollRecords (c_client c') ctx' (cc_BatchSize (c_config c')) w of
        ((records, errs), w1) \<Rightarrow>
          if rt_ctx_err R' ctx' w1 \<noteq> None then Some (Some (None, w1))
          else if errs \<noteq> [] \<or> records = [] then run sched' (Suc t) R' C' c' ctx' (cl_AllowRebalance (c_client c') w1)
          else (case handleBatch (sched' t) R' C' c' ctx' records w1 of
                  None \<Rightarrow> Some None
                | Some (Some err, w2) \<Rightarrow> Some (Some (Some err, w2))
                | Some (None, w2) \<Rightarrow> run sched' (Suc t) R' C' c' ctx' w2)) = Some y"
      and eqs: "R' = R" "C' = C" "c' = c" and y: "y = Some (r, w')"
    obtain records errs w1 where p: "cl_PollRecords (c_client c) ctx' (cc_BatchSize (c_config c)) w = ((records, errs), w1)"
      by (metis prod.collapse)
    have w1: "G w w1" using poll_goes [of w ctx' "cc_BatchSize (c_config c)"] p by simp
    note rest = body [unfolded eqs p, simplified]
    show "G w w'"
    proof (cases "rt_ctx_err R ctx' w1 = None")
      case False
      then show ?thesis using rest y w1 by auto
    next
      case live: True
      have again: "G w w'" if "run sched' (Suc t) R C c ctx' w2 = Some y" and "G w w2" for w2
        using IH [OF that(1)] that(2) y transpD [OF trans] by blast
      show ?thesis
      proof (cases "errs \<noteq> [] \<or> records = []")
        case True
        then have "run sched' (Suc t) R C c ctx' (cl_AllowRebalance (c_client c) w1) = Some y"
          using rest live by auto
        then show ?thesis by (rule again) (rule transpD [OF trans w1 rebalance_goes])
      next
        case False
        then obtain e w2 where b: "handleBatch (sched' t) R C c ctx' records w1 = Some (e, w2)"
          using rest live y by (auto split: option.splits)
        have w2: "G w w2" using handleBatch_goes [OF b] transpD [OF trans w1] by blast
        show ?thesis
        proof (cases e)
          case None
          then have "run sched' (Suc t) R C c ctx' w2 = Some y" using rest live False b by auto
          then show ?thesis using w2 by (rule again)
        next
          case (Some err)
          then show ?thesis using rest live False b y w2 by auto
        qed
      qed
    qed
  qed
  then show ?thesis by blast
qed

end

section \<open>Delays and headers\<close>

lemma backoff_loop_spec:
  fixes delay maximum :: duration
  assumes "0 < sint delay" and "sint delay \<le> sint maximum"
  defines "m \<equiv> \<lambda>n. min (sint delay * 2 ^ n) (sint maximum)"
  shows "m n \<le> sint (backoff_loop n delay maximum) \<and> sint (backoff_loop n delay maximum) \<le> min (m n + 1) (sint maximum)
    \<and> (even (sint maximum) \<longrightarrow> sint (backoff_loop n delay maximum) = m n)"
  using assms(1,2) unfolding m_def
proof (induction n delay maximum rule: backoff_loop.induct)
  case (1 delay maximum)
  then show ?case by (simp add: sint_smin)
next
  case (2 n delay maximum)
  have half: "sint (quot64 maximum 2) = sint maximum div 2"
    using 2(2,3) by (subst sint_quot64) simp_all
  have pow: "(1 :: int) \<le> 2 ^ n" by simp
  show ?case
  proof (cases "sint maximum div 2 \<le> sint delay")
    case True
    have "sint delay * 2 * 1 \<le> sint delay * 2 * 2 ^ n"
      using 2(2) pow by (intro mult_left_mono) simp_all
    then have "sint maximum - 1 \<le> sint delay * 2 ^ Suc n" and "even (sint maximum) \<Longrightarrow> sint maximum \<le> sint delay * 2 ^ Suc n"
      using True by (auto elim!: evenE)
    then show ?thesis using True half by auto
  next
    case False
    then have fits: "sint (delay * 2) = sint delay * 2"
      using 2(2) sint_bounds64 [of maximum] by (subst sint_mult64) simp_all
    have "0 < sint (delay * 2)" "sint (delay * 2) \<le> sint maximum"
      using False 2(2) unfolding fits by simp_all
    then show ?thesis using 2(1) False half by (simp add: fits mult.assoc)
  qed
qed

lemma header_of_append:
  "header_of (rec\<lparr>rec_Headers := hs @ gs\<rparr>) key =
     (case header_of (rec\<lparr>rec_Headers := hs\<rparr>) key of Some v \<Rightarrow> Some v | None \<Rightarrow> header_of (rec\<lparr>rec_Headers := gs\<rparr>) key)"
  by (simp add: header_of_def find_append split: option.split)

lemma find_copyHeaders:
  "find (\<lambda>h. hdr_Key h = key) (copyHeadersWithout hs excluded) =
     (if key \<in> set excluded then None else find (\<lambda>h. hdr_Key h = key) hs)"
  unfolding copyHeadersWithout_def by (induction hs) auto

lemma routed_header:
  "header_of (routed_record C msg topic attempt reason notBefore) key =
     (if key = ''attempt'' then Some (itoa attempt)
      else if key = ''failure_reason'' then Some (truncate_to reason 1024)
      else if key = ''original_topic'' then
        Some (if headerString msg ''original_topic'' = '''' then rec_Topic msg else headerString msg ''original_topic'')
      else if key = ''not_before'' then (if time_is_zero notBefore then None else Some (lib_time_format C notBefore))
      else header_of msg key)"
  by (simp add: header_of_def routed_record_def routed_headers_def Let_def find_append find_copyHeaders split: option.split)

section \<open>Properties\<close>

text \<open>
  C24. What routing writes is what the next consumer reads: the copy has the record's key, value and every
  other header, its attempt and its due time read back as they were written, and the original topic is the
  topic the record first came from, however often it is routed again.
\<close>
theorem routing_round_trip:
  assumes "0 \<le> sint attempt" and "lib_time_parse C (lib_time_format C notBefore) = Some notBefore"
  shows "rec_Topic (routed_record C msg topic attempt reason notBefore) = topic
    \<and> rec_Key (routed_record C msg topic attempt reason notBefore) = rec_Key msg
    \<and> rec_Value (routed_record C msg topic attempt reason notBefore) = rec_Value msg
    \<and> headerInt (routed_record C msg topic attempt reason notBefore) ''attempt'' = Inr attempt
    \<and> headerTime C (routed_record C msg topic attempt reason notBefore) ''not_before'' = Inr notBefore
    \<and> headerString (routed_record C msg topic attempt reason notBefore) ''original_topic'' =
        (if headerString msg ''original_topic'' = '''' then rec_Topic msg else headerString msg ''original_topic'')
    \<and> (key \<notin> {''attempt'', ''failure_reason'', ''original_topic'', ''not_before''} \<longrightarrow>
        header_of (routed_record C msg topic attempt reason notBefore) key = header_of msg key)"
  using assms
  by (auto simp: headerInt_def headerTime_def headerString_def routed_header time_is_zero_def)
     (simp_all add: routed_record_def)

definition created_msg :: krecord where
  "created_msg = \<lparr>rec_Topic = ''created'', rec_Key = ''1'', rec_Value = ''envelope'',
     rec_Headers = [\<lparr>hdr_Key = ''event_id'', hdr_Value = ''2''\<rparr>, \<lparr>hdr_Key = ''attempt'', hdr_Value = ''1''\<rparr>],
     rec_Partition = 0, rec_Offset = 0\<rparr>"

theorem routing_round_trip_witness:
  "headerInt (routed_record C0 created_msg ''retry'' 2 ''timeout'' 7000) ''attempt'' = Inr 2
   \<and> headerTime C0 (routed_record C0 created_msg ''retry'' 2 ''timeout'' 7000) ''not_before'' = Inr 7000"
proof -
  have "lib_time_parse C0 (lib_time_format C0 7000) = Some 7000"
    using nat_digits_spec [of 7000] by (simp add: sample_codec_def)
  then show ?thesis using routing_round_trip [of 2 C0 7000 created_msg "''retry''" "''timeout''"] by simp
qed

text \<open>
  C31. The delay before attempt n is the base doubled n - 1 times and capped at the maximum: never above the
  maximum, never wrapped, for any attempt count. Halving an odd maximum can make it one nanosecond longer.
  A retry is therefore due within the limit that the consumer checks, as long as the clock of the next
  consumer is at most five seconds behind that of the one that routed the record.
\<close>
theorem backoff_doubles_to_the_maximum:
  assumes "0 < sint base" and "0 < sint maximum" and "1 \<le> sint attempt"
  defines "exact \<equiv> min (sint base * 2 ^ nat (sint attempt - 1)) (sint maximum)"
  shows "exact \<le> sint (backoff attempt base maximum) \<and> sint (backoff attempt base maximum) \<le> min (exact + 1) (sint maximum)
    \<and> (even (sint maximum) \<longrightarrow> sint (backoff attempt base maximum) = exact)
    \<and> (sint maximum \<le> 2 ^ 62 \<and> now \<le> now' + 5 * 10 ^ 9 \<longrightarrow>
        \<not> time_add now (backoff attempt base maximum) > time_add now' (maximum + 5 * second))"
proof -
  let ?d = "smin base maximum" and ?n = "nat (sint attempt - 1)"
  have "0 < sint ?d" "sint ?d \<le> sint maximum" using assms(1,2) by (simp_all add: sint_smin)
  note loop = backoff_loop_spec [OF this, of ?n]
  have one: "(1 :: int) \<le> 2 ^ ?n" by simp
  have "min (sint ?d * 2 ^ ?n) (sint maximum) = exact"
  proof (cases "sint base \<le> sint maximum")
    case False
    have "sint maximum * 1 \<le> sint maximum * 2 ^ ?n" "sint base * 1 \<le> sint base * 2 ^ ?n"
      using assms(1,2) one by (intro mult_left_mono; simp)+
    then show ?thesis using False by (simp add: exact_def sint_smin min_def)
  qed (simp add: exact_def sint_smin min_def)
  note spec = loop [unfolded this, folded backoff_def]
  have "sint (maximum + 5 * second) = sint maximum + 5 * 10 ^ 9" if "sint maximum \<le> 2 ^ 62"
  proof -
    have five: "sint (5 * second) = 5 * 10 ^ 9" by (simp add: second_def)
    show ?thesis using that assms(2) by (subst sint_add64) (simp_all add: five)
  qed
  then show ?thesis using spec by (auto simp: time_add_def)
qed

theorem backoff_doubles_to_the_maximum_witness:
  "sint (backoff 4 second (5 * second)) = 5 * 10 ^ 9"
  using backoff_doubles_to_the_maximum [of second "5 * second" 4] by (simp add: second_def)

end
