(* ===== verification/Consumer_Node.thy ===== *)
theory Consumer_Node
  imports Consumer
begin

text \<open>
  The consumer over PostgreSQL and Kafka: a machine that also polls and commits, the interpretation of
  \<open>consumer_contract\<close> on it, and the properties of records, batches and the loop.
\<close>

section \<open>The machine\<close>

text \<open>
  A consumer group's offset in a partition is where it resumes after a restart: everything below it is not
  delivered again. Two views of the commits are kept: the records that were handed to \<open>CommitRecords\<close>, and
  the offsets that this committed.
\<close>

type_synonym topic_partition = "string \<times> int32"

record consumer_node = node +
  cn_polls :: "(krecord list \<times> goerr list) list"
  cn_committed :: "krecord list"
  cn_offsets :: "topic_partition \<Rightarrow> int"
  cn_commits :: "reply list"

text \<open>A poll with nothing left to fetch blocks until the context ends.\<close>

definition node_poll :: "'z consumer_node_scheme \<Rightarrow> (krecord list \<times> goerr list) \<times> 'z consumer_node_scheme" where
  "node_poll w = (case cn_polls w of
      [] \<Rightarrow> (([], []), (case h_cancel_at w of None \<Rightarrow> w | Some t \<Rightarrow> w\<lparr>h_clock := max (h_clock w) t\<rparr>))
    | p # ps \<Rightarrow> (p, w\<lparr>cn_polls := ps\<rparr>))"

text \<open>
  Kafka's commits are cumulative: of the records of a partition the highest offset, plus one, becomes the
  partition's offset (within one leader epoch); partitions without a record keep theirs.
\<close>

definition partition_of :: "krecord \<Rightarrow> topic_partition" where
  "partition_of rec = (rec_Topic rec, rec_Partition rec)"

definition offset_of :: "krecord \<Rightarrow> int" where
  "offset_of rec = sint (rec_Offset rec)"

definition commit_offsets :: "krecord list \<Rightarrow> (topic_partition \<Rightarrow> int) \<Rightarrow> topic_partition \<Rightarrow> int" where
  "commit_offsets recs offsets tp = (case filter (\<lambda>rec. partition_of rec = tp) recs of
      [] \<Rightarrow> offsets tp
    | r # rs \<Rightarrow> fold max (map offset_of rs) (offset_of r) + 1)"

definition committing :: "krecord list \<Rightarrow> 'z consumer_node_scheme \<Rightarrow> 'z consumer_node_scheme" where
  "committing recs w = w\<lparr>cn_committed := cn_committed w @ recs, cn_offsets := commit_offsets recs (cn_offsets w)\<rparr>"

definition node_commit :: "krecord list \<Rightarrow> 'z consumer_node_scheme \<Rightarrow> goerr option \<times> 'z consumer_node_scheme" where
  "node_commit recs w = (case cn_commits w of
      [] \<Rightarrow> (None, committing recs w)
    | Done # rs \<Rightarrow> (None, committing recs (w\<lparr>cn_commits := rs\<rparr>))
    | Lost e # rs \<Rightarrow> (Some e, w\<lparr>cn_commits := rs\<rparr>)
    | Applied e # rs \<Rightarrow> (Some e, committing recs (w\<lparr>cn_commits := rs\<rparr>)))"

definition node_client :: "('z consumer_node_scheme) consumer_client" where
  "node_client = \<lparr>cl_PollRecords = (\<lambda>ctx n. node_poll), cl_CommitRecords = (\<lambda>ctx. node_commit), cl_AllowRebalance = (\<lambda>w. w)\<rparr>"

definition postgres_consumer :: "pg \<Rightarrow> ('c) codec_scheme \<Rightarrow> ('z host_scheme) consumer_repository" where
  "postgres_consumer P C = \<lparr>cr_IsProcessed = (\<lambda>ctx. IsProcessed P), cr_Complete = (\<lambda>ctx. Complete P host_runtime C)\<rparr>"

text \<open>The processor of cmd/order-worker; \<open>ends\<close> tells how its context ends during the run, if it does.\<close>

definition shop_processor ::
  "(nat \<Rightarrow> nat) \<Rightarrow> (ctx \<Rightarrow> 'w \<Rightarrow> goerr option) \<Rightarrow> 'w order_processor" where
  "shop_processor fan ends ctx inp w = (Processor_Process fan (shop_operations 100) (ends ctx w) inp, w)"

definition node_consumer ::
  "pg \<Rightarrow> ('c) codec_scheme \<Rightarrow> (nat \<Rightarrow> nat) \<Rightarrow> (ctx \<Rightarrow> 'z consumer_node_scheme \<Rightarrow> goerr option) \<Rightarrow> consumer_config \<Rightarrow>
     ('z consumer_node_scheme) consumer" where
  "node_consumer P C fan ends config =
     NewConsumerOf node_client (postgres_consumer P C) (PublishRecord broker_client) (shop_processor fan ends) config"

lemma node_consumer_simps [simp]:
  "c_client (node_consumer P C fan ends config) = node_client"
  "c_repository (node_consumer P C fan ends config) = postgres_consumer P C"
  "c_producer (node_consumer P C fan ends config) = PublishRecord broker_client"
  "c_processor (node_consumer P C fan ends config) = shop_processor fan ends"
  "c_config (node_consumer P C fan ends config) = config"
  "cl_PollRecords node_client ctx n = node_poll" "cl_CommitRecords node_client ctx = node_commit"
  "cl_AllowRebalance node_client w = w"
  "cr_IsProcessed (postgres_consumer P C) ctx = IsProcessed P"
  "cr_Complete (postgres_consumer P C) ctx = Complete P host_runtime C"
  by (simp_all add: node_consumer_def NewConsumerOf_def node_client_def postgres_consumer_def)

section \<open>What the consumer keeps\<close>

definition in_records :: "string \<Rightarrow> uuid \<Rightarrow> 'z server_scheme \<Rightarrow> bool" where
  "in_records name eid w \<longleftrightarrow> (name, eid) \<in> processed_keys (sv_db w)"

definition in_kafka :: "krecord \<Rightarrow> 'z node_scheme \<Rightarrow> bool" where
  "in_kafka rec w \<longleftrightarrow> rec \<in> set (nd_log w)"

abbreviation node_handled :: "('c) codec_scheme \<Rightarrow> consumer_config \<Rightarrow> krecord \<Rightarrow> 'z node_scheme \<Rightarrow> bool" where
  "node_handled C config \<equiv> handled C config (in_records (cc_ConsumerName config)) in_kafka"

text \<open>An order leaves PENDING once, for CONFIRMED or FAILED.\<close>

definition decided_once :: "db \<Rightarrow> db \<Rightarrow> bool" where
  "decided_once d d' \<longleftrightarrow> (\<forall>i st. status_of d i = Some st \<longrightarrow> status_of d' i = Some st
     \<or> st = StatusPending \<and> status_of d' i \<in> {Some StatusConfirmed, Some StatusFailed})"

definition consumer_ok :: "('c) codec_scheme \<Rightarrow> consumer_config \<Rightarrow> 'z consumer_node_scheme \<Rightarrow> bool" where
  "consumer_ok C config w \<longleftrightarrow> db_ok (sv_db w) \<and> (\<forall>rec \<in> set (cn_committed w). node_handled C config rec w)"

definition consumes :: "('c) codec_scheme \<Rightarrow> consumer_config \<Rightarrow> 'z consumer_node_scheme \<Rightarrow> 'z consumer_node_scheme \<Rightarrow> bool" where
  "consumes C config w w' \<longleftrightarrow> processed_keys (sv_db w) \<subseteq> processed_keys (sv_db w')
     \<and> set (nd_log w) \<subseteq> set (nd_log w') \<and> decided_once (sv_db w) (sv_db w')
     \<and> (\<exists>n. cn_polls w' = drop n (cn_polls w)) \<and> h_cancel_at w' = h_cancel_at w
     \<and> (consumer_ok C config w \<longrightarrow> consumer_ok C config w')"

lemma status_differ: "StatusConfirmed \<noteq> StatusPending" "StatusFailed \<noteq> StatusPending" "StatusConfirmed \<noteq> StatusFailed"
  by (simp_all add: status_defs)

lemma decided_once_refl: "decided_once d d"
  by (simp add: decided_once_def)

lemma decided_once_trans: "decided_once d d' \<Longrightarrow> decided_once d' d'' \<Longrightarrow> decided_once d d''"
  unfolding decided_once_def using status_differ by (smt (verit) insertE singletonD insertI1 insertI2)

lemma consumes_refl: "consumes C config w w"
  unfolding consumes_def using decided_once_refl by (metis drop0 order_refl)

lemma consumes_trans: "consumes C config w w' \<Longrightarrow> consumes C config w' w'' \<Longrightarrow> consumes C config w w''"
  unfolding consumes_def by (auto intro: decided_once_trans)

lemma node_handled_stable:
  "node_handled C config rec w \<Longrightarrow> consumes C config w w' \<Longrightarrow> node_handled C config rec w'"
  unfolding handled_def consumes_def in_records_def in_kafka_def by blast

lemma handled_more:
  fixes w w' :: "'z node_scheme"
  assumes "node_handled C config rec w" and "processed_keys (sv_db w) \<subseteq> processed_keys (sv_db w')"
    and "set (nd_log w) \<subseteq> set (nd_log w')"
  shows "node_handled C config rec w'"
  using assms unfolding handled_def in_records_def in_kafka_def by blast

lemma consumesI:
  assumes "processed_keys (sv_db w) \<subseteq> processed_keys (sv_db w')" and "set (nd_log w) \<subseteq> set (nd_log w')"
    and "decided_once (sv_db w) (sv_db w')" and "cn_polls w' = drop n (cn_polls w)" and "h_cancel_at w' = h_cancel_at w"
    and "db_ok (sv_db w) \<Longrightarrow> db_ok (sv_db w')"
    and "\<And>rec. rec \<in> set (cn_committed w') \<Longrightarrow> rec \<in> set (cn_committed w) \<or> node_handled C config rec w"
  shows "consumes C config w w'"
  unfolding consumes_def consumer_ok_def using assms handled_more [OF _ assms(1,2), of C config] by blast

text \<open>A step that only touches the clock, the ids, the plans, the metrics or the broker.\<close>

lemma outside_consumes:
  assumes "sv_db w' = sv_db w" and "set (nd_log w) \<subseteq> set (nd_log w')" and "cn_polls w' = cn_polls w"
    and "h_cancel_at w' = h_cancel_at w" and "cn_committed w' = cn_committed w"
  shows "consumes C config w w'"
  by (rule consumesI [where n = 0]) (use assms in \<open>simp_all add: decided_once_refl\<close>)

lemma completion_decided_once:
  "completion P C now eid name oid status reason rid d b d' \<Longrightarrow> status \<in> {StatusConfirmed, StatusFailed} \<Longrightarrow>
     decided_once d d'"
proof -
  assume c: "completion P C now eid name oid status reason rid d b d'" and st: "status \<in> {StatusConfirmed, StatusFailed}"
  have "b \<Longrightarrow> status_of d oid = Some StatusPending" using c by cases simp_all
  then show ?thesis using completion_status [OF c] st by (auto simp: decided_once_def)
qed

lemma complete_consumes:
  fixes w :: "'z consumer_node_scheme"
  assumes "Complete P host_runtime C eid name oid status reason rid w = (r, w')" and "status \<in> {StatusConfirmed, StatusFailed}"
  shows "consumes C' config w w' \<and> (\<forall>b. r = Inr b \<longrightarrow> in_records name eid w')"
proof -
  have frame: "nd_log w' = nd_log w" "cn_polls w' = cn_polls w" "h_cancel_at w' = h_cancel_at w" "cn_committed w' = cn_committed w"
    by (rule Complete_frame [OF assms(1)]; simp)+
  show ?thesis
  proof (cases "(\<exists>e. r = Inl e) \<and> sv_db w' = sv_db w")
    case True
    then show ?thesis using outside_consumes [of w' w] frame by auto
  next
    case False
    then obtain b where c: "completion P C (sv_now w) eid name oid status reason rid (sv_db w) b (sv_db w')"
      and ok: "db_ok (sv_db w) \<longrightarrow> db_ok (sv_db w')"
      using Complete_cases [OF assms(1)] by blast
    have "consumes C' config w w'"
      by (rule consumesI [where n = 0]) (use completion_keys [OF c] completion_decided_once [OF c assms(2)] ok frame in simp_all)
    then show ?thesis using completion_keys [OF c] by (simp add: in_records_def)
  qed
qed

lemma check_consumes:
  fixes w :: "'z consumer_node_scheme"
  assumes "IsProcessed P eid name w = (r, w')"
  shows "consumes C config w w' \<and> (r = Inr True \<longrightarrow> in_records name eid w')"
proof -
  have "nd_log w' = nd_log w" "cn_polls w' = cn_polls w" "h_cancel_at w' = h_cancel_at w" "cn_committed w' = cn_committed w"
    by (rule IsProcessed_frame [OF assms]; simp)+
  then show ?thesis
    using IsProcessed_spec [OF assms] by (auto simp: in_records_def intro: outside_consumes)
qed

lemma produce_consumes:
  fixes w :: "'z consumer_node_scheme"
  assumes "PublishRecord broker_client ctx rec w = (e, w')"
  shows "consumes C config w w' \<and> (e = None \<longrightarrow> in_kafka rec w')"
  using assms unfolding PublishRecord_def
  by (auto simp: broker_produce_def in_kafka_def intro!: outside_consumes split: option.splits prod.splits list.splits reply.splits)

lemma shop_statuses:
  "shop_processor fan ends ctx inp w = (decided, w') \<Longrightarrow>
     w' = w \<and> (\<forall>res. decided = Inr res \<longrightarrow> pr_Status res \<in> {StatusConfirmed, StatusFailed})"
  by (auto simp: shop_processor_def Processor_Process_def decide_def Let_def split: option.splits if_splits)

lemma commit_consumes:
  assumes "\<forall>rec \<in> set recs. node_handled C config rec w"
  shows "consumes C config w (snd (node_commit recs w))"
  by (rule consumesI [where n = 0])
     (use assms in \<open>auto simp: node_commit_def committing_def decided_once_refl split: list.splits reply.splits\<close>)

lemma poll_consumes: "consumes C config w (snd (node_poll w))"
proof (cases "cn_polls w")
  case (Cons p ps)
  then show ?thesis
    by (intro consumesI [where n = 1]) (simp_all add: node_poll_def decided_once_refl)
qed (auto simp: node_poll_def intro: outside_consumes split: option.split)

interpretation shop_worker: consumer_contract "node_consumer P C fan ends config" host_runtime C "consumes C config"
    "in_records (cc_ConsumerName config)" in_kafka
  for P and C :: "('c) codec_scheme" and fan ends config
proof (unfold_locales, goal_cases)
  case 1 show ?case by (rule reflpI) (rule consumes_refl)
next
  case 2 show ?case by (rule transpI) (rule consumes_trans)
next
  case (3 eid w w')
  then show ?case by (auto simp: in_records_def consumes_def)
next
  case (4 rec w w')
  then show ?case by (auto simp: in_kafka_def consumes_def)
next
  case (5 w)
  show ?case by (simp add: consumes_refl)
next
  case (6 w ctx d)
  then show ?case by (auto simp: host_timer_def Let_def intro: outside_consumes)
next
  case (7 w m)
  show ?case by (rule outside_consumes) simp_all
next
  case (8 ctx eid w r w')
  then show ?case using check_consumes [of P eid _ w r w'] by simp
next
  case (9 status ctx eid oid reason rid w s w')
  then show ?case using complete_consumes [of P C eid _ oid status reason rid w s w'] by simp
next
  case (10 ctx inp w decided w')
  then show ?case using shop_statuses [of fan ends ctx inp w decided w'] consumes_refl by simp
next
  case (11 ctx rec w e w')
  then show ?case using produce_consumes [of ctx rec w e w'] by simp
next
  case (12 w ctx n)
  show ?case by (simp add: poll_consumes)
next
  case (13 recs w ctx)
  then show ?case using commit_consumes [of recs C config w] by simp
qed (simp add: consumes_refl)

text \<open>The pool's phase of a batch keeps all that and commits nothing.\<close>

definition keeps_client :: "'z consumer_node_scheme \<Rightarrow> 'z consumer_node_scheme \<Rightarrow> bool" where
  "keeps_client w w' \<longleftrightarrow> cn_committed w' = cn_committed w \<and> cn_offsets w' = cn_offsets w \<and> cn_polls w' = cn_polls w"

lemma keeps_client_calls:
  fixes w :: "'z consumer_node_scheme"
  shows "keeps_client w (snd (IsProcessed P eid name w))"
    and "keeps_client w (snd (Complete P host_runtime C eid name oid status reason rid w))"
    and "keeps_client w (snd (PublishRecord broker_client ctx rec w))" and "keeps_client w (snd (host_timer d w))"
  unfolding keeps_client_def
  by ((intro conjI; rule IsProcessed_frame [OF prod.collapse [symmetric]] Complete_frame [OF prod.collapse [symmetric]]; simp)+)
     (auto simp: PublishRecord_def broker_produce_def host_timer_def Let_def split: option.splits prod.splits list.splits reply.splits)

interpretation pool_phase: record_contract "node_consumer P C fan ends config" host_runtime C
    "\<lambda>w w'. consumes C config w w' \<and> keeps_client w w'" "in_records (cc_ConsumerName config)" in_kafka
  for P and C :: "('c) codec_scheme" and fan ends config
proof (unfold_locales, goal_cases)
  case 1 show ?case by (rule reflpI) (simp add: consumes_refl keeps_client_def)
next
  case 2 show ?case by (rule transpI) (auto simp: keeps_client_def intro: consumes_trans)
next
  case (3 eid w w')
  then show ?case using shop_worker.recorded_stable by blast
next
  case (4 rec w w')
  then show ?case using shop_worker.produced_stable by blast
next
  case (6 w ctx d)
  then show ?case using shop_worker.timer_goes [of C config w] keeps_client_calls(4) by simp
next
  case (8 ctx eid w r w')
  then show ?case using check_consumes [of P eid _ w r w' C config] keeps_client_calls(1) [of w P eid] by (metis node_consumer_simps(2,5,9) snd_conv)
next
  case (9 status ctx eid oid reason rid w s w')
  then show ?case using complete_consumes [of P C eid _ oid status reason rid w s w' C config] keeps_client_calls(2) [of w P C eid _ oid status reason rid]
    by (metis node_consumer_simps(2,5,10) snd_conv)
next
  case (10 ctx inp w decided w')
  then show ?case using shop_statuses [of fan ends ctx inp w decided w'] by (simp add: consumes_refl keeps_client_def)
next
  case (11 ctx rec w e w')
  then show ?case using produce_consumes [of ctx rec w e w' C config] keeps_client_calls(3) [of w ctx rec] by simp
qed (simp_all add: consumes_refl keeps_client_def outside_consumes)

section \<open>One record alone\<close>

text \<open>The KafkaProcessed counts of a run, and what a run of a program did to them and to Kafka's log.\<close>

definition marks :: "metric list \<Rightarrow> (string \<times> string) list" where
  "marks ms = concat (map (\<lambda>m. case m of KafkaProcessed topic result \<Rightarrow> [(topic, result)] | _ \<Rightarrow> []) ms)"



text \<open>
  How a record ends: an error and no count (a copy may still have reached Kafka), a count of success or
  duplicate and no copy, or a count of retry or dlq and one copy from the given set.
\<close>

definition accounted ::
  "string \<Rightarrow> krecord set \<Rightarrow> krecord set \<Rightarrow> krecord list \<Rightarrow> (string \<times> string) list \<Rightarrow> goerr option \<Rightarrow> krecord list \<Rightarrow>
     (string \<times> string) list \<Rightarrow> bool" where
  "accounted topic retries burials log ms r log' ms' \<longleftrightarrow>
     (r \<noteq> None \<and> ms' = ms \<and> (log' = log \<or> (\<exists>rec \<in> retries \<union> burials. log' = log @ [rec])))
     \<or> (r = None \<and> log' = log \<and> ms' \<in> {ms @ [(topic, ''success'')], ms @ [(topic, ''duplicate'')]})
     \<or> (r = None \<and> ms' = ms @ [(topic, ''retry'')] \<and> (\<exists>rec \<in> retries. log' = log @ [rec]))
     \<or> (r = None \<and> ms' = ms @ [(topic, ''dlq'')] \<and> (\<exists>rec \<in> burials. log' = log @ [rec]))"

definition outcomes ::
  "('z node_scheme, goerr option) prog \<Rightarrow> string \<Rightarrow> krecord set \<Rightarrow> krecord set \<Rightarrow> bool" where
  "outcomes p topic retries burials \<longleftrightarrow> (\<forall>w. accounted topic retries burials (nd_log w) (marks (h_metrics w))
     (fst (run p w)) (nd_log (snd (run p w))) (marks (h_metrics (snd (run p w)))))"

lemma marks_append [simp]:
  "marks (ms @ ms') = marks ms @ marks ms'" "marks [] = []"
  "marks (m # ms) = (case m of KafkaProcessed topic result \<Rightarrow> [(topic, result)] | _ \<Rightarrow> []) @ marks ms"
  by (simp_all add: marks_def)

lemma outcomes_call:
  assumes "\<And>w. nd_log (snd (g w)) = nd_log w" and "\<And>w. h_metrics (snd (g w)) = h_metrics w"
    and "\<And>b. outcomes (k b) topic retries burials"
  shows "outcomes (call g k) topic retries burials"
  unfolding outcomes_def
proof
  fix w
  obtain b w1 where g: "g w = (b, w1)" by fastforce
  have "nd_log w1 = nd_log w" "h_metrics w1 = h_metrics w" using assms(1,2) [of w] g by simp_all
  then show "accounted topic retries burials (nd_log w) (marks (h_metrics w))
     (fst (run (call g k) w)) (nd_log (snd (run (call g k) w))) (marks (h_metrics (snd (run (call g k) w))))"
    using assms(3) [of b] g unfolding outcomes_def by (metis case_prod_conv run_call)
qed

lemma outcomes_fail: "outcomes (Ret (Some e)) topic retries burials"
  by (simp add: outcomes_def accounted_def)

lemma outcomes_done:
  "result \<in> {''success'', ''duplicate''} \<Longrightarrow>
     outcomes (act (rt_count host_runtime (KafkaProcessed topic result)) (Ret None)) topic retries burials"
  by (auto simp: outcomes_def accounted_def)

lemma outcomes_now: "(\<And>t. outcomes (k t) topic retries burials) \<Longrightarrow> outcomes (call (rt_now host_runtime) k) topic retries burials"
  by (rule outcomes_call) simp_all

lemma outcomes_read:
  "(\<And>e. outcomes (k e) topic retries burials) \<Longrightarrow> outcomes (call (\<lambda>w. (g w, w)) k) topic retries burials"
  by (rule outcomes_call) simp_all

lemma route_step:
  assumes "c_producer c = PublishRecord broker_client" and "route C c ctx msg topic attempt reason notBefore w = (e, w')"
  shows "h_metrics w' = h_metrics w \<and> (nd_log w' = nd_log w @ [routed_record C msg topic attempt reason notBefore]
    \<or> e \<noteq> None \<and> nd_log w' = nd_log w)"
  using assms
  by (auto simp: route_def PublishRecord_def broker_produce_def split: option.splits prod.splits list.splits reply.splits)

lemma outcomes_route:
  assumes "c_producer c = PublishRecord broker_client"
    and "result = ''retry'' \<and> routed_record C msg topic attempt reason notBefore \<in> retries
       \<or> result = ''dlq'' \<and> routed_record C msg topic attempt reason notBefore \<in> burials"
  shows "outcomes (call (route C c ctx msg topic attempt reason notBefore)
      (count_when_nil host_runtime (KafkaProcessed t result))) t retries burials"
  unfolding outcomes_def
proof
  fix w
  let ?p = "call (route C c ctx msg topic attempt reason notBefore) (count_when_nil host_runtime (KafkaProcessed t result))"
  obtain e w1 where e: "route C c ctx msg topic attempt reason notBefore w = (e, w1)" by fastforce
  have run: "run ?p w = (e, (case e of None \<Rightarrow> w1\<lparr>h_metrics := h_metrics w1 @ [KafkaProcessed t result]\<rparr> | Some _ \<Rightarrow> w1))"
    by (simp add: e count_when_nil_def split: option.split)
  show "accounted t retries burials (nd_log w) (marks (h_metrics w))
     (fst (run ?p w)) (nd_log (snd (run ?p w))) (marks (h_metrics (snd (run ?p w))))"
    unfolding run using route_step [OF assms(1) e] assms(2) by (cases e) (auto simp: accounted_def)
qed

definition retry_copies :: "('c) codec_scheme \<Rightarrow> consumer_config \<Rightarrow> krecord \<Rightarrow> krecord set" where
  "retry_copies C config msg = {routed_record C msg (cc_RetryTopic config) (attempt + 1) reason notBefore | attempt reason notBefore.
     headerInt msg ''attempt'' = Inr attempt \<and> sint (attempt + 1) \<le> sint (cc_MaxRetries config)}"

definition dlq_copies :: "('c) codec_scheme \<Rightarrow> consumer_config \<Rightarrow> krecord \<Rightarrow> krecord set" where
  "dlq_copies C config msg = {routed_record C msg (cc_DLQTopic config) attempt reason 0 | attempt reason. True}"

lemma dlq_outcomes:
  assumes "c_producer c = PublishRecord broker_client" and "c_config c = config"
  shows "outcomes (dlq host_runtime C c ctx msg attempt reason) (rec_Topic msg) retries (dlq_copies C config msg)"
  unfolding dlq_def using assms by (intro outcomes_route) (auto simp: dlq_copies_def)

lemma retry_outcomes:
  assumes "c_producer c = PublishRecord broker_client" and "c_config c = config" and "headerInt msg ''attempt'' = Inr attempt"
  shows "outcomes (retry host_runtime C c ctx msg attempt cause) (rec_Topic msg) (retry_copies C config msg) (dlq_copies C config msg)"
proof (cases "sint (attempt + 1) > sint (cc_MaxRetries config)")
  case True
  then show ?thesis using dlq_outcomes [OF assms(1,2)] assms(2) by (simp add: retry_def Let_def)
next
  case False
  then show ?thesis
    unfolding retry_def Let_def assms(2) using assms
    by (simp, intro outcomes_now outcomes_route) (auto simp: retry_copies_def)
qed

lemma complete_frames:
  fixes w :: "'z consumer_node_scheme"
  shows "nd_log (snd (Complete P host_runtime C eid name oid status reason rid w)) = nd_log w"
    and "h_metrics (snd (Complete P host_runtime C eid name oid status reason rid w)) = h_metrics w"
    and "nd_log (snd (IsProcessed P eid name w)) = nd_log w" and "h_metrics (snd (IsProcessed P eid name w)) = h_metrics w"
  by (rule Complete_frame [OF prod.collapse [symmetric]] IsProcessed_frame [OF prod.collapse [symmetric]]; simp)+

lemma timer_frames: "nd_log (snd (host_timer d w)) = nd_log w" "h_metrics (snd (host_timer d w)) = h_metrics w"
  by (simp_all add: host_timer_def Let_def)

lemma observe_outcomes:
  "outcomes p topic retries burials \<Longrightarrow> outcomes (act (rt_count host_runtime OrderProcessingDuration) p) topic retries burials"
  unfolding outcomes_def
proof
  fix w
  assume "\<forall>w. accounted topic retries burials (nd_log w) (marks (h_metrics w))
     (fst (run p w)) (nd_log (snd (run p w))) (marks (h_metrics (snd (run p w))))"
  from spec [OF this, of "w\<lparr>h_metrics := h_metrics w @ [OrderProcessingDuration]\<rparr>"]
  show "accounted topic retries burials (nd_log w) (marks (h_metrics w))
     (fst (run (act (rt_count host_runtime OrderProcessingDuration) p) w))
     (nd_log (snd (run (act (rt_count host_runtime OrderProcessingDuration) p) w)))
     (marks (h_metrics (snd (run (act (rt_count host_runtime OrderProcessingDuration) p) w))))"
    by simp
qed

lemma record_outcomes:
  fixes P and C :: "('c) codec_scheme" and fan ends config ctx msg
  defines "c \<equiv> node_consumer P C fan ends config :: ('z consumer_node_scheme) consumer"
  shows "outcomes (processRecord host_runtime C c ctx msg) (rec_Topic msg) (retry_copies C config msg) (dlq_copies C config msg)"
proof (cases "headerInt msg ''attempt''")
  case (Inl e)
  then show ?thesis by (simp add: processRecord_def c_def dlq_outcomes)
next
  case (Inr attempt)
  let ?ok = "\<lambda>p. outcomes p (rec_Topic msg) (retry_copies C config msg) (dlq_copies C config msg)"
  have dlq: "?ok (dlq host_runtime C c ctx msg a reason)" for a reason
    by (rule dlq_outcomes) (simp_all add: c_def)
  have retry: "?ok (retry host_runtime C c ctx msg attempt cause)" for cause
    by (rule retry_outcomes) (simp_all add: c_def Inr)
  have complete: "?ok (completeRecord host_runtime C c ctx msg attempt env res)" for env res
    unfolding completeRecord_def
    by (rule outcomes_call) (simp_all add: c_def complete_frames retry [unfolded c_def] outcomes_done [simplified] split: sum.split)
  have process: "?ok (call (c_processor c ctx' inp) k)" if "\<And>d. ?ok (k d)" for ctx' inp k
    using that by (intro outcomes_call) (simp_all add: c_def shop_processor_def)
  have payload: "?ok (processPayload host_runtime C c ctx msg attempt env)" for env
    unfolding processPayload_def
    by (auto intro!: dlq outcomes_now process observe_outcomes outcomes_read outcomes_fail retry complete
        split: sum.split option.split)
  have due: "?ok (processDue host_runtime C c ctx msg attempt)"
    unfolding processDue_def
    by (auto intro!: dlq outcomes_call retry payload outcomes_done simp: c_def [symmetric] complete_frames
        split: sum.split option.split) (simp_all add: c_def complete_frames)
  have wait: "?ok (waitUntil host_runtime ctx t k)" if "\<And>e. ?ok (k e)" for t k
    unfolding waitUntil_def
    by (auto intro!: that outcomes_now outcomes_read outcomes_call simp: timer_frames)
  show ?thesis
    unfolding processRecord_def Inr
    by (auto intro!: dlq outcomes_now wait due outcomes_fail split: sum.split option.split)
qed

text \<open>A record that carries no order event is buried without a look at the database.\<close>

definition buries :: "('z node_scheme, goerr option) prog \<Rightarrow> krecord set \<Rightarrow> bool" where
  "buries p burials \<longleftrightarrow> (\<forall>w. sv_db (snd (run p w)) = sv_db w
     \<and> (fst (run p w) = None \<longrightarrow> (\<exists>rec \<in> burials. nd_log (snd (run p w)) = nd_log w @ [rec])))"

lemma buries_call:
  assumes "\<And>w. sv_db (snd (g w)) = sv_db w" and "\<And>w. nd_log (snd (g w)) = nd_log w" and "\<And>b. buries (k b) burials"
  shows "buries (call g k) burials"
  unfolding buries_def
proof
  fix w
  obtain b w1 where g: "g w = (b, w1)" by fastforce
  have "sv_db w1 = sv_db w" "nd_log w1 = nd_log w" using assms(1,2) [of w] g by simp_all
  then show "sv_db (snd (run (call g k) w)) = sv_db w
     \<and> (fst (run (call g k) w) = None \<longrightarrow> (\<exists>rec \<in> burials. nd_log (snd (run (call g k) w)) = nd_log w @ [rec]))"
    using assms(3) [of b] g unfolding buries_def by (metis case_prod_conv run_call)
qed

lemma buries_dlq:
  assumes "c_producer c = PublishRecord broker_client" and "c_config c = config"
  shows "buries (dlq host_runtime C c ctx msg attempt reason) (dlq_copies C config msg)"
  unfolding buries_def
proof
  fix w
  obtain e w1 where e: "route C c ctx msg (cc_DLQTopic config) attempt reason 0 w = (e, w1)" by fastforce
  have db: "sv_db w1 = sv_db w"
    using e assms by (auto simp: route_def PublishRecord_def broker_produce_def split: option.splits prod.splits list.splits reply.splits)
  have "routed_record C msg (cc_DLQTopic config) attempt reason 0 \<in> dlq_copies C config msg"
    by (auto simp: dlq_copies_def)
  moreover have "run (dlq host_runtime C c ctx msg attempt reason) w
      = (e, (case e of None \<Rightarrow> w1\<lparr>h_metrics := h_metrics w1 @ [KafkaProcessed (rec_Topic msg) ''dlq'']\<rparr> | Some _ \<Rightarrow> w1))"
    by (simp add: dlq_def e assms(2) count_when_nil_def split: option.split)
  ultimately show "sv_db (snd (run (dlq host_runtime C c ctx msg attempt reason) w)) = sv_db w
     \<and> (fst (run (dlq host_runtime C c ctx msg attempt reason) w) = None \<longrightarrow> (\<exists>rec \<in> dlq_copies C config msg.
          nd_log (snd (run (dlq host_runtime C c ctx msg attempt reason) w)) = nd_log w @ [rec]))"
    using route_step [OF assms(1) e] db by (cases e) auto
qed

lemma buries_fail: "buries (Ret (Some e)) burials"
  by (simp add: buries_def)

lemma timer_db: "sv_db (snd (host_timer d w)) = sv_db w"
  by (simp add: host_timer_def Let_def)

lemma record_buried:
  fixes P and C :: "('c) codec_scheme" and fan ends config ctx msg
  defines "c \<equiv> node_consumer P C fan ends config :: ('z consumer_node_scheme) consumer"
  assumes "\<nexists>envelope. order_event C msg envelope"
  shows "buries (processRecord host_runtime C c ctx msg) (dlq_copies C config msg)"
proof -
  let ?ok = "\<lambda>p. buries p (dlq_copies C config msg)"
  have dlq: "?ok (dlq host_runtime C c ctx msg a reason)" for a reason
    by (rule buries_dlq) (simp_all add: c_def)
  have "\<exists>reason. processDue host_runtime C c ctx msg attempt = dlq host_runtime C c ctx msg attempt reason" for attempt
    using assms(2) by (auto simp: processDue_def order_event_def simp del: Envelope_Validate_None split: sum.split option.split)
  then have due: "?ok (processDue host_runtime C c ctx msg attempt)" for attempt
    using dlq by metis
  have now: "?ok (call (rt_now host_runtime) k)" if "\<And>t. ?ok (k t)" for k
    using that by (intro buries_call) simp_all
  have wait: "?ok (waitUntil host_runtime ctx t k)" if "\<And>e. ?ok (k e)" for t k
    unfolding waitUntil_def by (auto intro!: that now buries_call simp: timer_frames timer_db)
  show ?thesis
    unfolding processRecord_def by (auto intro!: dlq now wait due buries_fail split: sum.split option.split)
qed

section \<open>A new order, when nothing fails\<close>

lemma shop_decides:
  "Processor_Process fan (shop_operations m) None inp = Inr (shop_verdict m inp)"
proof -
  let ?s = "fo_loop fan 0 (shop_operations m) inp None (fanout_init (shop_operations m))"
  have "(fanout_step (shop_operations m) inp None)\<^sup>*\<^sup>* (fanout_init (shop_operations m)) ?s \<and> fanout_finished (shop_operations m) ?s"
    by (rule fo_loop_run) simp
  then have "decide (fo_received ?s) = Inr (shop_verdict m inp)"
    using shop.finished_decision [of m inp None ?s] unfolding shop_decision by simp
  then show ?thesis by (simp add: Processor_Process_def shop_operations_def)
qed

lemma IsProcessed_quiet:
  assumes "sv_plan w = []" and "text_ok name"
  shows "IsProcessed P eid name w = (Inr ((name, eid) \<in> processed_keys (sv_db w)), w)"
proof -
  have "list_ex (\<lambda>r. p_event_id r = eid \<and> p_consumer_name r = name) (processed_events d) = ((name, eid) \<in> processed_keys d)" for d
    by (auto simp: list_ex_iff processed_keys_def processed_key_def)
  then have "query (processed_exists P eid name) w = (Inr ((name, eid) \<in> processed_keys (sv_db w)), w)"
    using assms by (simp add: query_def next_reply_def processed_exists_def)
  then show ?thesis by (simp add: IsProcessed_def)
qed

text \<open>The record is due and carries an order event that the repository is asked about.\<close>

definition due_event :: "('c) codec_scheme \<Rightarrow> consumer_config \<Rightarrow> time \<Rightarrow> krecord \<Rightarrow> int64 \<Rightarrow> envelope \<Rightarrow> bool" where
  "due_event C config now msg attempt envelope \<longleftrightarrow> headerInt msg ''attempt'' = Inr attempt
     \<and> sint attempt \<le> sint (cc_MaxRetries config)
     \<and> (\<exists>notBefore. headerTime C msg ''not_before'' = Inr notBefore \<and> notBefore \<le> now)
     \<and> 0 \<le> sint (cc_MaxBackoff config + 5 * second) \<and> order_event C msg envelope"

lemma run_due:
  fixes w :: "'z consumer_node_scheme"
  assumes "due_event C config (h_clock w) msg attempt envelope"
  shows "run (processRecord host_runtime C (node_consumer P C fan ends config) ctx msg) w
    = run (processDue host_runtime C (node_consumer P C fan ends config) ctx msg attempt) w"
proof -
  obtain nb where nb: "headerTime C msg ''not_before'' = Inr nb" "nb \<le> h_clock w"
    using assms by (auto simp: due_event_def)
  have "\<not> nb > time_add (h_clock w) (cc_MaxBackoff config + 5 * second)"
    using nb(2) assms by (simp add: due_event_def time_add_def)
  then show ?thesis
    using assms nb by (simp add: processRecord_def due_event_def waitUntil_def)
qed

lemma run_checked:
  fixes w :: "'z consumer_node_scheme"
  assumes "due_event C config (h_clock w) msg attempt envelope" and "sv_plan w = []" and "text_ok (cc_ConsumerName config)"
  shows "run (processRecord host_runtime C (node_consumer P C fan ends config) ctx msg) w =
    (if in_records (cc_ConsumerName config) (EventID envelope) w
     then (None, w\<lparr>h_metrics := h_metrics w @ [KafkaProcessed (rec_Topic msg) ''duplicate'']\<rparr>)
     else run (processPayload host_runtime C (node_consumer P C fan ends config) ctx msg attempt envelope) w)"
proof -
  have "order_event C msg envelope" using assms(1) by (simp add: due_event_def)
  then show ?thesis
    unfolding run_due [OF assms(1)]
    by (simp add: processDue_def order_event_def IsProcessed_quiet [OF assms(2,3)] in_records_def del: Envelope_Validate_None)
qed

lemma run_payload_decides:
  fixes w :: "'z consumer_node_scheme"
  assumes "unmarshal_created C (Payload envelope) = Inr payload" and "CreatedPayload_Validate payload = None"
    and "v = shop_verdict 100 (input_of C envelope payload)" and "w1 = w\<lparr>h_metrics := h_metrics w @ [OrderProcessingDuration]\<rparr>"
    and "Complete P host_runtime C (EventID envelope) (cc_ConsumerName config) (AggregateID envelope) (pr_Status v) (pr_Reason v)
      (env_RequestID envelope) w1 = (Inr True, w2)"
  shows "run (processPayload host_runtime C (node_consumer P C fan (\<lambda>ctx w. None) config) ctx msg attempt envelope) w
    = (None, w2\<lparr>h_metrics := h_metrics w2 @ [KafkaProcessed (rec_Topic msg) ''success'']\<rparr>)"
  using assms(5)
  by (simp add: processPayload_def assms(1,2) shop_processor_def shop_decides completeRecord_def assms(3,4))

section \<open>Properties of one record\<close>

text \<open>
  C15. Every record ends in exactly one way, whatever its content and whatever fails: an error and no count
  (the offset will not be committed), a count of success or duplicate and no copy in Kafka, a count of
  retry and one copy in the retry topic whose attempt is one higher and within the limit, or a count of dlq
  and one copy in the dead letter topic. No record is routed twice, counted twice or dropped.
\<close>
theorem processRecord_accounting:
  fixes w :: "'z consumer_node_scheme"
  shows "accounted (rec_Topic msg) (retry_copies C config msg) (dlq_copies C config msg) (nd_log w) (marks (h_metrics w))
    (fst (run (processRecord host_runtime C (node_consumer P C fan ends config) ctx msg) w))
    (nd_log (snd (run (processRecord host_runtime C (node_consumer P C fan ends config) ctx msg) w)))
    (marks (h_metrics (snd (run (processRecord host_runtime C (node_consumer P C fan ends config) ctx msg) w))))"
  using record_outcomes [of C P fan ends config ctx msg] unfolding outcomes_def by blast

definition worker_config :: consumer_config where
  "worker_config = \<lparr>cc_ConsumerName = ''worker'', cc_RetryTopic = ''retry'', cc_DLQTopic = ''dlq'', cc_Workers = 2,
     cc_BatchSize = 4, cc_MaxRetries = 3, cc_BaseBackoff = second, cc_MaxBackoff = minute, cc_Timeout = 30 * second\<rparr>"

definition worker_node :: "db \<Rightarrow> reply list \<Rightarrow> (krecord list \<times> goerr list) list \<Rightarrow> consumer_node" where
  "worker_node d plan polls = node.extend (sample_node d plan []) \<lparr>cn_polls = polls, cn_committed = [], cn_offsets = (\<lambda>tp. 0), cn_commits = []\<rparr>"

lemma worker_node_simps [simp]:
  "sv_db (worker_node d plan polls) = d" "sv_plan (worker_node d plan polls) = plan"
  "sv_now (worker_node d plan polls) = 5000000" "h_clock (worker_node d plan polls) = 4000000"
  "h_uuids (worker_node d plan polls) n = word_of_nat (n + 100)" "h_next (worker_node d plan polls) = 0"
  "h_metrics (worker_node d plan polls) = []" "nd_log (worker_node d plan polls) = []"
  "cn_polls (worker_node d plan polls) = polls" "cn_committed (worker_node d plan polls) = []"
  "cn_offsets (worker_node d plan polls) tp = 0" "cn_commits (worker_node d plan polls) = []"
  "nd_answers (worker_node d plan polls) = []"
  "h_cancel_at (worker_node d plan polls) = None"
  by (simp_all add: worker_node_def sample_node_def sample_host_def host.defs node.defs)

lemma worker_name: "cc_ConsumerName worker_config = ''worker''" "text_ok ''worker''"
  by (simp_all add: worker_config_def text_ok_def valid_utf8_ascii)

lemma sample_event_id: "EventID sample_envelope = 2" "AggregateID sample_envelope = 1"
  by (simp_all add: sample_envelope_def)

lemma sample_envelope_ok: "envelope_ok sample_envelope"
  by (simp add: envelope_ok_def sample_envelope_def uuid_nil_def ascii_simps OrderCreated_def)

lemma sample_event: "order_event C0 created_msg sample_envelope"
  by (simp add: order_event_def sample_envelope_ok) (simp add: sample_envelope_def created_msg_def nat_digits.simps char_of_def bit_0)

lemma sample_due: "due_event C0 worker_config 4000000 created_msg 1 sample_envelope"
proof -
  have "headerInt created_msg ''attempt'' = Inr 1"
    by (simp add: headerInt_def header_of_def created_msg_def atoi_def is_digit_def digits_value_def)
  moreover have "headerTime C0 created_msg ''not_before'' = Inr 0"
    by (simp add: headerTime_def header_of_def created_msg_def)
  ultimately show ?thesis
    by (simp add: due_event_def sample_event) (simp add: worker_config_def second_def minute_def)
qed

text \<open>
  A new order is decided: when nothing fails, a due record with the event of a PENDING order, not seen
  before, ends with nil; the order then has the status of the business decision, the event is recorded, its
  OrderStatusChanged event is in the outbox, no copy went to Kafka and one success was counted.
\<close>
lemma new_orders_are_decided:
  fixes w :: "'z consumer_node_scheme"
  assumes "due_event C config (h_clock w) msg attempt envelope" and "sv_plan w = []" and "db_ok (sv_db w)"
    and "text_ok (cc_ConsumerName config)" and "cc_ConsumerName config \<noteq> ''''"
    and "(cc_ConsumerName config, EventID envelope) \<notin> processed_keys (sv_db w)"
    and "unmarshal_created C (Payload envelope) = Inr payload" and "CreatedPayload_Validate payload = None"
    and v: "v = shop_verdict 100 (input_of C envelope payload)"
    and "status_of (sv_db w) (AggregateID envelope) = Some StatusPending"
    and "\<forall>r \<in> set (orders (sv_db w)). o_id r = AggregateID envelope \<longrightarrow> o_created_at r \<le> sv_now w"
    and "marshal_status_changed C \<lparr>scp_PreviousStatus = StatusPending, scp_CurrentStatus = pr_Status v, scp_Reason = pr_Reason v\<rparr>
      = Inr raw"
    and env: "env = \<lparr>EventID = h_uuids w (h_next w), EventType = OrderStatusChanged, AggregateID = AggregateID envelope,
      env_RequestID = env_RequestID envelope, OccurredAt = h_clock w, Version = 1, Payload = raw\<rparr>" and "Envelope_Validate env = None"
    and "marshal_envelope C env = Inr json" and "pg_jsonb P json = Some stored"
    and "h_uuids w (h_next w) \<notin> set (map ob_id (outbox_events (sv_db w)))"
  shows "\<exists>w'. run (processRecord host_runtime C (node_consumer P C fan (\<lambda>ctx w. None) config) ctx msg) w = (None, w')
    \<and> status_of (sv_db w') (AggregateID envelope) = Some (pr_Status v)
    \<and> (cc_ConsumerName config, EventID envelope) \<in> processed_keys (sv_db w')
    \<and> outbox_events (sv_db w') = outbox_events (sv_db w) @ [fresh_outbox_row P (sv_now w) (EventID env) (AggregateID envelope)
        OrderStatusChanged stored (h_clock w)]
    \<and> nd_log w' = nd_log w \<and> marks (h_metrics w') = marks (h_metrics w) @ [(rec_Topic msg, ''success'')]"
proof -
  let ?name = "cc_ConsumerName config" and ?oid = "AggregateID envelope"
  define w1 where "w1 = w\<lparr>h_metrics := h_metrics w @ [OrderProcessingDuration]\<rparr>"
  have st: "pr_Status v \<in> set order_status_enum"
    unfolding v shop_verdict_def by (simp add: order_status_enum_def status_defs split: list.split)
  let ?d2 = "with_processed (sv_now w) (EventID envelope) ?name (sv_db w)"
  have rows: "list_all order_row_ok (orders (with_status (sv_now w) ?oid (pr_Status v) ?d2))"
    using assms(3,11) st by (auto simp: with_status_def with_processed_def db_ok_def list_all_iff order_row_ok_def)
  let ?d = "with_event P (sv_now w) env stored (with_status (sv_now w) ?oid (pr_Status v) ?d2)"
  let ?w2 = "w1\<lparr>sv_db := ?d, h_next := Suc (h_next w)\<rparr>"
  have "complete_pending P host_runtime C ?oid (pr_Status v) (pr_Reason v) (env_RequestID envelope) StatusPending w1
      (w1\<lparr>sv_db := ?d2\<rparr>) = (Inr True, (w1\<lparr>sv_db := ?d2\<rparr>)\<lparr>sv_db := with_event P (sv_now (w1\<lparr>sv_db := ?d2\<rparr>)) env stored
        (with_status (sv_now (w1\<lparr>sv_db := ?d2\<rparr>)) ?oid (pr_Status v) (sv_db (w1\<lparr>sv_db := ?d2\<rparr>))), h_next := Suc (h_next (w1\<lparr>sv_db := ?d2\<rparr>))\<rparr>)"
    using assms st rows by (intro complete_pending_quiet [where raw = raw]) (simp_all add: w1_def with_processed_def)
  then have comp: "Complete P host_runtime C (EventID envelope) ?name ?oid (pr_Status v) (pr_Reason v) (env_RequestID envelope) w1
      = (Inr True, ?w2)"
    using assms(2,4,5,6,10) by (subst Complete_quiet) (simp_all add: w1_def)
  have "run (processRecord host_runtime C (node_consumer P C fan (\<lambda>ctx w. None) config) ctx msg) w
      = (None, ?w2\<lparr>h_metrics := h_metrics ?w2 @ [KafkaProcessed (rec_Topic msg) ''success'']\<rparr>)"
    unfolding run_checked [OF assms(1,2,4)] using run_payload_decides [OF assms(7,8) v w1_def comp] assms(6)
    by (simp add: in_records_def)
  moreover have "status_of ?d ?oid = Some (pr_Status v)"
    using assms(10) by (simp add: status_of_def find_with_status with_event_def with_processed_def)
      (use find_SomeD in \<open>fastforce simp: status_of_def find_with_status with_processed_def with_status_def\<close>)
  moreover have "(?name, EventID envelope) \<in> processed_keys ?d"
    by (simp add: processed_keys_def with_event_def with_status_def with_processed_def processed_key_def)
  ultimately show ?thesis
    by (simp add: w1_def with_event_def with_status_def with_processed_def env)
qed

lemma sample_order_decided:
  "\<exists>w'. run (processRecord host_runtime C0 (node_consumer sample_pg C0 (\<lambda>t. t) (\<lambda>ctx w. None) worker_config) background created_msg)
      (worker_node worker_db [] []) = (None, w')
    \<and> status_of (sv_db w') 1 = Some StatusConfirmed \<and> (''worker'', 2) \<in> processed_keys (sv_db w')
    \<and> length (outbox_events (sv_db w')) = 1 \<and> marks (h_metrics w') = [(''created'', ''success'')]"
proof -
  let ?v = "shop_verdict 100 (input_of C0 sample_envelope (created_payload_of sample_order))"
  have v: "pr_Status ?v = StatusConfirmed"
    by (simp add: shop_verdict_def input_of_def sample_order_def sample_command_def created_payload_of_def stock_limit_def)
  have env: "completed_event = \<lparr>EventID = 100, EventType = OrderStatusChanged, AggregateID = 1,
      env_RequestID = env_RequestID sample_envelope, OccurredAt = 4000000, Version = 1, Payload = ''changed''\<rparr>"
    by (simp add: completed_event_def sample_envelope_def)
  have "CreatedPayload_Validate (created_payload_of sample_order) = None"
    using validate_sample
    by (simp add: CreatedPayload_Validate_def created_payload_of_def sample_order_def sample_command_def)
  then show ?thesis
    using new_orders_are_decided [where w = "worker_node worker_db [] []" and config = worker_config and msg = created_msg
        and attempt = 1 and envelope = sample_envelope and C = C0 and P = sample_pg and payload = "created_payload_of sample_order"
        and raw = "''changed''" and env = completed_event and json = "''envelope''" and stored = "''envelope''", OF _ _ _ _ _ _ _ _ refl]
      v sample_due worker_db_ok worker_status worker_keys worker_created completed_event_ok
    by (simp add: worker_name sample_event_id v env [symmetric]) (fastforce simp: created_msg_def)
qed

lemma routed_run:
  assumes "c_producer c = PublishRecord broker_client"
    and "run (call (route C c ctx msg topic attempt reason notBefore) (count_when_nil host_runtime m)) w = (r, w')"
  shows "sv_db w' = sv_db w \<and> (nd_log w' = nd_log w @ [routed_record C msg topic attempt reason notBefore]
    \<or> r \<noteq> None \<and> nd_log w' = nd_log w)"
  using assms
  by (auto simp: count_when_nil_def route_def PublishRecord_def broker_produce_def
      split: option.splits prod.splits list.splits reply.splits)

lemma retry_run:
  fixes w :: "'z consumer_node_scheme"
  assumes "headerInt msg ''attempt'' = Inr attempt"
    and "run (retry host_runtime C (node_consumer P C fan ends config) ctx msg attempt cause) w = (r, w')"
  shows "sv_db w' = sv_db w \<and> (r \<noteq> None \<and> nd_log w' = nd_log w
    \<or> (\<exists>copy \<in> retry_copies C config msg \<union> dlq_copies C config msg. nd_log w' = nd_log w @ [copy]))"
proof -
  let ?c = "node_consumer P C fan ends config :: ('z consumer_node_scheme) consumer"
  have c: "c_producer ?c = PublishRecord broker_client" by simp
  obtain topic a reason t m where p: "run (call (route C ?c ctx msg topic a reason t) (count_when_nil host_runtime m)) w = (r, w')"
    and copy: "routed_record C msg topic a reason t \<in> retry_copies C config msg \<union> dlq_copies C config msg"
    using assms(1,2) that unfolding retry_copies_def dlq_copies_def
    by (auto simp: retry_def dlq_def Let_def not_less split: if_splits) blast+
  from routed_run [OF c p] copy show ?thesis by blast
qed

lemma run_recorded:
  fixes w :: "'z consumer_node_scheme"
  assumes "due_event C config (h_clock w) msg attempt envelope"
    and "IsProcessed P (EventID envelope) (cc_ConsumerName config) w = (checked, w1)"
  shows "run (processRecord host_runtime C (node_consumer P C fan ends config) ctx msg) w = (case checked of
      Inl err \<Rightarrow> run (retry host_runtime C (node_consumer P C fan ends config) ctx msg attempt err) w1
    | Inr True \<Rightarrow> (None, w1\<lparr>h_metrics := h_metrics w1 @ [KafkaProcessed (rec_Topic msg) ''duplicate'']\<rparr>)
    | Inr False \<Rightarrow> run (processPayload host_runtime C (node_consumer P C fan ends config) ctx msg attempt envelope) w1)"
proof -
  have "order_event C msg envelope" using assms(1) by (simp add: due_event_def)
  then show ?thesis
    unfolding run_due [OF assms(1)]
    by (simp add: processDue_def order_event_def assms(2) del: Envelope_Validate_None split: sum.split bool.split)
qed

text \<open>
  C16. A record delivered again changes nothing in the database, whatever fails: once its event is recorded
  for this consumer, a due record that carries it, with the same or a routed copy's headers, leaves every
  table as it is. When the lookup of the event is answered, the record ends with nil and one duplicate
  counted, and Kafka's log stays as it is too. Only a lookup that fails sends a copy, to the retry or the dead
  letter topic, and the record then ends with nil only if that copy is in the log. When no reply fails, the
  count of the duplicate is all that changes.
\<close>
theorem redelivery_changes_nothing:
  fixes w :: "'z consumer_node_scheme"
  assumes "due_event C config (h_clock w) msg attempt envelope"
    and "(cc_ConsumerName config, EventID envelope) \<in> processed_keys (sv_db w)"
    and "run (processRecord host_runtime C (node_consumer P C fan ends config) ctx msg) w = (r, w')"
  shows "sv_db w' = sv_db w
    \<and> (case IsProcessed P (EventID envelope) (cc_ConsumerName config) w of
         (Inr found, w1) \<Rightarrow> found \<and> r = None \<and> nd_log w' = nd_log w
           \<and> w' = w1\<lparr>h_metrics := h_metrics w @ [KafkaProcessed (rec_Topic msg) ''duplicate'']\<rparr>
       | (Inl err, w1) \<Rightarrow> r \<noteq> None \<and> nd_log w' = nd_log w
           \<or> (\<exists>copy \<in> retry_copies C config msg \<union> dlq_copies C config msg. nd_log w' = nd_log w @ [copy]))
    \<and> (sv_plan w = [] \<and> text_ok (cc_ConsumerName config) \<longrightarrow>
         (r, w') = (None, w\<lparr>h_metrics := h_metrics w @ [KafkaProcessed (rec_Topic msg) ''duplicate'']\<rparr>))"
proof -
  obtain checked w1 where k: "IsProcessed P (EventID envelope) (cc_ConsumerName config) w = (checked, w1)" by fastforce
  note spec = IsProcessed_spec [OF k]
  have frame: "nd_log w1 = nd_log w" "h_metrics w1 = h_metrics w" by (rule IsProcessed_frame [OF k]; simp)+
  note run = assms(3) [unfolded run_recorded [OF assms(1) k]]
  show ?thesis
  proof (cases checked)
    case (Inl err)
    have h: "headerInt msg ''attempt'' = Inr attempt" using assms(1) by (simp add: due_event_def)
    have "run (retry host_runtime C (node_consumer P C fan ends config) ctx msg attempt err) w1 = (r, w')" using run Inl by simp
    from retry_run [OF h this] spec frame Inl IsProcessed_quiet [of w "cc_ConsumerName config" P "EventID envelope"] k
    show ?thesis by auto
  next
    case (Inr found)
    then have "found" using spec assms(2) by simp
    then show ?thesis
      using run Inr spec frame IsProcessed_quiet [of w "cc_ConsumerName config" P "EventID envelope"] k by auto
  qed
qed

theorem redelivery_changes_nothing_witness:
  "run (processRecord host_runtime C0 (node_consumer sample_pg C0 (\<lambda>t. t) (\<lambda>ctx w. None) worker_config) background created_msg)
      (worker_node (with_processed 5000000 2 ''worker'' worker_db) [] [])
    = (None, (worker_node (with_processed 5000000 2 ''worker'' worker_db) [] [])\<lparr>h_metrics := [KafkaProcessed ''created'' ''duplicate'']\<rparr>)"
proof -
  let ?w = "worker_node (with_processed 5000000 2 ''worker'' worker_db) [] []"
  have due: "due_event C0 worker_config (h_clock ?w) created_msg 1 sample_envelope" using sample_due by simp
  have key: "(cc_ConsumerName worker_config, EventID sample_envelope) \<in> processed_keys (sv_db ?w)"
    by (simp add: processed_keys_def with_processed_def processed_key_def worker_name sample_event_id)
  from redelivery_changes_nothing [OF due key prod.collapse [symmetric]] show ?thesis
    by (simp add: worker_name) (simp add: created_msg_def)
qed

text \<open>
  C30. A record that carries no order event (broken JSON, an invalid envelope, another event type, a key that
  is not the aggregate's) never reaches the database: it ends with a copy in the dead letter topic, or with
  an error and the record left uncommitted.
\<close>
theorem malformed_records_are_buried:
  fixes w :: "'z consumer_node_scheme"
  assumes "\<nexists>envelope. order_event C msg envelope"
    and "run (processRecord host_runtime C (node_consumer P C fan ends config) ctx msg) w = (r, w')"
  shows "sv_db w' = sv_db w \<and> (r = None \<longrightarrow> (\<exists>rec \<in> dlq_copies C config msg. nd_log w' = nd_log w @ [rec]))"
  using record_buried [OF assms(1), of P fan ends config ctx] assms(2) unfolding buries_def by (metis fst_conv snd_conv)

definition foreign_msg :: krecord where
  "foreign_msg = created_msg\<lparr>rec_Key := ''77''\<rparr>"

theorem malformed_records_are_buried_witness:
  "sv_db (snd (run (processRecord host_runtime C0 (node_consumer sample_pg C0 (\<lambda>t. t) (\<lambda>ctx w. None) worker_config) background foreign_msg)
      (worker_node worker_db [] []))) = worker_db"
proof -
  have "nat_digits 1 = ''1''" by (simp add: nat_digits.simps char_of_def bit_0)
  then have "\<nexists>envelope. order_event C0 foreign_msg envelope"
    by (auto simp: order_event_def foreign_msg_def sample_envelope_def)
  from malformed_records_are_buried [OF this prod.collapse [symmetric]] show ?thesis by (metis worker_node_simps(1))
qed

section \<open>Properties of batches and of the loop\<close>

lemma batch_returns:
  fixes w :: "'z consumer_node_scheme"
  assumes "0 < sint (cc_Workers config)"
  shows "\<exists>r w'. handleBatch sched host_runtime C (node_consumer P C fan ends config) ctx records w = Some (r, w')
    \<and> consumes C config w w' \<and> (r = None \<longrightarrow> (\<forall>msg \<in> set records. node_handled C config msg w'))"
proof -
  let ?b = "handleBatch sched host_runtime C (node_consumer P C fan ends config) ctx records w"
  let ?p = "Process sched host_runtime ctx (cc_Workers config) records
    (processRecord host_runtime C (node_consumer P C fan ends config)) w"
  have "?p \<noteq> None" using assms Process_returns by fastforce
  then have "?b \<noteq> None" by (auto simp: handleBatch_def split: option.split prod.split)
  then obtain r w' where b: "?b = Some (r, w')" by auto
  show ?thesis using shop_worker.handleBatch_goes [OF b] b by auto
qed

text \<open>
  C6. A batch with at least one worker always ends, whatever the records and whatever fails. Whenever the
  pool's schedule lets records of the same order or the same event run at the same time, each order leaves
  PENDING at most once and for a terminal status; and everything whose offset is committed, before the batch
  or by it, is dealt with: its event is recorded, or a copy is in the retry or the dead letter topic.
\<close>
theorem handleBatch_commits_only_handled_records:
  fixes w :: "'z consumer_node_scheme"
  assumes "0 < sint (cc_Workers config)" and "consumer_ok C config w"
  shows "\<exists>r w'. handleBatch sched host_runtime C (node_consumer P C fan ends config) ctx records w = Some (r, w')
    \<and> db_ok (sv_db w') \<and> (\<forall>msg \<in> set (cn_committed w'). node_handled C config msg w')
    \<and> decided_once (sv_db w) (sv_db w') \<and> (r = None \<longrightarrow> (\<forall>msg \<in> set records. node_handled C config msg w'))"
  using batch_returns [OF assms(1), of sched C P fan ends ctx records w] assms(2)
  unfolding consumes_def consumer_ok_def by blast

lemma worker_consumer_ok: "consumer_ok C0 worker_config (worker_node worker_db plan polls)"
  by (simp add: consumer_ok_def worker_db_ok)

lemma worker_workers: "0 < sint (cc_Workers worker_config)"
  by (simp add: worker_config_def)

theorem handleBatch_commits_only_handled_records_witness:
  "\<exists>r w'. handleBatch (\<lambda>t. 3 * t) host_runtime C0 (node_consumer sample_pg C0 (\<lambda>t. t) (\<lambda>ctx w. None) worker_config) background
      [created_msg, foreign_msg, created_msg] (worker_node worker_db [Done, Lost ctx_canceled] []) = Some (r, w')
    \<and> db_ok (sv_db w') \<and> decided_once worker_db (sv_db w')"
  using handleBatch_commits_only_handled_records [OF worker_workers worker_consumer_ok] by (metis worker_node_simps(1))

lemma loop_returns:
  fixes w :: "'z consumer_node_scheme"
  assumes "0 < sint (cc_Workers config)" and "h_cancel_at w = Some c"
  shows "\<exists>r w'. Consumer_Run sched t host_runtime C (node_consumer P C fan ends config) ctx w = Some (Some (r, w'))"
  using assms(2)
proof (induction "length (cn_polls w)" arbitrary: w t rule: less_induct)
  case less
  let ?c = "node_consumer P C fan ends config"
  show ?case
  proof (cases "cn_polls w")
    case Nil
    then have "node_poll w = (([], []), w\<lparr>h_clock := max (h_clock w) c\<rparr>)"
      using less.prems by (simp add: node_poll_def)
    then show ?thesis
      using less.prems by (simp add: Consumer_Run.simps [of _ t] canceled_by_def)
  next
    case (Cons p ps)
    obtain records errs where p: "p = (records, errs)" by fastforce
    let ?w1 = "w\<lparr>cn_polls := ps\<rparr>"
    have poll: "node_poll w = ((records, errs), ?w1)" using Cons p by (simp add: node_poll_def)
    have again: "\<exists>r w'. Consumer_Run sched (Suc t) host_runtime C ?c ctx w2 = Some (Some (r, w'))"
      if "consumes C config ?w1 w2" for w2
      using that less.prems Cons by (intro less.hyps) (auto simp: consumes_def)
    show ?thesis
    proof (cases "errs \<noteq> [] \<or> records = []")
      case True
      then show ?thesis
        using again [OF consumes_refl] by (simp add: Consumer_Run.simps [of _ t] poll)
    next
      case False
      obtain r w2 where b: "handleBatch (sched t) host_runtime C ?c ctx records ?w1 = Some (r, w2)" "consumes C config ?w1 w2"
        using batch_returns [OF assms(1)] by blast
      show ?thesis
        using again [OF b(2)] b(1) False by (cases r) (simp_all add: Consumer_Run.simps [of _ t] poll)
    qed
  qed
qed

text \<open>
  What a client delivers within one assignment of its partitions: from the committed offsets on, and in
  every partition upwards.
\<close>

definition in_order :: "(topic_partition \<Rightarrow> int) \<Rightarrow> krecord list \<Rightarrow> bool" where
  "in_order offsets recs \<longleftrightarrow> list_all (\<lambda>rec. offsets (partition_of rec) \<le> offset_of rec) recs
     \<and> sorted_wrt (\<lambda>r s. partition_of r = partition_of s \<longrightarrow> offset_of r < offset_of s) recs"

lemma commit_offsets_above:
  "rec \<in> set recs \<Longrightarrow> offset_of rec < commit_offsets recs offsets (partition_of rec)"
proof -
  assume "rec \<in> set recs"
  then have m: "rec \<in> set (filter (\<lambda>r. partition_of r = partition_of rec) recs)" (is "_ \<in> set ?rs") by simp
  then obtain r rs where rs: "?rs = r # rs" by (cases ?rs) auto
  have "commit_offsets recs offsets (partition_of rec) = Max (set (map offset_of (r # rs))) + 1"
    unfolding commit_offsets_def rs list.case list.map Max.set_eq_fold ..
  moreover have "offset_of rec \<le> Max (set (map offset_of (r # rs)))" using m unfolding rs by (intro Max_ge) auto
  ultimately show ?thesis by simp
qed

lemma commit_offsets_below:
  assumes "offsets tp \<le> b" and "\<And>rec. rec \<in> set recs \<Longrightarrow> partition_of rec = tp \<Longrightarrow> offset_of rec < b"
  shows "commit_offsets recs offsets tp \<le> b"
proof (cases "filter (\<lambda>rec. partition_of rec = tp) recs")
  case (Cons r rs)
  then have "set (r # rs) = {rec \<in> set recs. partition_of rec = tp}" by (metis set_filter)
  then have "\<forall>x \<in> set (r # rs). offset_of x < b" using assms(2) by auto
  then have "Max (set (map offset_of (r # rs))) < b" by simp
  then show ?thesis unfolding commit_offsets_def Cons list.case list.map Max.set_eq_fold by simp
qed (use assms(1) in \<open>simp add: commit_offsets_def\<close>)

lemma in_order_rest: "in_order offsets (recs @ later) \<Longrightarrow> in_order offsets later"
  by (simp add: in_order_def sorted_wrt_append)

lemma in_order_committed:
  assumes "in_order offsets (recs @ later)"
  shows "in_order (commit_offsets recs offsets) later"
  unfolding in_order_def list_all_iff
proof (intro conjI ballI)
  fix rec assume "rec \<in> set later"
  then show "commit_offsets recs offsets (partition_of rec) \<le> offset_of rec"
    using assms by (intro commit_offsets_below) (auto simp: in_order_def list_all_iff sorted_wrt_append)
qed (use assms in \<open>simp add: in_order_def sorted_wrt_append\<close>)

lemma in_order_ahead: "in_order offsets recs \<Longrightarrow> rec \<in> set recs \<Longrightarrow> \<not> offset_of rec < offsets (partition_of rec)"
  by (auto simp: in_order_def list_all_iff)

lemma batch_offsets:
  fixes w :: "'z consumer_node_scheme"
  assumes "handleBatch sched host_runtime C (node_consumer P C fan ends config) ctx records w = Some (r, w')"
  shows "cn_polls w' = cn_polls w \<and> h_cancel_at w' = h_cancel_at w \<and> (r \<noteq> None \<and> cn_offsets w' = cn_offsets w
    \<or> cn_offsets w' = commit_offsets records (cn_offsets w) \<and> (\<forall>msg \<in> set records. node_handled C config msg w'))"
  using assms
proof (cases rule: pool_phase.handleBatch_cases)
  case (incomplete w1)
  then show ?thesis by (auto simp: keeps_client_def consumes_def)
next
  case (complete w1 e w2)
  have commit: "node_commit records w1 = (e, w')" using complete(3,5) by simp
  have "consumes C config w1 w'" using commit_consumes [OF complete(2) [simplified]] by (simp add: commit)
  then have "\<forall>msg \<in> set records. node_handled C config msg w'"
    using complete(2) node_handled_stable by fastforce
  moreover have "cn_polls w' = cn_polls w1 \<and> (e \<noteq> None \<and> cn_offsets w' = cn_offsets w1 \<or> cn_offsets w' = commit_offsets records (cn_offsets w1))"
    using commit by (auto simp: node_commit_def committing_def split: list.splits reply.splits)
  ultimately show ?thesis using complete(1,4) \<open>consumes C config w1 w'\<close> by (auto simp: keeps_client_def consumes_def)
qed

text \<open>Of a delivered record that is not delivered again: it is dealt with, or it came beside a fetch error.\<close>

abbreviation (input) nothing_passed_over ::
  "('c) codec_scheme \<Rightarrow> consumer_config \<Rightarrow> (krecord list \<times> goerr list) list \<Rightarrow> 'z consumer_node_scheme \<Rightarrow> bool" where
  "nothing_passed_over C config polls w \<equiv> \<forall>(records, errs) \<in> set polls. \<forall>msg \<in> set records.
     offset_of msg < cn_offsets w (partition_of msg) \<longrightarrow> node_handled C config msg w \<or> errs \<noteq> []"

lemma loop_step:
  fixes w :: "'z consumer_node_scheme"
  assumes "node_poll w = ((records, errs), w1)"
  shows "Consumer_Run sched t host_runtime C (node_consumer P C fan ends config) ctx w =
     (if canceled_by w1 (h_clock w1) then Some (Some (None, w1))
      else if errs \<noteq> [] \<or> records = [] then
        Consumer_Run sched (Suc t) host_runtime C (node_consumer P C fan ends config) ctx w1
      else (case handleBatch (sched t) host_runtime C (node_consumer P C fan ends config) ctx records w1 of
              None \<Rightarrow> Some None
            | Some (Some err, w2) \<Rightarrow> Some (Some (Some err, w2))
            | Some (None, w2) \<Rightarrow>
                Consumer_Run sched (Suc t) host_runtime C (node_consumer P C fan ends config) ctx w2))"
  by (subst Consumer_Run.simps) (simp add: assms)

lemma loop_resumes:
  fixes w :: "'z consumer_node_scheme"
  assumes "0 < sint (cc_Workers config)" and "h_cancel_at w = Some c" and "in_order (cn_offsets w) (concat (map fst (cn_polls w)))"
    and "Consumer_Run sched t host_runtime C (node_consumer P C fan ends config) ctx w = Some (Some (r, w'))"
  shows "nothing_passed_over C config (cn_polls w) w'"
  using assms(2-)
proof (induction "length (cn_polls w)" arbitrary: w t rule: less_induct)
  case less
  let ?c = "node_consumer P C fan ends config"
  show ?case
  proof (cases "cn_polls w")
    case (Cons p ps)
    obtain records errs where p: "p = (records, errs)" by fastforce
    let ?w1 = "w\<lparr>cn_polls := ps\<rparr>" and ?later = "concat (map fst ps)"
    have poll: "node_poll w = ((records, errs), ?w1)" using Cons p by (simp add: node_poll_def)
    have order: "in_order (cn_offsets w) (records @ ?later)" using less.prems(2) Cons p by simp
    have unmoved: ?thesis if "cn_offsets w' = cn_offsets w"
      using in_order_ahead [OF less.prems(2)] that by fastforce
    have later: "nothing_passed_over C config ps w' \<and> consumes C config w2 w'"
      if run: "Consumer_Run sched (Suc t) host_runtime C ?c ctx w2 = Some (Some (r, w'))"
        and w2: "cn_polls w2 = ps" "h_cancel_at w2 = h_cancel_at w" and off: "in_order (cn_offsets w2) ?later" for w2
      using less.hyps [OF _ _ _ run] w2 off less.prems(1) Cons shop_worker.Consumer_Run_goes [OF run] by simp
    note run = less.prems(3) [unfolded loop_step [OF poll]]
    show ?thesis
    proof (cases "canceled_by ?w1 (h_clock ?w1)")
      case True
      then show ?thesis using run by (intro unmoved) auto
    next
      case live: False
      show ?thesis
      proof (cases "errs \<noteq> [] \<or> records = []")
        case True
        then have "nothing_passed_over C config ps w'"
          using later [of ?w1] run live in_order_rest [OF order] by simp
        then show ?thesis using True by (auto simp: Cons p)
      next
        case False
        then have b: "(case handleBatch (sched t) host_runtime C ?c ctx records ?w1 of None \<Rightarrow> Some None
            | Some (Some err, w2) \<Rightarrow> Some (Some (Some err, w2))
            | Some (None, w2) \<Rightarrow> Consumer_Run sched (Suc t) host_runtime C ?c ctx w2) = Some (Some (r, w'))"
          using run live by simp
        then obtain e w2 where h: "handleBatch (sched t) host_runtime C ?c ctx records ?w1 = Some (e, w2)"
          by (auto split: option.splits)
        have frame: "cn_polls w2 = ps" "h_cancel_at w2 = h_cancel_at w" using batch_offsets [OF h] by simp_all
        show ?thesis
        proof (cases e)
          case None
          then have off: "cn_offsets w2 = commit_offsets records (cn_offsets w)" and all: "\<forall>msg \<in> set records. node_handled C config msg w2"
            using batch_offsets [OF h] by auto
          have rest: "nothing_passed_over C config ps w' \<and> consumes C config w2 w'"
            using later [of w2] b h None frame in_order_committed [OF order] off by simp
          have "node_handled C config msg w'" if "msg \<in> set records" for msg
            using bspec [OF all that] conjunct2 [OF rest] by (rule node_handled_stable)
          then show ?thesis using rest by (simp add: Cons p)
        next
          case (Some err)
          then have w': "w' = w2" using b h by simp
          show ?thesis
            using batch_offsets [OF h] in_order_ahead [OF in_order_committed [OF order]] unmoved unfolding w' Cons p by fastforce
        qed
      qed
    qed
  next
    case Nil
    then show ?thesis by simp
  qed
qed

text \<open>
  C20. Once its context is to end, the consumer's loop returns: after finitely many polls, whatever they
  deliver and whatever fails, and without the pool's panic. From a consistent start, every record whose
  batch it has committed by then is dealt with, the schema holds, and no order was decided twice. As Kafka's
  commits are cumulative, a record can also be passed over by the commit of a later one: where the polls
  deliver each partition in order from the committed offset on, every delivered record below the offset at
  which the group resumes is dealt with, unless its poll also reported a fetch error.
\<close>
theorem Consumer_Run_returns:
  fixes w :: "'z consumer_node_scheme"
  assumes "0 < sint (cc_Workers config)" and "h_cancel_at w = Some c" and "consumer_ok C config w"
    and "in_order (cn_offsets w) (concat (map fst (cn_polls w)))"
  shows "\<exists>r w'. Consumer_Run sched t host_runtime C (node_consumer P C fan ends config) ctx w = Some (Some (r, w'))
    \<and> db_ok (sv_db w') \<and> (\<forall>msg \<in> set (cn_committed w'). node_handled C config msg w')
    \<and> decided_once (sv_db w) (sv_db w')
    \<and> (\<forall>(records, errs) \<in> set (cn_polls w). \<forall>msg \<in> set records.
         offset_of msg < cn_offsets w' (partition_of msg) \<longrightarrow> node_handled C config msg w' \<or> errs \<noteq> [])"
proof -
  obtain r w' where run: "Consumer_Run sched t host_runtime C (node_consumer P C fan ends config) ctx w = Some (Some (r, w'))"
    using loop_returns [OF assms(1,2)] by blast
  have "consumes C config w w'" by (rule shop_worker.Consumer_Run_goes [OF run])
  then show ?thesis
    using run assms(3) loop_resumes [OF assms(1,2,4) run] unfolding consumes_def consumer_ok_def by blast
qed

text \<open>Two polls of one partition: the first brings record 0, the second the records 1 and 2.\<close>

definition next_msg :: krecord where
  "next_msg = foreign_msg\<lparr>rec_Offset := 1\<rparr>"

lemma sample_in_order: "in_order (\<lambda>tp. 0) [created_msg, next_msg, created_msg\<lparr>rec_Offset := 2\<rparr>]"
  by (simp add: in_order_def offset_of_def partition_of_def next_msg_def foreign_msg_def created_msg_def)

theorem Consumer_Run_returns_witness:
  "\<exists>r w'. Consumer_Run (\<lambda>t u. u) 0 host_runtime C0 (node_consumer sample_pg C0 (\<lambda>t. t) (\<lambda>ctx w. None) worker_config) background
      ((worker_node worker_db [Lost ctx_canceled] [([created_msg], []), ([], []), ([next_msg, created_msg\<lparr>rec_Offset := 2\<rparr>], [])])
        \<lparr>h_cancel_at := Some 9000000\<rparr>) = Some (Some (r, w'))
    \<and> db_ok (sv_db w')"
proof -
  let ?w = "(worker_node worker_db [Lost ctx_canceled] [([created_msg], []), ([], []), ([next_msg, created_msg\<lparr>rec_Offset := 2\<rparr>], [])])
        \<lparr>h_cancel_at := Some 9000000\<rparr>"
  have "consumer_ok C0 worker_config ?w" by (simp add: consumer_ok_def worker_db_ok)
  moreover have "cn_offsets ?w = (\<lambda>tp. 0)" by (rule ext) simp
  ultimately show ?thesis
    using Consumer_Run_returns [OF worker_workers, of ?w 9000000] sample_in_order by fastforce
qed

section \<open>A record that is passed over\<close>





end
