(* ===== verification/Commands.thy ===== *)
theory Commands
  imports Platform Order_Http Outbox_Publisher Consumer_Node
begin

text \<open>
  The three programs under cmd/: how they read their settings, which settings they refuse, what they open
  and close, and how they put the components together. The client libraries are arguments. So is what happens
  while the goroutines of a program run: it gets the components the program has built and answers with the
  events that \<open>shutdown.Wait\<close> or the select of \<open>ListenAndServe\<close> sees.
\<close>

section \<open>Settings\<close>

record publisher_settings =
  ps_common :: common
  ps_Workers :: int64
  ps_BatchSize :: int64
  ps_Poll :: duration
  ps_Lease :: duration

text \<open>\<open>time.Duration((batchSize+workers-1)/workers)\<close>: the rounds of a batch over the workers.\<close>

definition rounds :: "int64 \<Rightarrow> int64 \<Rightarrow> int64" where
  "rounds batchSize workers = quot64 (batchSize + workers - 1) workers"

definition minimumLease :: "int64 \<Rightarrow> int64 \<Rightarrow> duration" where
  "minimumLease batchSize workers = rounds batchSize workers * (PublishTimeout + DatabaseTimeout) + 5 * second"

definition publisher_settings_of ::
  "('c) golib_scheme \<Rightarrow> (string \<Rightarrow> duration result) \<Rightarrow> getenv \<Rightarrow> publisher_settings result" where
  "publisher_settings_of L parse getenv =
     (case LoadCommon getenv ''wb-orders-outbox-publisher'' '':8081'' of Inl e \<Rightarrow> Inl e | Inr cfg \<Rightarrow>
     (case config_Int getenv ''OUTBOX_WORKERS'' 4 of Inl e \<Rightarrow> Inl e | Inr workers \<Rightarrow>
     (case config_Int getenv ''OUTBOX_BATCH_SIZE'' 50 of Inl e \<Rightarrow> Inl e | Inr batchSize \<Rightarrow>
     (case config_Duration L parse getenv ''OUTBOX_POLL_INTERVAL'' second of Inl e \<Rightarrow> Inl e | Inr poll \<Rightarrow>
     (case config_Duration L parse getenv ''OUTBOX_LEASE_DURATION'' (4 * minute) of Inl e \<Rightarrow> Inl e | Inr lease \<Rightarrow>
        if sint lease < sint (minimumLease batchSize workers) then
          Inl (errorf [Lit ''OUTBOX_LEASE_DURATION must be at least '', DurText (minimumLease batchSize workers),
            Lit '' for the configured batch and worker count''])
        else Inr \<lparr>ps_common = cfg, ps_Workers = workers, ps_BatchSize = batchSize, ps_Poll = poll, ps_Lease = lease\<rparr>)))))"

definition publisher_config_of :: "getenv \<Rightarrow> string \<Rightarrow> publisher_settings \<Rightarrow> publisher_config" where
  "publisher_config_of getenv owner s = \<lparr>pc_Owner = owner,
     pc_OrderCreatedTopic = config_String getenv ''KAFKA_ORDERS_CREATED_TOPIC'' ''wb.orders.created'',
     pc_OrderStatusChangedTopic = config_String getenv ''KAFKA_STATUS_CHANGED_TOPIC'' ''wb.orders.status-changed'',
     pc_Workers = ps_Workers s, pc_BatchSize = ps_BatchSize s, pc_PollInterval = ps_Poll s, pc_LeaseDuration = ps_Lease s\<rparr>"

text \<open>The worker's settings come as its consumer's configuration beside the common part.\<close>

definition worker_settings_of ::
  "('c) golib_scheme \<Rightarrow> (string \<Rightarrow> duration result) \<Rightarrow> getenv \<Rightarrow> (common \<times> consumer_config) result" where
  "worker_settings_of L parse getenv =
     (case LoadCommon getenv ''wb-orders-worker'' '':8082'' of Inl e \<Rightarrow> Inl e | Inr cfg \<Rightarrow>
     (case config_Int getenv ''ORDER_WORKERS'' 8 of Inl e \<Rightarrow> Inl e | Inr workers \<Rightarrow>
     (case config_Int getenv ''KAFKA_BATCH_SIZE'' (workers * 2) of Inl e \<Rightarrow> Inl e | Inr batchSize \<Rightarrow>
     (case config_Int getenv ''KAFKA_MAX_RETRIES'' 5 of Inl e \<Rightarrow> Inl e | Inr maxRetries \<Rightarrow>
     (case config_Duration L parse getenv ''ORDER_PROCESSING_TIMEOUT'' (30 * second) of Inl e \<Rightarrow> Inl e | Inr processingTimeout \<Rightarrow>
     (case config_Duration L parse getenv ''KAFKA_RETRY_BASE_BACKOFF'' second of Inl e \<Rightarrow> Inl e | Inr baseBackoff \<Rightarrow>
     (case config_Duration L parse getenv ''KAFKA_RETRY_MAX_BACKOFF'' minute of Inl e \<Rightarrow> Inl e | Inr maxBackoff \<Rightarrow>
        Inr (cfg, \<lparr>cc_ConsumerName = config_String getenv ''CONSUMER_NAME'' ''wb-orders-worker-v1'',
           cc_RetryTopic = config_String getenv ''KAFKA_ORDERS_RETRY_TOPIC'' ''wb.orders.created.retry'',
           cc_DLQTopic = config_String getenv ''KAFKA_ORDERS_DLQ_TOPIC'' ''wb.orders.created.dlq'',
           cc_Workers = workers, cc_BatchSize = batchSize, cc_MaxRetries = maxRetries,
           cc_BaseBackoff = baseBackoff, cc_MaxBackoff = maxBackoff, cc_Timeout = processingTimeout\<rparr>))))))))"

definition rebalanceTimeout :: duration where "rebalanceTimeout = 5 * minute"

definition worstCaseBatch :: "consumer_config \<Rightarrow> duration" where
  "worstCaseBatch c = rounds (cc_BatchSize c) (cc_Workers c) * (cc_MaxBackoff c + cc_Timeout c + 15 * second)"

section \<open>The programs\<close>

text \<open>
  A \<open>kgo.Client\<close> has both interfaces. The result \<open>None\<close> of a program means that it is still waiting for its
  goroutines; \<open>Some\<close> holds the result of \<open>run\<close>, after the deferred calls in reverse order.
\<close>

type_synonym 'w kgo_client = "'w kafka_client \<times> 'w consumer_client"

definition order_service_run ::
  "'w runtime \<Rightarrow> ('c) http_codec_scheme \<Rightarrow> ('k, 'p, 'w) pgxpool \<Rightarrow> ('p \<Rightarrow> 'w store) \<Rightarrow> (nat \<times> 'r, 'w) handler \<Rightarrow> getenv \<Rightarrow>
     (server_config \<Rightarrow> ('r, 'w) handler \<Rightarrow> 'w \<Rightarrow> (goerr option \<times> (ctx \<Rightarrow> goerr option)) \<times> 'w) \<Rightarrow> 'w \<Rightarrow> goerr option \<times> 'w" where
  "order_service_run R C X store_of prom getenv serve w =
     (case LoadCommon getenv ''wb-orders-api'' '':8080'' of
        Inl e \<Rightarrow> (Some e, w)
      | Inr cfg \<Rightarrow>
     (case database_Open X background (DatabaseURL cfg) w of
        (Inl e, w1) \<Rightarrow> (Some e, w1)
      | (Inr pool, w1) \<Rightarrow>
     (let operational = health_Handler (px_Ping X pool) prom;
          handler = Routes R C (store_of pool) operational
      in case serve (order_server (HealthAddr cfg)) handler w1 of
        ((failed, shutdown), w2) \<Rightarrow> (ListenAndServe failed shutdown (15 * second), px_Close X pool w2))))"

definition outbox_publisher_run ::
  "('c) codec_scheme \<Rightarrow> (string \<Rightarrow> duration result) \<Rightarrow> ('k, 'p, 'w) pgxpool \<Rightarrow> ('p \<Rightarrow> 'w outbox_repository) \<Rightarrow>
     (kgo_option list \<Rightarrow> 'w kgo_client result) \<Rightarrow> ('r, 'w) handler \<Rightarrow> string \<Rightarrow> uuid \<Rightarrow> getenv \<Rightarrow>
     ('w publisher \<Rightarrow> server_config \<Rightarrow> ('r, 'w) handler \<Rightarrow> 'w \<Rightarrow> wait_event list \<times> 'w) \<Rightarrow> 'w \<Rightarrow> (goerr option \<times> 'w) option" where
  "outbox_publisher_run C parse X repository_of new_client prom hostname u getenv serve w =
     (case publisher_settings_of C parse getenv of
        Inl e \<Rightarrow> Some (Some e, w)
      | Inr s \<Rightarrow>
     (case database_Open X background (DatabaseURL (ps_common s)) w of
        (Inl e, w1) \<Rightarrow> Some (Some e, w1)
      | (Inr pool, w1) \<Rightarrow>
     (case NewProducer new_client (KafkaBrokers (ps_common s)) (ServiceName (ps_common s)) of
        Inl e \<Rightarrow> Some (Some e, px_Close X pool w1)
      | Inr (producer, group_client) \<Rightarrow>
     (let owner = hostname @ ''-'' @ lib_uuid_string C u;
          publisher = NewPublisher (repository_of pool) (Publish C producer) (publisher_config_of getenv owner s);
          ready = health_Handler (ready_both (px_Ping X pool) (Producer_Ping producer)) prom
      in case serve publisher (health_server (HealthAddr (ps_common s))) ready w1 of
        (events, w2) \<Rightarrow>
          (case Wait (15 * second) events of
             None \<Rightarrow> None
           | Some res \<Rightarrow> Some (res, px_Close X pool (Producer_Close producer w2)))))))"

definition order_worker_run ::
  "('c) golib_scheme \<Rightarrow> (string \<Rightarrow> duration result) \<Rightarrow> ('k, 'p, 'w) pgxpool \<Rightarrow> ('p \<Rightarrow> 'w consumer_repository) \<Rightarrow>
     (kgo_option list \<Rightarrow> 'w kgo_client result) \<Rightarrow> 'w order_processor \<Rightarrow> ('r, 'w) handler \<Rightarrow> getenv \<Rightarrow>
     ('w consumer \<Rightarrow> server_config \<Rightarrow> ('r, 'w) handler \<Rightarrow> 'w \<Rightarrow> wait_event list \<times> 'w) \<Rightarrow> 'w \<Rightarrow> (goerr option \<times> 'w) option" where
  "order_worker_run L parse X repository_of new_client processor prom getenv serve w =
     (case worker_settings_of L parse getenv of
        Inl e \<Rightarrow> Some (Some e, w)
      | Inr (cfg, c) \<Rightarrow>
     (case database_Open X background (DatabaseURL cfg) w of
        (Inl e, w1) \<Rightarrow> Some (Some e, w1)
      | (Inr pool, w1) \<Rightarrow>
     (if \<not> sint (worstCaseBatch c) < sint rebalanceTimeout then
        Some (Some (errorf [Lit ''Kafka batch worst-case duration '', DurText (worstCaseBatch c),
           Lit '' must be below rebalance timeout '', DurText rebalanceTimeout]), px_Close X pool w1)
      else
     (case NewConsumer new_client (KafkaBrokers cfg) (ServiceName cfg)
             (config_String getenv ''KAFKA_CONSUMER_GROUP'' ''wb-orders-worker-v1'')
             [config_String getenv ''KAFKA_ORDERS_CREATED_TOPIC'' ''wb.orders.created'', cc_RetryTopic c] rebalanceTimeout of
        Inl e \<Rightarrow> Some (Some e, px_Close X pool w1)
      | Inr (consumer_base, consumerClient) \<Rightarrow>
     (case NewProducer new_client (KafkaBrokers cfg) (ServiceName cfg @ ''-retry-producer'') of
        Inl e \<Rightarrow> Some (Some e, px_Close X pool (kc_Close consumer_base w1))
      | Inr (producer, group_client) \<Rightarrow>
     (let worker = NewConsumerOf consumerClient (repository_of pool) (PublishRecord producer) processor c;
          ready = health_Handler (ready_both (px_Ping X pool) (Producer_Ping producer)) prom
      in case serve worker (health_server (HealthAddr cfg)) ready w1 of
        (events, w2) \<Rightarrow>
          (case Wait (15 * second) events of
             None \<Rightarrow> None
           | Some res \<Rightarrow>
               Some (res, px_Close X pool (kc_Close consumer_base (Producer_Close producer w2))))))))))"

text \<open>\<open>main\<close> of all three: the exit code.\<close>

definition exit_code :: "goerr option \<Rightarrow> nat" where
  "exit_code failure = (case failure of None \<Rightarrow> 0 | Some err \<Rightarrow> 1)"

section \<open>Lemmas\<close>

lemma config_Int_pos: "config_Int getenv name fallback = Inr v \<Longrightarrow> 0 < sint v"
  by (auto simp: config_Int_def split: option.splits if_splits)

lemma config_Duration_pos: "config_Duration L parse getenv name fallback = Inr v \<Longrightarrow> 0 < sint v"
  by (auto simp: config_Duration_def split: sum.splits if_splits)

lemma publisher_settings_Inr:
  assumes "publisher_settings_of L parse getenv = Inr s"
  shows "0 < sint (ps_Workers s) \<and> 0 < sint (ps_BatchSize s) \<and> 0 < sint (ps_Poll s) \<and> 0 < sint (ps_Lease s)
    \<and> sint (minimumLease (ps_BatchSize s) (ps_Workers s)) \<le> sint (ps_Lease s)"
  using assms
  by (auto simp: publisher_settings_of_def not_less dest: config_Int_pos config_Duration_pos split: sum.splits if_splits)

lemma worker_settings_Inr:
  assumes "worker_settings_of L parse getenv = Inr (cfg, c)"
  shows "0 < sint (cc_Workers c) \<and> 0 < sint (cc_BatchSize c) \<and> 0 < sint (cc_MaxRetries c) \<and> 0 < sint (cc_BaseBackoff c)
    \<and> 0 < sint (cc_MaxBackoff c) \<and> 0 < sint (cc_Timeout c)"
  using assms
  by (auto simp: worker_settings_of_def dest: config_Int_pos config_Duration_pos split: sum.splits)

lemma rounds_exact:
  assumes "0 < sint b" and "0 < sint w" and "sint b + sint w < 2 ^ 63"
  shows "sint (rounds b w) = (sint b + sint w - 1) div sint w"
proof -
  have "sint (b + w) = sint b + sint w" using assms by (intro sint_add64) simp_all
  then have "sint (b + w - 1) = sint b + sint w - 1"
    using assms sint_diff64 [of "b + w" 1] by simp
  then show ?thesis
    unfolding rounds_def using assms by (subst sint_quot64) simp_all
qed

lemma fifteen_seconds: "sint (PublishTimeout + DatabaseTimeout) = 15 * 10 ^ 9"
  by (simp add: PublishTimeout_def DatabaseTimeout_def second_def)

lemma minimumLease_exact:
  assumes "0 < sint b" and "0 < sint w" and "sint b \<le> 10 ^ 8" and "sint w \<le> 10 ^ 8"
  shows "sint (minimumLease b w) = (sint b + sint w - 1) div sint w * (15 * 10 ^ 9) + 5 * 10 ^ 9"
proof -
  let ?r = "(sint b + sint w - 1) div sint w"
  have "sint b + sint w - 1 = (sint b - 1) + 1 * sint w" by simp
  then have "?r = (sint b - 1) div sint w + 1"
    using assms(2) by (metis add.commute div_mult_self1 less_numeral_extra(3))
  moreover have "(sint b - 1) div sint w \<le> sint b - 1" "0 \<le> (sint b - 1) div sint w"
    using assms(1,2) zdiv_mono2 [of "sint b - 1" 1 "sint w"] by (simp_all add: pos_imp_zdiv_nonneg_iff)
  ultimately have r: "0 \<le> ?r" "?r \<le> 10 ^ 8" using assms(3) by simp_all
  have rr: "sint (rounds b w) = ?r" using assms by (intro rounds_exact) simp_all
  have "sint (rounds b w * (PublishTimeout + DatabaseTimeout)) = ?r * (15 * 10 ^ 9)"
    using r by (subst sint_mult64) (simp_all add: rr fifteen_seconds)
  moreover have "sint (5 * second) = 5 * 10 ^ 9" by (simp add: second_def)
  ultimately show ?thesis
    unfolding minimumLease_def using r by (subst sint_add64) simp_all
qed

text \<open>Durations are read back as they are printed.\<close>

definition duration_laws :: "('c) golib_scheme \<Rightarrow> (string \<Rightarrow> duration result) \<Rightarrow> bool" where
  "duration_laws L parse \<longleftrightarrow> (\<forall>d. parse (lib_duration L d) = Inr d)"

lemma config_Int_default: "trim_space (getenv name) = '''' \<Longrightarrow> 0 < sint fallback \<Longrightarrow> config_Int getenv name fallback = Inr fallback"
  by (simp add: config_Int_def env_unset)

lemma config_Duration_default:
  "duration_laws L parse \<Longrightarrow> trim_space (getenv name) = '''' \<Longrightarrow> 0 < sint fallback \<Longrightarrow>
     config_Duration L parse getenv name fallback = Inr fallback"
  by (simp add: config_Duration_def env_unset duration_laws_def)

text \<open>For sizes up to a hundred million the accepted lease is what the guard means to ask for.\<close>

lemma accepted_lease:
  assumes "publisher_settings_of L parse getenv = Inr s"
    and "sint (ps_BatchSize s) \<le> 10 ^ 8" and "sint (ps_Workers s) \<le> 10 ^ 8"
  shows "0 < sint (ps_Workers s) \<and> 0 < sint (ps_BatchSize s)
    \<and> (sint (ps_BatchSize s) + sint (ps_Workers s) - 1) div sint (ps_Workers s) * (15 * 10 ^ 9) + 5 * 10 ^ 9 \<le> sint (ps_Lease s)"
  using publisher_settings_Inr [OF assms(1)] assms(2,3) minimumLease_exact [of "ps_BatchSize s" "ps_Workers s"] by simp

section \<open>What the API counts\<close>

text \<open>The route label of a request: the pattern that serves it in the two muxes of the API, or unmatched.\<close>

definition served_route :: "request \<Rightarrow> string" where
  "served_route rq =
     (let get = rq_Method rq \<in> {''GET'', ''HEAD''}; path = rq_Segments rq in
      if rq_Method rq = ''POST'' \<and> path = [''api'', ''v1'', ''orders''] then ''POST /api/v1/orders''
      else if get \<and> take 3 path = [''api'', ''v1'', ''orders''] \<and> length path = 4 \<and> path ! 3 \<notin> {'''', ''/''} then ''GET /api/v1/orders/{id}''
      else if get \<and> path = [''health''] then ''GET /health''
      else if get \<and> path = [''ready''] then ''GET /ready''
      else if get \<and> path = [''metrics''] then ''GET /metrics''
      else ''unmatched'')"

text \<open>A handler that adds no metric of its own and leaves the request's pattern alone.\<close>

definition uncounted :: "('r, 'z host_scheme) handler \<Rightarrow> bool" where
  "uncounted h \<longleftrightarrow> (\<forall>W rq r w rq' r' w'. h W rq r w = (rq', r', w') \<longrightarrow>
     h_metrics w' = h_metrics w \<and> rq_Pattern rq' = rq_Pattern rq)"

lemma query_counts_nothing: "query stmt (w :: 'z host_scheme) = (x, w') \<Longrightarrow> h_metrics w' = h_metrics w"
  by (rule query_frame) simp_all

lemma Get_order_metrics: "Get_order P oid (w :: 'z host_scheme) = (x, w') \<Longrightarrow> h_metrics w' = h_metrics w"
  by (auto simp: Get_order_def dest!: query_counts_nothing split: prod.splits sum.splits if_splits)

lemma uncounted_create: "uncounted (HTTPHandler_create host_runtime C (postgres_store P C))"
  unfolding uncounted_def HTTPHandler_create_def
  by (auto dest: Service_Create_host split: sum.splits prod.splits if_splits)

lemma uncounted_get: "uncounted (HTTPHandler_get C (postgres_store P C))"
  unfolding uncounted_def HTTPHandler_get_def Service_Get_def
  by (auto simp: postgres_store_def dest: Get_order_metrics split: sum.splits prod.splits if_splits)

lemma answers_once_health: "answers_once prom \<Longrightarrow> answers_once (health_Handler ready prom)"
proof -
  assume "answers_once prom"
  moreover have "answers_once health_live" "answers_once (health_ready ready)"
    by (auto simp: answers_once_def health_live_def health_ready_def writeJSON_sent split: prod.splits option.splits)
  ultimately show ?thesis unfolding health_Handler_def by (intro answers_once_mux) simp
qed

lemma segments_order:
  "segments_match [Exactly a, Exactly b, Exactly c] xs \<longleftrightarrow> xs = [a, b, c]"
  "segments_match [Exactly a, Exactly b, Exactly c, Wildcard] xs \<longleftrightarrow> take 3 xs = [a, b, c] \<and> length xs = 4 \<and> xs ! 3 \<notin> {'''', ''/''}"
  by (cases xs; cases "tl xs"; cases "tl (tl xs)"; cases "tl (tl (tl xs))"; cases "tl (tl (tl (tl xs)))"; auto)+

lemma mux_rest:
  assumes "served_route rq \<notin> {''POST /api/v1/orders'', ''GET /api/v1/orders/{id}''}"
  shows "mux_serve (order_routes R C st operational) W rq r w = operational W (rq\<lparr>rq_Pattern := ''/'', rq_PathValue := ''''\<rparr>) r w"
  using assms
  by (auto simp: mux_serve_def order_routes_def segments_order method_matches_def served_route_def Let_def split: if_splits)

lemma served_rest:
  assumes "served_route rq \<notin> {''POST /api/v1/orders'', ''GET /api/v1/orders/{id}''}"
  shows "served_route rq = (if rq_Method rq \<in> {''GET'', ''HEAD''} then
      if rq_Segments rq = [''health''] then ''GET /health'' else if rq_Segments rq = [''ready''] then ''GET /ready''
      else if rq_Segments rq = [''metrics''] then ''GET /metrics'' else ''unmatched'' else ''unmatched'')"
proof -
  have "x \<notin> {p, q} \<Longrightarrow> x = (if a then p else if b then q else if g \<and> c then h else if g \<and> d then i else if g \<and> e then j else u) \<Longrightarrow>
      x = (if g then if c then h else if d then i else if e then j else u else u)" for x p q h i j u :: string and a b g c d e
    by (simp split: if_splits)
  from this [OF assms served_route_def [unfolded Let_def]] show ?thesis .
qed

lemma mux_label:
  fixes w :: "'z host_scheme"
  assumes "uncounted prom" and ready: "\<And>ctx u. h_metrics (snd (ready ctx u)) = h_metrics u"
    and run: "mux_serve (order_routes host_runtime C (postgres_store P C) (health_Handler ready prom)) W rq r w = (rq', r', w')"
  shows "h_metrics w' = h_metrics w \<and> (if rq_Pattern rq' = '''' then ''unmatched'' else rq_Pattern rq') = served_route rq"
proof -
  consider (create) "rq_Method rq = ''POST''" "rq_Segments rq = [''api'', ''v1'', ''orders'']"
    | (get) oid where "rq_Method rq \<in> {''GET'', ''HEAD''}" "rq_Segments rq = [''api'', ''v1'', ''orders'', oid]" "oid \<notin> {'''', ''/''}"
    | (rest) "served_route rq \<notin> {''POST /api/v1/orders'', ''GET /api/v1/orders/{id}''}"
    unfolding served_route_def Let_def
    by (cases "rq_Segments rq"; cases "tl (rq_Segments rq)"; cases "tl (tl (rq_Segments rq))";
        cases "tl (tl (tl (rq_Segments rq)))"; cases "tl (tl (tl (tl (rq_Segments rq))))"; fastforce split: if_splits)
  then show ?thesis
  proof cases
    case create
    show ?thesis
      using run uncounted_create [of C P] create unfolding mux_create [OF create] uncounted_def by (fastforce simp: served_route_def)
  next
    case (get oid)
    show ?thesis
      using run uncounted_get [of C P] get unfolding mux_get [OF get] uncounted_def by (fastforce simp: served_route_def)
  next
    case rest
    let ?rq = "rq\<lparr>rq_Pattern := ''/'', rq_PathValue := ''''\<rparr>"
    note run = run [unfolded mux_rest [OF rest] health_dispatch]
    consider (found) "method_matches ''GET'' (rq_Method rq)" "rq_Segments rq \<in> {[''health''], [''ready''], [''metrics'']}"
      | (missing) "\<not> (method_matches ''GET'' (rq_Method rq) \<and> rq_Segments rq \<in> {[''health''], [''ready''], [''metrics'']})" by blast
    then show ?thesis
    proof cases
      case missing
      have "w' = w \<and> rq_Pattern rq' = ''''"
      proof (cases "rq_Segments rq \<in> {[''health''], [''ready''], [''metrics'']}")
        case True
        then have "\<not> method_matches ''GET'' (rq_Method rq)" using missing by simp
        then show ?thesis using run True by auto
      next
        case False
        then show ?thesis using run by auto
      qed
      moreover have "served_route rq = ''unmatched''"
        unfolding served_rest [OF rest] using missing by (auto simp: method_matches_def)
      ultimately show ?thesis by simp
    next
      case found
      have get: "rq_Method rq \<in> {''GET'', ''HEAD''}" using found(1) by (auto simp: method_matches_def)
      from found(2) consider (live) "rq_Segments rq = [''health'']" | (asks) "rq_Segments rq = [''ready'']"
        | (metrics) "rq_Segments rq = [''metrics'']" by blast
      then show ?thesis
      proof cases
        case live
        then show ?thesis using run found(1) get by (auto simp: health_live_def endpoint_def served_route_def)
      next
        case asks
        then have "rq_Pattern rq' = ''GET /ready'' \<and> h_metrics w' = h_metrics w"
          using run found(1) ready [of "with_timeout (rq_Context rq) (2 * second)" w]
          by (auto simp: health_ready_def endpoint_def split: prod.splits option.splits)
        then show ?thesis using asks get by (auto simp: served_route_def)
      next
        case metrics
        then have "prom W (rq\<lparr>rq_Pattern := ''GET /metrics'', rq_PathValue := ''''\<rparr>) r w = (rq', r', w')"
          using run found(1) by simp
        then have "rq_Pattern rq' = ''GET /metrics'' \<and> h_metrics w' = h_metrics w"
          using assms(1) unfolding uncounted_def by (metis (no_types) request.select_convs(6) request.surjective request.update_convs(6,7))
        then show ?thesis using metrics get by (auto simp: served_route_def)
      qed
    qed
  qed
qed

section \<open>Properties\<close>

text \<open>
  C33. The metrics count what clients were told: each request to the API adds exactly one count and one
  duration, under its method, the route that served it (or unmatched) and the status on the wire, whatever
  PostgreSQL replies. The Prometheus handler is taken to answer once and to count nothing itself, and the
  readiness check to count nothing.
\<close>
theorem requests_are_counted_as_answered:
  fixes w :: "'z host_scheme"
  assumes "answers_once prom" and "uncounted prom" and "\<And>ctx u. h_metrics (snd (ready ctx u)) = h_metrics (u :: 'z host_scheme)"
    and "Routes host_runtime C (postgres_store P C) (health_Handler ready prom) net_writer rq response_start w = (rq', r, w')"
  shows "\<exists>status. sent_status r = Some status \<and> h_metrics w' = h_metrics w
    @ [HTTPRequests (rq_Method rq) (served_route rq) (nat_digits status), HTTPRequestDuration (rq_Method rq) (served_route rq)]"
proof -
  obtain rid w1 where rid: "request_id host_runtime C rq w = (rid, w1)" by fastforce
  let ?rq = "rq\<lparr>rq_Context := WithRequestID (rq_Context rq) rid\<rparr>"
  let ?r0 = "response_start\<lparr>rs_Header := [(''X-Request-Id'', rid)]\<rparr>"
  let ?h = "mux_serve (order_routes host_runtime C (postgres_store P C) (health_Handler ready prom))"
  obtain rq1 status r1 w2 where m: "?h (statusWriter net_writer) ?rq (0, ?r0)
      (snd (rt_now host_runtime (snd (rt_now host_runtime w1)))) = (rq1, (status, r1), w2)"
    by (metis surj_pair)
  have "answers_once ?h"
    by (rule answers_once_mux) (simp add: order_routes_def answers_once_create answers_once_get answers_once_health assms(1))
  then have sent: "sent_status r1 = Some status \<and> status \<noteq> 0"
    using m unfolding answers_once_def by (metis response.select_convs(2) response.update_convs(1) response_start_def)
  have same: "served_route ?rq = served_route rq" by (simp add: served_route_def)
  have "h_metrics w1 = h_metrics w" using request_id_host [OF rid] by auto
  then have "h_metrics w2 = h_metrics w \<and> (if rq_Pattern rq1 = '''' then ''unmatched'' else rq_Pattern rq1) = served_route rq"
    using mux_label [OF assms(2,3) m] same by simp
  then show ?thesis
    using Routes_run [OF m rid] assms(4) sent by (auto simp: Let_def)
qed

definition plain_prom :: "('r, 'w) handler" where
  "plain_prom W rq r w = (rq, writeJSON W 200 (Some ''metrics'') r, w)"

theorem requests_are_counted_as_answered_witness:
  "\<exists>rq' r w' status. Routes host_runtime sample_http (postgres_store sample_pg sample_http) (health_Handler (\<lambda>ctx w. (None, w)) plain_prom)
      net_writer get_ready response_start (sample_host empty_db []) = (rq', r, w')
    \<and> sent_status r = Some status
    \<and> h_metrics w' = [HTTPRequests ''GET'' ''GET /ready'' (nat_digits status), HTTPRequestDuration ''GET'' ''GET /ready'']"
proof -
  obtain rq' r w' where run: "Routes host_runtime sample_http (postgres_store sample_pg sample_http)
      (health_Handler (\<lambda>ctx w. (None, w)) plain_prom) net_writer get_ready response_start (sample_host empty_db []) = (rq', r, w')"
    by (metis surj_pair)
  have prom: "answers_once plain_prom" "uncounted plain_prom"
    by (auto simp: answers_once_def uncounted_def plain_prom_def writeJSON_sent)
  have "served_route get_ready = ''GET /ready''" "rq_Method get_ready = ''GET''" "h_metrics (sample_host empty_db []) = []"
    by (simp_all add: served_route_def get_ready_def sample_host_def)
  then show ?thesis
    using requests_are_counted_as_answered [OF prom _ run] run by fastforce
qed

definition sample_parse :: "string \<Rightarrow> duration result" where
  "sample_parse s = (case atoi s of Some d \<Rightarrow> Inr d | None \<Rightarrow> Inl (errorf [Lit ''invalid duration'']))"

lemma sample_duration_laws: "duration_laws C0 sample_parse"
  by (simp add: duration_laws_def sample_parse_def sample_codec_def)

definition url_only :: getenv where
  "url_only name = (if name = ''DATABASE_URL'' then ''postgres:'' else '''')"

lemma default_brokers: "splitNonEmpty ''localhost:29092'' = [''localhost:29092'']"
  by (simp add: splitNonEmpty_def ascii_simps)

lemma LoadCommon_url_only: "LoadCommon url_only service addr = Inr \<lparr>ServiceName = service, DatabaseURL = ''postgres:'',
    KafkaBrokers = [''localhost:29092''], LogLevel = ''info'', HealthAddr = addr\<rparr>"
  by (simp add: LoadCommon_def Let_def env_def url_only_def default_brokers)

lemma default_settings_lease: "sint (minimumLease 50 4) = 200 * 10 ^ 9"
  by (subst minimumLease_exact) simp_all

lemma four_minutes: "sint (4 * minute) = 240 * 10 ^ 9"
  by (simp add: minute_def second_def)

lemma publisher_defaults:
  assumes "duration_laws L parse"
  shows "\<exists>s. publisher_settings_of L parse url_only = Inr s \<and> ps_Workers s = 4 \<and> ps_BatchSize s = 50 \<and> sint (ps_Lease s) = 240 * 10 ^ 9"
proof -
  have unset: "trim_space (url_only name) = ''''" if "name \<noteq> ''DATABASE_URL''" for name
    using that by (simp add: url_only_def)
  show ?thesis
    by (simp add: publisher_settings_of_def LoadCommon_url_only config_Int_default config_Duration_default [OF assms] unset
        default_settings_lease four_minutes)
qed

text \<open>
  The lease guard multiplies in int64 without a check: with one worker and a batch of a billion events
  the minimum lease wraps to a negative duration, and a lease of four minutes is accepted for a batch that
  may take centuries.
\<close>
theorem lease_guard_wraps:
  assumes "duration_laws L parse"
  defines "getenv \<equiv> (\<lambda>name. if name = ''OUTBOX_WORKERS'' then ''1'' else if name = ''OUTBOX_BATCH_SIZE'' then ''1000000000'' else url_only name)"
  shows "\<exists>s. publisher_settings_of L parse getenv = Inr s \<and> sint (ps_Lease s) = 240 * 10 ^ 9
    \<and> sint (minimumLease (ps_BatchSize s) (ps_Workers s)) < 0
    \<and> sint (ps_Lease s) < sint (ps_BatchSize s) div sint (ps_Workers s) * sint (PublishTimeout + DatabaseTimeout)"
proof -
  have trims: "trim_space ''1'' = ''1''" "trim_space ''1000000000'' = ''1000000000''" by (simp_all add: ascii_simps)
  have w: "config_Int getenv ''OUTBOX_WORKERS'' 4 = Inr 1"
    by (simp add: config_Int_def env_def getenv_def trims atoi_def is_digit_def digits_value_def)
  have b: "config_Int getenv ''OUTBOX_BATCH_SIZE'' 50 = Inr 1000000000"
    by (simp add: config_Int_def env_def getenv_def trims atoi_def is_digit_def digits_value_def)
  have c: "\<exists>cfg. LoadCommon getenv service addr = Inr cfg" for service addr
    by (simp add: LoadCommon_def Let_def env_def getenv_def url_only_def default_brokers)
  have unset: "trim_space (getenv name) = ''''" if "name \<in> {''OUTBOX_POLL_INTERVAL'', ''OUTBOX_LEASE_DURATION''}" for name
    using that by (auto simp: getenv_def url_only_def)
  have "sint (rounds 1000000000 1) = 1000000000" by (subst rounds_exact) simp_all
  then have "rounds 1000000000 1 = 1000000000" using sint_inject [of "rounds 1000000000 1" 1000000000] by simp
  then have neg: "sint (minimumLease 1000000000 1) < 0"
    by (simp add: minimumLease_def PublishTimeout_def DatabaseTimeout_def second_def)
  obtain cfg where "LoadCommon getenv ''wb-orders-outbox-publisher'' '':8081'' = Inr cfg" using c by blast
  then have "publisher_settings_of L parse getenv = Inr \<lparr>ps_common = cfg, ps_Workers = 1, ps_BatchSize = 1000000000,
      ps_Poll = second, ps_Lease = 4 * minute\<rparr>"
    using neg by (simp add: publisher_settings_of_def w b config_Duration_default [OF assms(1)] unset four_minutes)
  then show ?thesis using neg by (simp add: fifteen_seconds four_minutes)
qed

theorem lease_guard_wraps_witness:
  "\<exists>s. publisher_settings_of C0 sample_parse (\<lambda>name. if name = ''OUTBOX_WORKERS'' then ''1''
     else if name = ''OUTBOX_BATCH_SIZE'' then ''1000000000'' else url_only name) = Inr s
   \<and> sint (minimumLease (ps_BatchSize s) (ps_Workers s)) < 0"
  using lease_guard_wraps [OF sample_duration_laws] by blast

text \<open>What a pool's operations do to the number of open pools.\<close>

definition pool_counted :: "('k, 'p, 'w) pgxpool \<Rightarrow> ('w \<Rightarrow> int) \<Rightarrow> bool" where
  "pool_counted X opened \<longleftrightarrow>
     (\<forall>k s w p w'. px_NewWithConfig X k s w = (Inr p, w') \<longrightarrow> opened w' = opened w + 1)
     \<and> (\<forall>k s w e w'. px_NewWithConfig X k s w = (Inl e, w') \<longrightarrow> opened w' = opened w)
     \<and> (\<forall>p ctx w. opened (snd (px_Ping X p ctx w)) = opened w) \<and> (\<forall>p w. opened (px_Close X p w) = opened w - 1)"

lemma database_Open_counts:
  assumes "pool_counted X opened" and "database_Open X ctx url w = (r, w')"
  shows "opened w' = (case r of Inl e \<Rightarrow> opened w | Inr p \<Rightarrow> opened w + 1)"
proof (cases "px_ParseConfig X url")
  case (Inr config)
  obtain x w1 where n: "px_NewWithConfig X config pool_settings w = (x, w1)" by fastforce
  show ?thesis
  proof (cases x)
    case (Inl e)
    then show ?thesis using assms Inr n by (auto simp: database_Open_def pool_counted_def)
  next
    case Inr': (Inr p)
    obtain y w2 where g: "px_Ping X p (with_timeout ctx (5 * second)) w1 = (y, w2)" by fastforce
    then have "opened w2 = opened w1" using assms(1) unfolding pool_counted_def by (metis snd_conv)
    moreover have "opened w1 = opened w + 1" using assms(1) n Inr' unfolding pool_counted_def by blast
    ultimately show ?thesis
      using assms Inr n Inr' g by (auto simp: database_Open_def pool_counted_def split: option.splits)
  qed
qed (use assms in \<open>auto simp: database_Open_def\<close>)

lemma NewProducer_client: "NewProducer new_client brokers name = Inr k \<Longrightarrow> \<exists>opts. new_client opts = Inr k"
  by (auto simp: NewProducer_def split: sum.splits)

lemma NewConsumer_client: "NewConsumer new_client brokers name grp ts rebalance = Inr k \<Longrightarrow> \<exists>opts. new_client opts = Inr k"
  by (auto simp: NewConsumer_def split: sum.splits)

text \<open>
  C40. Each program closes the pool it opened, on every path: refused settings, a database that does not
  answer, a guard that fails, a Kafka client that cannot be made, and any end of what it serves.
\<close>
theorem programs_close_their_pool:
  assumes "pool_counted X opened" and client: "\<And>opts k g w. new_client opts = Inr (k, g) \<Longrightarrow> opened (kc_Close k w) = opened w"
    and api: "\<And>cfg h w. opened (snd (serve_api cfg h w)) = opened w"
    and publisher: "\<And>p cfg h w. opened (snd (serve_publisher p cfg h w)) = opened w"
    and worker: "\<And>c cfg h w. opened (snd (serve_worker c cfg h w)) = opened w"
  shows "opened (snd (order_service_run R C' X store_of prom getenv serve_api w)) = opened w
    \<and> (outbox_publisher_run C parse X outbox_of new_client prom' hostname u getenv serve_publisher w = Some (r1, w1) \<longrightarrow> opened w1 = opened w)
    \<and> (order_worker_run C parse X consumer_of new_client processor prom' getenv serve_worker w = Some (r2, w2) \<longrightarrow> opened w2 = opened w)"
proof (intro conjI impI)
  have close: "opened (px_Close X p w) = opened w - 1" for p w
    using assms(1) by (simp add: pool_counted_def)
  note opens = database_Open_counts [OF assms(1) prod.collapse [symmetric]]
  have served: "opened w' = opened w" if "serve_publisher p cfg h w = (ev, w')" for p cfg h w ev w'
    using publisher [of p cfg h w] that by simp
  have worked: "opened w' = opened w" if "serve_worker c cfg h w = (ev, w')" for c cfg h w ev w'
    using worker [of c cfg h w] that by simp
  have opened: "opened w' = (case x of Inl e \<Rightarrow> opened w | Inr p \<Rightarrow> opened w + 1)" if "database_Open X ctx url w = (x, w')" for ctx url w x w'
    using opens [of ctx url w] that by simp
  show "opened (snd (order_service_run R C' X store_of prom getenv serve_api w)) = opened w"
    by (auto simp: order_service_run_def case_prod_unfold Let_def close opens api split: sum.split)
  show "opened w1 = opened w"
    if "outbox_publisher_run C parse X outbox_of new_client prom' hostname u getenv serve_publisher w = Some (r1, w1)"
    using that by (auto simp: outbox_publisher_run_def Let_def close Producer_Close_def client dest!: opened served NewProducer_client
        split: sum.splits prod.splits option.splits)
  show "opened w2 = opened w"
    if "order_worker_run C parse X consumer_of new_client processor prom' getenv serve_worker w = Some (r2, w2)"
    using that by (auto simp: order_worker_run_def Let_def close Producer_Close_def client dest!: opened worked NewProducer_client NewConsumer_client
        split: sum.splits prod.splits option.splits if_splits)
qed

text \<open>A worker's machine that counts its open pools.\<close>

record program = consumer_node +
  open_pools :: int

definition counting_pool :: "(unit, unit, 'z program_scheme) pgxpool" where
  "counting_pool = \<lparr>px_ParseConfig = (\<lambda>url. Inr ()), px_NewWithConfig = (\<lambda>k s w. (Inr (), w\<lparr>open_pools := open_pools w + 1\<rparr>)),
     px_Ping = (\<lambda>p ctx w. (None, w)), px_Close = (\<lambda>p w. w\<lparr>open_pools := open_pools w - 1\<rparr>)\<rparr>"

definition sample_program :: program where
  "sample_program = consumer_node.extend (worker_node empty_db [] []) \<lparr>open_pools = 3\<rparr>"

lemma counting_pool_counted: "pool_counted counting_pool open_pools"
  by (simp add: pool_counted_def counting_pool_def)

lemma worker_defaults:
  assumes "duration_laws L parse"
  shows "\<exists>cfg c. worker_settings_of L parse url_only = Inr (cfg, c) \<and> sint (worstCaseBatch c) < sint rebalanceTimeout
    \<and> DatabaseURL cfg = ''postgres:'' \<and> HealthAddr cfg = '':8082''"
proof -
  have unset: "trim_space (url_only name) = ''''" if "name \<noteq> ''DATABASE_URL''" for name
    using that by (simp add: url_only_def)
  have "sint (rounds 16 8) = 2" by (subst rounds_exact) simp_all
  then have "rounds 16 8 = 2" using sint_inject [of "rounds 16 8" 2] by simp
  then show ?thesis
    by (simp add: worker_settings_of_def LoadCommon_url_only config_Int_default config_Duration_default [OF assms] unset
        worstCaseBatch_def rebalanceTimeout_def minute_def second_def)
qed

theorem programs_close_their_pool_witness:
  "open_pools (snd (order_service_run host_runtime sample_http counting_pool (\<lambda>p. postgres_store sample_pg C0) (\<lambda>W rq r w. (rq, r, w))
     url_only (\<lambda>cfg h w. ((None, \<lambda>ctx. Some ctx_canceled), w)) sample_program)) = 3"
proof -
  have "open_pools sample_program = 3" by (simp add: sample_program_def consumer_node.defs program.defs)
  then show ?thesis
    using programs_close_their_pool [OF counting_pool_counted, of "\<lambda>opts. Inl ctx_canceled"
        "\<lambda>cfg h w. ((None, \<lambda>ctx. Some ctx_canceled), w)" "\<lambda>p cfg h w. ([], w)" "\<lambda>c cfg h w. ([], w)"
        host_runtime sample_http "\<lambda>p. postgres_store sample_pg C0" "\<lambda>W rq r w. (rq, r, w)" url_only sample_program, THEN conjunct1]
    by simp
qed

text \<open>
  C27. The worker's exit code: once its settings are accepted and PostgreSQL and Kafka are there, the program
  runs the consumer over them beside the health server; when both have ended within fifteen seconds of the
  stop it closes producer, consumer client and pool and exits with 0 exactly when a signal asked for the stop
  or neither of the two failed.
\<close>
theorem worker_exit_code:
  fixes X :: "('k, 'p, 'z consumer_node_scheme) pgxpool"
  assumes "worker_settings_of C parse getenv = Inr (cfg, c)" and "sint (worstCaseBatch c) < sint rebalanceTimeout"
    and "database_Open X background (DatabaseURL cfg) w = (Inr p, w1)"
    and "serve (node_consumer P C fan ends c) (health_server (HealthAddr cfg))
           (health_Handler (ready_both (px_Ping X p) (Producer_Ping broker_client)) prom) w1 = (events, w2)"
    and "TimerFired \<notin> set events" and "2 \<le> length (results_of events)"
  shows "\<exists>res. order_worker_run C parse X (\<lambda>p. postgres_consumer P C) (\<lambda>opts. Inr (broker_client, node_client))
      (shop_processor fan ends) prom getenv serve w = Some (res, px_Close X p w2)
    \<and> (exit_code res = 0 \<longleftrightarrow> RootDone \<in> set (until_results 2 events) \<or> take 2 (results_of events) = [None, None])"
proof -
  obtain e1 e2 es where es: "results_of events = e1 # e2 # es"
    using assms(6) by (metis One_nat_def Suc_le_length_iff numeral_2_eq_2)
  have "Wait (15 * second) events = Some (if RootDone \<in> set (until_results 2 events) then None
      else first_failure (take 2 (results_of events)))"
    using assms(5,6) by (rule Wait_results)
  moreover have "first_failure (take 2 (results_of events)) = None \<longleftrightarrow> take 2 (results_of events) = [None, None]"
    by (cases e1; cases e2) (simp_all add: es first_failure_def)
  ultimately show ?thesis
    using assms(1-4)
    by (auto simp: order_worker_run_def NewConsumer_def NewProducer_def Producer_Close_def node_consumer_def Let_def exit_code_def
        split: option.split)
qed

theorem worker_exit_code_witness:
  "\<exists>res. order_worker_run C0 sample_parse counting_pool (\<lambda>p. postgres_consumer sample_pg C0) (\<lambda>opts. Inr (broker_client, node_client))
      (shop_processor (\<lambda>t. t) (\<lambda>ctx w. None)) (\<lambda>W rq r w. (rq, r, w)) url_only
      (\<lambda>c cfg h w. ([Result (Some ctx_canceled), Result None], w)) sample_program = Some (res, sample_program)
    \<and> exit_code res \<noteq> 0"
proof -
  obtain cfg c where c: "worker_settings_of C0 sample_parse url_only = Inr (cfg, c)"
    and guard: "sint (worstCaseBatch c) < sint rebalanceTimeout"
    using worker_defaults [OF sample_duration_laws] by blast
  have op: "database_Open counting_pool background (DatabaseURL cfg) sample_program
      = (Inr (), sample_program\<lparr>open_pools := open_pools sample_program + 1\<rparr>)"
    by (simp add: database_Open_def counting_pool_def)
  show ?thesis
    using worker_exit_code [OF c guard op, where serve = "\<lambda>c cfg h w. ([Result (Some ctx_canceled), Result None], w)"
        and P = sample_pg and fan = "\<lambda>t. t" and ends = "\<lambda>ctx w. None" and prom = "\<lambda>W rq r w. (rq, r, w)"]
    by (auto simp: counting_pool_def numeral_2_eq_2)
qed

end
