(* ===== verification/Record_Time.thy ===== *)
theory Record_Time
  imports Commands
begin

text \<open>
  How long a record can keep a worker busy, and what the guard of cmd/order-worker allows for it. The time is
  that of the machine's clock; a call is timely if it ends by the timeout of its context.
\<close>

section \<open>Programs and the clock\<close>

definition lasts :: "('z host_scheme, 'a) prog \<Rightarrow> int \<Rightarrow> bool" where
  "lasts p d \<longleftrightarrow> (\<forall>w. h_clock (snd (run p w)) \<le> h_clock w + d)"

lemma lasts_Ret: "0 \<le> d \<Longrightarrow> lasts (Ret a) d"
  by (simp add: lasts_def)

lemma lasts_call:
  assumes "\<And>w. h_clock (snd (g w)) \<le> h_clock w + d1" and "\<And>b. lasts (k b) d2"
  shows "lasts (call g k) (d1 + d2)"
  unfolding lasts_def
proof
  fix w
  obtain b w1 where g: "g w = (b, w1)" by fastforce
  have "h_clock w1 \<le> h_clock w + d1" using assms(1) [of w] g by simp
  moreover have "h_clock (snd (run (k b) w1)) \<le> h_clock w1 + d2" using assms(2) by (simp add: lasts_def)
  ultimately show "h_clock (snd (run (call g k) w)) \<le> h_clock w + (d1 + d2)" by (simp add: g)
qed

lemma lasts_still: "(\<And>w. h_clock (snd (g w)) = h_clock w) \<Longrightarrow> (\<And>b. lasts (k b) d) \<Longrightarrow> lasts (call g k) d"
  using lasts_call [of g 0 k d] by simp

lemma lasts_count: "lasts p d \<Longrightarrow> lasts (act (rt_count host_runtime m) p) d"
  unfolding lasts_def
proof
  fix w assume "\<forall>w. h_clock (snd (run p w)) \<le> h_clock w + d"
  from spec [OF this, of "w\<lparr>h_metrics := h_metrics w @ [m]\<rparr>"]
  show "h_clock (snd (run (act (rt_count host_runtime m) p) w)) \<le> h_clock w + d" by simp
qed

lemma lasts_mono: "lasts p d \<Longrightarrow> d \<le> d' \<Longrightarrow> lasts p d'"
  unfolding lasts_def by (meson add_left_mono order_trans)

section \<open>Timely surroundings\<close>

locale timely_consumer =
  fixes c :: "('z host_scheme) consumer"
  assumes check_time: "0 \<le> sint d \<Longrightarrow>
      h_clock (snd (cr_IsProcessed (c_repository c) (with_timeout ctx d) eid name w)) \<le> h_clock w + sint d"
    and complete_time: "0 \<le> sint d \<Longrightarrow>
      h_clock (snd (cr_Complete (c_repository c) (with_timeout ctx d) eid name oid status reason rid w)) \<le> h_clock w + sint d"
    and process_time: "0 \<le> sint d \<Longrightarrow> h_clock (snd (c_processor c (with_timeout ctx d) inp w)) \<le> h_clock w + sint d"
    and produce_time: "0 \<le> sint d \<Longrightarrow> h_clock (snd (c_producer c (with_timeout ctx d) rec w)) \<le> h_clock w + sint d"
begin

lemma route_time: "h_clock (snd (route C c ctx msg topic attempt reason notBefore w)) \<le> h_clock w + 10000000000"
proof -
  have "h_clock (snd (c_producer c (with_timeout ctx (10 * second)) rec w)) \<le> h_clock w + 10000000000" for rec
    using produce_time [of "10 * second"] by (simp add: second_def)
  from this [of "routed_record C msg topic attempt reason notBefore"] show ?thesis
    by (auto simp: route_def split: prod.split option.split)
qed

lemma counted_lasts: "lasts (count_when_nil host_runtime m e) 0"
  by (cases e) (simp_all add: count_when_nil_def lasts_count lasts_Ret)

lemma dlq_lasts: "lasts (dlq host_runtime C c ctx msg attempt reason) (10000000000)"
  unfolding dlq_def
  using lasts_call [OF route_time counted_lasts] by simp

lemma retry_lasts: "lasts (retry host_runtime C c ctx msg attempt cause) (10000000000)"
proof -
  have "lasts (call (route C c ctx msg topic a reason t) (count_when_nil host_runtime m)) 10000000000" for topic a reason t m
    using lasts_call [OF route_time counted_lasts] by simp
  then have "lasts (call (rt_now host_runtime) (\<lambda>t. call (route C c ctx msg topic a reason (f t)) (count_when_nil host_runtime m))) 10000000000"
    for topic a reason m f
    by (rule lasts_still [rotated]) simp
  then show ?thesis unfolding retry_def Let_def by (auto intro: dlq_lasts)
qed

lemma database_timeout: "sint databaseTimeout = 5000000000"
  by (simp add: databaseTimeout_def second_def)

lemma complete_lasts: "lasts (completeRecord host_runtime C c ctx msg attempt envelope res) (5000000000 + 10000000000)"
  unfolding completeRecord_def
proof (rule lasts_call)
  show "h_clock (snd (cr_Complete (c_repository c) (with_timeout ctx databaseTimeout) (EventID envelope) (cc_ConsumerName (c_config c))
      (AggregateID envelope) (pr_Status res) (pr_Reason res) (env_RequestID envelope) w)) \<le> h_clock w + 5000000000" for w
    using complete_time [of databaseTimeout] by (simp add: database_timeout)
qed (auto intro!: retry_lasts lasts_count lasts_Ret split: sum.split)

lemma payload_lasts:
  assumes "0 \<le> sint (cc_Timeout (c_config c))"
  shows "lasts (processPayload host_runtime C c ctx msg attempt envelope) (sint (cc_Timeout (c_config c)) + 15000000000)"
proof -
  have dlq: "lasts (dlq host_runtime C c ctx msg attempt reason) (sint (cc_Timeout (c_config c)) + 15000000000)" for reason
    by (rule lasts_mono [OF dlq_lasts]) (use assms in simp)
  have complete: "lasts (completeRecord host_runtime C c ctx msg attempt envelope res) (15000000000)" for res
    using complete_lasts by simp
  have retry: "lasts (retry host_runtime C c ctx msg attempt e) (15000000000)" for e
    by (rule lasts_mono [OF retry_lasts]) simp
  show ?thesis
    unfolding processPayload_def
    by (auto intro!: dlq complete retry lasts_count lasts_still lasts_Ret lasts_call [OF process_time [OF assms]]
        split: sum.split option.split)
qed

lemma due_lasts:
  assumes "0 \<le> sint (cc_Timeout (c_config c))"
  shows "lasts (processDue host_runtime C c ctx msg attempt) (sint (cc_Timeout (c_config c)) + 20000000000)"
proof -
  let ?T = "sint (cc_Timeout (c_config c))"
  have dlq: "lasts (dlq host_runtime C c ctx msg attempt reason) (?T + 20000000000)" for reason
    by (rule lasts_mono [OF dlq_lasts]) (use assms in simp)
  have check: "lasts (call (cr_IsProcessed (c_repository c) (with_timeout ctx databaseTimeout) eid name) k) (?T + 20000000000)"
    if "\<And>b. lasts (k b) (?T + 15000000000)" for eid name and k :: "_ \<Rightarrow> ('z host_scheme, goerr option) prog"
  proof -
    have "lasts (call (cr_IsProcessed (c_repository c) (with_timeout ctx databaseTimeout) eid name) k) (5000000000 + (?T + 15000000000))"
      using check_time [of databaseTimeout] that by (intro lasts_call) (simp_all add: database_timeout)
    then show ?thesis by (simp add: algebra_simps)
  qed
  have "lasts (retry host_runtime C c ctx msg attempt e) (?T + 15000000000)" for e
    by (rule lasts_mono [OF retry_lasts]) (use assms in simp)
  then show ?thesis
    unfolding processDue_def
    using dlq payload_lasts [OF assms] assms
    by (auto intro!: check lasts_count lasts_Ret split: sum.split option.split)
qed

lemma record_time:
  assumes "0 \<le> sint (cc_Timeout (c_config c))" and "0 \<le> sint (cc_MaxBackoff (c_config c))"
    and "sint (cc_MaxBackoff (c_config c)) \<le> 2 ^ 62"
  shows "lasts (processRecord host_runtime C c ctx msg)
    (sint (cc_MaxBackoff (c_config c)) + sint (cc_Timeout (c_config c)) + 25000000000)"
  unfolding lasts_def
proof
  fix w :: "'z host_scheme"
  let ?T = "sint (cc_Timeout (c_config c))" and ?M = "sint (cc_MaxBackoff (c_config c))"
  let ?due = "\<lambda>attempt waited. case waited of Some err \<Rightarrow> Ret (Some err) | None \<Rightarrow> processDue host_runtime C c ctx msg attempt"
  have limit: "sint (cc_MaxBackoff (c_config c) + 5 * second) = ?M + 5000000000"
  proof -
    have "sint (5 * second) = 5000000000" by (simp add: second_def)
    then show ?thesis using assms(2,3) sint_add64 [of "cc_MaxBackoff (c_config c)" "5 * second"] by simp
  qed
  have dlq: "h_clock (snd (run (dlq host_runtime C c ctx msg attempt reason) w)) \<le> h_clock w + (?M + ?T + 25000000000)" for attempt reason
    using dlq_lasts [of C ctx msg attempt reason] assms(1,2) unfolding lasts_def by (auto dest: spec [of _ w])
  have due: "h_clock (snd (run (?due attempt e) u)) \<le> h_clock u + (?T + 20000000000)" for attempt e u
    using due_lasts [OF assms(1), of C ctx msg attempt] assms(1) unfolding lasts_def by (cases e) auto
  have wait: "h_clock (snd (run (waitUntil host_runtime ctx target (?due attempt)) w)) \<le> h_clock w + (?M + ?T + 25000000000)"
    if t: "target \<le> h_clock w + (?M + 5000000000)" for target attempt
  proof (cases "time_is_zero target \<or> \<not> h_clock w < target")
    case True
    then show ?thesis using due [of attempt None w] assms(2) by (auto simp: waitUntil_def)
  next
    case False
    have u: "sint (time_until target (h_clock w)) = target - h_clock w"
      unfolding time_until_def using False t assms(3) by (subst sint_of_int64) auto
    obtain fired w1 where f: "host_timer (time_until target (h_clock w)) w = (fired, w1)" by fastforce
    have w1: "h_clock w1 \<le> h_clock w + (?M + 5000000000)"
      using f False t u assms(2) by (auto simp: host_timer_def Let_def canceled_by_def split: if_splits option.splits)
    have "\<exists>e. run (waitUntil host_runtime ctx target (?due attempt)) w = run (?due attempt e) w1"
      by (rule exI [of _ "if fired then None else rt_ctx_err host_runtime ctx w1"]) (use False in \<open>simp add: waitUntil_def f\<close>)
    then show ?thesis using due w1 by (smt (verit))
  qed
  show "h_clock (snd (run (processRecord host_runtime C c ctx msg) w)) \<le> h_clock w + (?M + ?T + 25000000000)"
    using dlq wait by (auto simp: processRecord_def time_add_def limit split: sum.split)
qed

end

interpretation shop_time: timely_consumer "node_consumer P C fan ends config" for P C fan ends config
proof (unfold_locales, goal_cases)
  case (1 d ctx eid name w)
  have "h_clock (snd (IsProcessed P eid name w)) = h_clock w"
    by (rule IsProcessed_frame [OF prod.collapse [symmetric]]; simp)
  then show ?case using 1 by simp
next
  case (2 d ctx eid name oid status reason rid w)
  have "h_clock (snd (Complete P host_runtime C eid name oid status reason rid w)) = h_clock w"
    by (rule Complete_frame [OF prod.collapse [symmetric]]; simp)
  then show ?case using 2 by simp
next
  case (3 d ctx inp w)
  then show ?case by (simp add: shop_processor_def)
next
  case (4 d ctx rec w)
  have "h_clock (snd (broker_produce rec w)) = h_clock w"
    by (auto simp: broker_produce_def split: list.split reply.split)
  then show ?case using 4 by (auto simp: PublishRecord_def split: prod.split option.split)
qed

section \<open>Surroundings that take all the time they have\<close>

definition spend :: "ctx \<Rightarrow> 'z host_scheme \<Rightarrow> 'z host_scheme" where
  "spend ctx w = w\<lparr>h_clock := h_clock w + max 0 (sint (hd (ctx_timeouts ctx)))\<rparr>"

definition slow_consumer :: "consumer_config \<Rightarrow> host consumer" where
  "slow_consumer config = NewConsumerOf
     \<lparr>cl_PollRecords = (\<lambda>ctx n w. (([], []), w)), cl_CommitRecords = (\<lambda>ctx recs w. (None, w)), cl_AllowRebalance = (\<lambda>w. w)\<rparr>
     \<lparr>cr_IsProcessed = (\<lambda>ctx eid name w. (Inr False, spend ctx w)),
      cr_Complete = (\<lambda>ctx eid name oid status reason rid w. (Inl ctx_canceled, spend ctx w))\<rparr>
     (\<lambda>ctx rec w. (None, spend ctx w))
     (\<lambda>ctx inp w. (Inr (shop_verdict 100 inp), spend ctx w)) config"

lemma spend_clock [simp]: "h_clock (spend (with_timeout ctx d) w) = h_clock w + max 0 (sint d)"
  by (simp add: spend_def with_timeout_def)

lemma slow_consumer_simps [simp]:
  "c_config (slow_consumer config) = config"
  "cr_IsProcessed (c_repository (slow_consumer config)) ctx eid name w = (Inr False, spend ctx w)"
  "cr_Complete (c_repository (slow_consumer config)) ctx eid name oid status reason rid w = (Inl ctx_canceled, spend ctx w)"
  "c_producer (slow_consumer config) ctx rec w = (None, spend ctx w)"
  "c_processor (slow_consumer config) ctx inp w = (Inr (shop_verdict 100 inp), spend ctx w)"
  by (simp_all add: slow_consumer_def NewConsumerOf_def)

interpretation slow: timely_consumer "slow_consumer config" for config
  by unfold_locales simp_all

section \<open>Properties\<close>

text \<open>
  C26. However slow PostgreSQL, Kafka and the business operations are, as long as each call ends by the
  timeout the consumer gives it, one record keeps a worker for at most its wait, the processing timeout and
  five timeouts more: the maximum back-off, the processing timeout and 25 seconds.
\<close>
theorem record_time_is_bounded:
  fixes c :: "('z host_scheme) consumer"
  assumes "timely_consumer c" and "0 \<le> sint (cc_Timeout (c_config c))" and "0 \<le> sint (cc_MaxBackoff (c_config c))"
    and "sint (cc_MaxBackoff (c_config c)) \<le> 2 ^ 62"
  shows "h_clock (snd (run (processRecord host_runtime C c ctx msg) w))
    \<le> h_clock w + sint (cc_MaxBackoff (c_config c)) + sint (cc_Timeout (c_config c)) + 25 * 10 ^ 9"
  using timely_consumer.record_time [OF assms, of C ctx msg] unfolding lasts_def by (simp add: algebra_simps)

theorem record_time_is_bounded_witness:
  "h_clock (snd (run (processRecord host_runtime C0 (slow_consumer worker_config) background created_msg) (sample_host empty_db [])))
    \<le> 4000000 + 115 * 10 ^ 9"
  using record_time_is_bounded [OF slow.timely_consumer_axioms, of worker_config C0 background created_msg "sample_host empty_db []"]
  by (simp add: worker_config_def second_def minute_def)

text \<open>A record that is due as late as the consumer accepts.\<close>

definition late_msg :: "nat \<Rightarrow> krecord" where
  "late_msg n = created_msg\<lparr>rec_Headers := rec_Headers created_msg @ [\<lparr>hdr_Key = ''not_before'', hdr_Value = nat_digits n\<rparr>]\<rparr>"

lemma late_msg_headers: "headerInt (late_msg n) ''attempt'' = Inr 1" "headerTime C0 (late_msg n) ''not_before'' = Inr (int n)"
  using nat_digits_spec [of n]
  by (simp_all add: headerInt_def headerTime_def header_of_def late_msg_def created_msg_def atoi_def is_digit_def digits_value_def sample_codec_def)

lemma late_msg_event: "order_event C0 (late_msg n) sample_envelope"
  using sample_event by (simp add: order_event_def late_msg_def)

definition tight_config :: consumer_config where
  "tight_config = worker_config\<lparr>cc_Workers := 1, cc_BatchSize := 1, cc_MaxBackoff := 50 * second, cc_Timeout := 230 * second\<rparr>"

lemma tight_config_simps:
  "cc_Workers tight_config = 1" "cc_BatchSize tight_config = 1" "sint (cc_MaxBackoff tight_config) = 50000000000"
  "sint (cc_Timeout tight_config) = 230000000000" "sint (cc_MaxRetries tight_config) = 3"
  "sint (cc_MaxBackoff tight_config + 5 * second) = 55000000000"
  by (simp_all add: tight_config_def worker_config_def second_def)

lemma sample_payload_valid: "CreatedPayload_Validate (created_payload_of sample_order) = None"
  using validate_sample by (simp add: CreatedPayload_Validate_def created_payload_of_def sample_order_def sample_command_def)

lemma tight_run:
  "h_clock (snd (run (processRecord host_runtime C0 (slow_consumer tight_config) background (late_msg 55004000000)) (sample_host empty_db [])))
    = 4000000 + 305000000000"
proof -
  let ?c = "slow_consumer tight_config" and ?w = "sample_host empty_db []"
  have u: "sint (time_until 55004000000 4000000) = 55000000000"
    unfolding time_until_def by (subst sint_of_int64) simp_all
  obtain w1 where w1: "host_timer (time_until 55004000000 4000000) ?w = (True, w1)" "h_clock w1 = 55004000000"
    by (simp add: host_timer_def Let_def u canceled_by_def sample_host_def)
  have db: "sint databaseTimeout = 5000000000" "sint (10 * second) = 10000000000" "sint ((1 :: int64) + 1) = 2"
    by (simp_all add: databaseTimeout_def second_def)
  have ok: "Envelope_Validate sample_envelope = None" "EventType sample_envelope = OrderCreated" "unmarshal_envelope C0 s = Inr sample_envelope"
    "unmarshal_created C0 s = Inr (created_payload_of sample_order)" "rec_Key (late_msg n) = lib_uuid_string C0 (AggregateID sample_envelope)"
    for s n
    using sample_envelope_ok late_msg_event [of n] by (simp_all add: order_event_def)
  have retry: "h_clock (snd (run (retry host_runtime C0 ?c background msg 1 cause) w)) = h_clock w + 10000000000" for msg cause w
    by (simp add: retry_def Let_def route_def count_when_nil_def tight_config_simps db)
  have "run (processRecord host_runtime C0 ?c background (late_msg 55004000000)) ?w
      = run (processDue host_runtime C0 ?c background (late_msg 55004000000) 1) w1"
    by (simp add: processRecord_def late_msg_headers tight_config_simps time_add_def waitUntil_def time_is_zero_def w1)
  moreover have "h_clock (snd (run (processDue host_runtime C0 ?c background (late_msg n) 1) w)) = h_clock w + 250000000000" for n w
    by (simp add: processDue_def ok processPayload_def sample_payload_valid completeRecord_def retry tight_config_simps db)
  ultimately show ?thesis using w1 by simp
qed

text \<open>
  The guard of cmd/order-worker allows ten seconds too little: it accepts one worker with batches of one,
  a maximum back-off of 50 s and a processing timeout of 230 s, because it reckons with 295 s, less than the
  rebalance timeout of 300 s. With surroundings that keep every timeout a record can take 305 s.
\<close>
theorem guard_allows_ten_seconds_too_little:
  "sint (worstCaseBatch tight_config) < sint rebalanceTimeout \<and> timely_consumer (slow_consumer tight_config)
   \<and> (\<exists>msg. h_clock (snd (run (processRecord host_runtime C0 (slow_consumer tight_config) background msg) (sample_host empty_db [])))
        > h_clock (sample_host empty_db []) + sint rebalanceTimeout)"
proof -
  have "sint (rounds 1 1) = 1" by (subst rounds_exact) simp_all
  then have r: "rounds 1 1 = 1" using sint_inject [of "rounds 1 1" 1] by simp
  have "sint (worstCaseBatch tight_config) = 295000000000"
    by (simp add: worstCaseBatch_def tight_config_simps r) (simp add: tight_config_def second_def)
  moreover have "sint rebalanceTimeout = 300000000000"
    by (simp add: rebalanceTimeout_def minute_def second_def)
  ultimately show ?thesis
    using tight_run slow.timely_consumer_axioms by (auto intro!: exI [of _ "late_msg 55004000000"])
qed

end
