(* ===== verification/Orders_System.thy ===== *)
theory Orders_System
  imports Record_Time
begin

text \<open>
  The three programs on one database. The abstract machine is a ledger: each order's status, and the events
  announced about orders, oldest first. Every operation that any of the programs runs against PostgreSQL,
  whatever fails on the way, is one step of the ledger; what holds of the ledger's runs therefore holds of
  every interleaving of the programs' transactions.
\<close>

section \<open>The ledger\<close>

record ledger =
  lg_status :: "uuid \<Rightarrow> status option"
  lg_events :: "(string \<times> uuid) list"

inductive ledger_step :: "ledger \<Rightarrow> ledger \<Rightarrow> bool" where
  idle: "ledger_step l l"
| placed: "lg_status l i = None \<Longrightarrow>
    ledger_step l \<lparr>lg_status = (lg_status l)(i \<mapsto> StatusPending), lg_events = lg_events l @ [(OrderCreated, i)]\<rparr>"
| decided: "lg_status l i = Some StatusPending \<Longrightarrow> st \<in> {StatusConfirmed, StatusFailed} \<Longrightarrow>
    ledger_step l \<lparr>lg_status = (lg_status l)(i \<mapsto> st), lg_events = lg_events l @ [(OrderStatusChanged, i)]\<rparr>"

inductive_cases ledger_step_elim: "ledger_step l l'"

text \<open>The events of an order are what its status requires.\<close>

definition announced :: "status option \<Rightarrow> string list" where
  "announced st = (case st of None \<Rightarrow> []
     | Some s \<Rightarrow> if s = StatusPending then [OrderCreated] else [OrderCreated, OrderStatusChanged])"

definition events_about :: "uuid \<Rightarrow> (string \<times> uuid) list \<Rightarrow> string list" where
  "events_about i events = map fst (filter (\<lambda>(ty, j). j = i) events)"

definition ledger_ok :: "ledger \<Rightarrow> bool" where
  "ledger_ok l \<longleftrightarrow> (\<forall>i. events_about i (lg_events l) = announced (lg_status l i)
     \<and> lg_status l i \<in> {None, Some StatusPending, Some StatusConfirmed, Some StatusFailed})"

lemma events_about_append [simp]:
  "events_about i (events @ [(ty, j)]) = events_about i events @ (if j = i then [ty] else [])"
  by (simp add: events_about_def)

lemma ledger_step_ok: "ledger_step l l' \<Longrightarrow> ledger_ok l \<Longrightarrow> ledger_ok l'"
  by (erule ledger_step_elim) (auto simp: ledger_ok_def announced_def status_differ status_differ [symmetric] split: if_splits)

lemma ledger_step_final:
  "ledger_step l l' \<Longrightarrow> lg_status l i = Some st \<Longrightarrow> st \<noteq> StatusPending \<Longrightarrow> lg_status l' i = Some st"
  by (erule ledger_step_elim) auto

section \<open>What the programs do to the database\<close>

text \<open>
  One transaction of one program, or anything outside the database. The outbox operations are those of the
  publisher: new rows only come from the other two programs.
\<close>

definition publisher_op :: "outbox_op \<Rightarrow> bool" where
  "publisher_op op \<longleftrightarrow> op_owner op \<noteq> None"

inductive shop_step :: "pg \<Rightarrow> ('c) codec_scheme \<Rightarrow> 'z host_scheme \<Rightarrow> 'z host_scheme \<Rightarrow> bool"
  for P C where
  api_creates: "Service_Create host_runtime C (postgres_store P C) ctx command w = (x, w') \<Longrightarrow> shop_step P C w w'"
| api_reads: "Service_Get (postgres_store P C) ctx i w = (x, w') \<Longrightarrow> shop_step P C w w'"
| worker_checks: "IsProcessed P eid name w = (b, w') \<Longrightarrow> shop_step P C w w'"
| worker_completes: "st \<in> {StatusConfirmed, StatusFailed} \<Longrightarrow>
    Complete P host_runtime C eid name i st reason rid w = (b, w') \<Longrightarrow> shop_step P C w w'"
| publisher_updates: "publisher_op op \<Longrightarrow> shop_step P C w (run_op P op w)"
| publisher_counts: "PendingCount w = (n, w') \<Longrightarrow> shop_step P C w w'"
| outside: "sv_db w' = sv_db w \<Longrightarrow> shop_step P C w w'"

definition shop_run :: "pg \<Rightarrow> ('c) codec_scheme \<Rightarrow> 'z host_scheme \<Rightarrow> 'z host_scheme \<Rightarrow> bool" where
  "shop_run P C = (shop_step P C)\<^sup>*\<^sup>*"

text \<open>The refinement mapping.\<close>

definition event_key :: "outbox_row \<Rightarrow> string \<times> uuid" where
  "event_key r = (ob_event_type r, ob_aggregate_id r)"

definition ledger_of :: "db \<Rightarrow> ledger" where
  "ledger_of d = \<lparr>lg_status = status_of d, lg_events = map event_key (outbox_events d)\<rparr>"

section \<open>One lemma for each kind of step\<close>

lemma ledger_of_cong: "orders d' = orders d \<Longrightarrow> outbox_events d' = outbox_events d \<Longrightarrow> ledger_of d' = ledger_of d"
  by (simp add: ledger_of_def status_of_def fun_eq_iff)

lemma creation_step:
  assumes "creation P C ctx command now d created d'"
  shows "ledger_step (ledger_of d) (ledger_of d') \<and> (db_ok d \<longrightarrow> db_ok d')"
proof -
  obtain env t where eff: "create_effect P C now created env d d'" and ord: "New_order t (order_ID created) command = Inr created"
    and env: "EventType env = OrderCreated" "AggregateID env = order_ID created"
    using assms unfolding creation_def by blast
  obtain json where d': "d' = created_db P now created env json d" and new: "order_ID created \<notin> set (map o_id (orders d))"
    and ok: "db_ok d \<longrightarrow> db_ok d'"
    using eff unfolding create_effect_def by blast
  have "order_Status created = StatusPending"
    using ord by (auto simp: New_order_def split: sum.splits) (metis order.select_convs(4))
  moreover have none: "find (\<lambda>r. o_id r = order_ID created) (orders d) = None"
    using new by (simp add: find_order_None)
  ultimately have "ledger_of d' = \<lparr>lg_status = (lg_status (ledger_of d))(order_ID created \<mapsto> StatusPending),
      lg_events = lg_events (ledger_of d) @ [(OrderCreated, order_ID created)]\<rparr>"
    by (auto simp: ledger_of_def d' created_db_def status_of_def find_append fun_eq_iff event_key_def fresh_outbox_row_def env
        order_row_of_def split: option.split)
  moreover have "lg_status (ledger_of d) (order_ID created) = None" by (simp add: ledger_of_def status_of_def none)
  ultimately show ?thesis using ok placed [of "ledger_of d" "order_ID created"] by simp
qed

lemma completion_step:
  assumes "completion P C now eid name i st reason rid d b d'" and "st \<in> {StatusConfirmed, StatusFailed}"
  shows "ledger_step (ledger_of d) (ledger_of d')"
  using assms(1)
proof cases
  case duplicate
  then show ?thesis by (simp add: idle)
next
  case (stale previous)
  then have "ledger_of d' = ledger_of d" by (intro ledger_of_cong) (simp_all add: with_processed_def)
  then show ?thesis by (simp add: idle)
next
  case (completed env payload json)
  have "ledger_of d' = \<lparr>lg_status = (lg_status (ledger_of d))(i \<mapsto> st),
      lg_events = lg_events (ledger_of d) @ [(OrderStatusChanged, i)]\<rparr>"
    using completion_status [OF assms(1)] completed
    by (auto simp: ledger_of_def fun_eq_iff with_event_def with_status_def with_processed_def event_key_def fresh_outbox_row_def)
  then show ?thesis using decided [of "ledger_of d" i st] completed assms(2) by (simp add: ledger_of_def)
qed

text \<open>
  The publisher writes only to the outbox, and never to the parts of a row that say what the event is; so it
  keeps everything that depends on nothing else.
\<close>

definition blind :: "(db \<Rightarrow> 'a) \<Rightarrow> bool" where
  "blind f \<longleftrightarrow> (\<forall>d events. map event_key events = map event_key (outbox_events d) \<longrightarrow> f (d\<lparr>outbox_events := events\<rparr>) = f d)"

lemma blind_ledger_of: "blind ledger_of"
  by (simp add: blind_def ledger_of_def status_of_def fun_eq_iff)

lemma update_outbox_blind:
  "update_outbox P cond upd d = Inr (n, d') \<Longrightarrow> (\<And>r. event_key (upd r) = event_key r) \<Longrightarrow> blind f \<Longrightarrow> f d' = f d"
  by (auto simp: update_outbox_Inr blind_def comp_def if_distrib cong: if_cong)

lemma event_key_upd [simp]:
  "event_key (claim_row owner u r) = event_key r" "event_key (published_row now r) = event_key r"
  "event_key (released_row m t r) = event_key r" "event_key (failed_row m r) = event_key r"
  by (simp_all add: event_key_def claim_row_def published_row_def released_row_def failed_row_def)

lemma exec_owned_blind:
  assumes "updates_owned P i owner upd stmt" and "\<And>r. event_key (upd r) = event_key r" and "blind f"
  shows "f (sv_db (snd (exec_owned what stmt s))) = f (sv_db s)"
proof -
  obtain res s' where e: "exec_owned what stmt s = (res, s')" by fastforce
  show ?thesis
  proof (cases rule: exec_owned_cases [OF e])
    case (1 n)
    then have "update_outbox P (owned i owner) upd (sv_db s) = Inr (n, sv_db s')"
      using assms(1) unfolding updates_owned_def by blast
    then show ?thesis using update_outbox_blind [OF _ assms(2,3)] e by simp
  qed (simp add: e)
qed

lemma publisher_blind: "publisher_op op \<Longrightarrow> blind f \<Longrightarrow> f (sv_db (run_op P op s)) = f (sv_db s)"
proof (cases op)
  case (OpClaim owner limit lease)
  assume blind: "blind f"
  obtain res s' where c: "Claim P owner limit lease s = (res, s')" by fastforce
  show ?thesis
  proof (cases rule: Claim_db [OF c])
    case (1 rows)
    have "f (sv_db s') = f (sv_db s)"
      using update_outbox_blind [OF conjunct1 [OF claim_stmt_Inr [OF 1(1)]] _ blind] by simp
    then show ?thesis by (simp add: run_op_def OpClaim c)
  qed (simp add: run_op_def OpClaim c)
next
  case (OpPublished i owner)
  assume "blind f"
  then show ?thesis
    using exec_owned_blind [OF updates_owned_intros(1)] by (simp add: run_op_def OpPublished MarkPublished_def)
next
  case (OpRelease i owner message t)
  assume "blind f"
  then show ?thesis
    using exec_owned_blind [OF updates_owned_intros(2)] by (simp add: run_op_def OpRelease Release_def)
next
  case (OpFailed i owner message)
  assume "blind f"
  then show ?thesis
    using exec_owned_blind [OF updates_owned_intros(3)] by (simp add: run_op_def OpFailed MarkFailed_def)
qed (simp_all add: publisher_op_def op_owner_def)

lemma query_reads:
  "query stmt s = (r, s') \<Longrightarrow> (\<And>d a d'. stmt d = Inr (a, d') \<Longrightarrow> d' = d) \<Longrightarrow> sv_db s' = sv_db s"
  by (erule query_cases) auto

lemma Get_order_db:
  assumes "Get_order P i s = (r, s')"
  shows "sv_db s' = sv_db s"
proof -
  obtain x1 s1 where 1: "query (select_order i) s = (x1, s1)" by fastforce
  obtain x2 s2 where 2: "query (select_items P i) s1 = (x2, s2)" by fastforce
  obtain x3 s3 where 3: "query (\<lambda>d. Inr ((), d)) s2 = (x3, s3)" by fastforce
  have "sv_db s1 = sv_db s" by (rule query_reads [OF 1]) (auto simp: select_order_def split: option.splits)
  moreover have "sv_db s2 = sv_db s1" by (rule query_reads [OF 2]) (auto simp: select_items_def)
  moreover have "sv_db s3 = sv_db s2" by (rule query_reads [OF 3]) auto
  ultimately show ?thesis using assms by (auto simp: Get_order_def 1 2 3 split: sum.splits if_splits)
qed

lemma shop_step_ledger:
  assumes "shop_step P C w w'" and "db_ok (sv_db w)"
  shows "ledger_step (ledger_of (sv_db w)) (ledger_of (sv_db w')) \<and> db_ok (sv_db w')"
  using assms(1)
proof cases
  case (api_creates ctx command x)
  have "sv_db w' = sv_db w \<or> (\<exists>created. creation P C ctx command (sv_now w) (sv_db w) created (sv_db w'))"
    using Service_Create_host [OF api_creates] by (cases x) auto
  then show ?thesis using creation_step [of P C ctx command "sv_now w" "sv_db w" _ "sv_db w'"] assms(2) idle by auto
next
  case (api_reads ctx i x)
  have "sv_db w' = sv_db w"
    using Get_order_db [of P i w x w'] api_reads by (simp add: Service_Get_def postgres_store_def)
  then show ?thesis using assms(2) by (simp add: idle)
next
  case (worker_checks eid name b)
  then show ?thesis using IsProcessed_spec [OF worker_checks] assms(2) by (simp add: idle)
next
  case (worker_completes st eid name i reason rid b)
  then show ?thesis
    using Complete_cases [OF worker_completes(2)] completion_step [OF _ worker_completes(1)] assms(2) by (auto simp: idle)
next
  case (publisher_updates op)
  then show ?thesis using publisher_blind [of op ledger_of P w] blind_ledger_of run_op_keeps [OF assms(2), of P op] by (simp add: idle)
next
  case (publisher_counts n)
  then have "sv_db w' = sv_db w"
    unfolding PendingCount_def by (rule query_reads) auto
  then show ?thesis using assms(2) by (simp add: idle)
next
  case outside
  then show ?thesis using assms(2) by (simp add: idle)
qed

section \<open>Properties\<close>

text \<open>
  C3. The database of the three programs refines the ledger: whatever the programs run, in whatever order
  their transactions commit and whatever fails, every transaction is at most one new order with its
  OrderCreated event, or one decision of a PENDING order with its OrderStatusChanged event; and the schema's
  constraints hold throughout.
\<close>
theorem shop_refines_ledger:
  assumes "shop_run P C w w'" and "db_ok (sv_db w)"
  shows "ledger_step\<^sup>*\<^sup>* (ledger_of (sv_db w)) (ledger_of (sv_db w')) \<and> db_ok (sv_db w')"
  using assms(1) unfolding shop_run_def
proof (induction rule: rtranclp_induct)
  case base
  then show ?case using assms(2) by simp
next
  case (step u v)
  then show ?case using shop_step_ledger [OF step.hyps(2)] by (auto intro: rtranclp.rtrancl_into_rtrancl)
qed

lemma ledger_steps_ok: "ledger_step\<^sup>*\<^sup>* l l' \<Longrightarrow> ledger_ok l \<Longrightarrow> ledger_ok l'"
  by (induction rule: rtranclp_induct) (auto intro: ledger_step_ok)

lemma ledger_steps_final:
  "ledger_step\<^sup>*\<^sup>* l l' \<Longrightarrow> lg_status l i = Some st \<Longrightarrow> st \<noteq> StatusPending \<Longrightarrow> lg_status l' i = Some st"
  by (induction rule: rtranclp_induct) (auto intro: ledger_step_final)

lemma shop_run_ledger: "shop_run P C w w' \<Longrightarrow> db_ok (sv_db w) \<Longrightarrow> ledger_step\<^sup>*\<^sup>* (ledger_of (sv_db w)) (ledger_of (sv_db w'))"
  unfolding shop_run_def
proof (induction rule: rtranclp_induct)
  case (step u v)
  have "db_ok (sv_db u)"
    using step.hyps(1) step.prems by (induction rule: rtranclp_induct) (auto dest: shop_step_ledger)
  then show ?case using step shop_step_ledger [OF step.hyps(2)] by (auto intro: rtranclp.rtrancl_into_rtrancl)
qed simp

text \<open>
  C2. Exactly one announcement of each fact, over any run of the three programs from an empty database: an
  order has one OrderCreated event from the moment it is stored, and one OrderStatusChanged event from the
  moment it is decided, in this order; no other event is about it, and an order that is decided stays as it is.
\<close>
theorem every_order_is_announced_once:
  assumes "shop_run P C w u" and "shop_run P C u w'" and "sv_db w = empty_db"
  shows "events_about i (map event_key (outbox_events (sv_db w'))) = announced (status_of (sv_db w') i)
    \<and> (\<forall>st. status_of (sv_db u) i = Some st \<longrightarrow> st \<noteq> StatusPending \<longrightarrow> status_of (sv_db w') i = Some st)"
proof -
  have empty: "ledger_ok (ledger_of empty_db)"
    by (simp add: ledger_ok_def ledger_of_def events_about_def announced_def status_of_def)
  have u: "ledger_step\<^sup>*\<^sup>* (ledger_of (sv_db w)) (ledger_of (sv_db u))"
    using shop_run_ledger [OF assms(1)] assms(3) empty_db_ok by simp
  have "db_ok (sv_db u)"
    using assms(1) unfolding shop_run_def
    by (induction rule: rtranclp_induct) (use assms(3) empty_db_ok in \<open>auto dest: shop_step_ledger\<close>)
  then have v: "ledger_step\<^sup>*\<^sup>* (ledger_of (sv_db u)) (ledger_of (sv_db w'))"
    by (rule shop_run_ledger [OF assms(2)])
  have "ledger_ok (ledger_of (sv_db w'))"
    using ledger_steps_ok [OF v ledger_steps_ok [OF u]] empty assms(3) by simp
  then show ?thesis
    using ledger_steps_final [OF v, of i] by (simp add: ledger_ok_def ledger_of_def)
qed

lemma sample_shop_run: "shop_run sample_pg C0 (sample_host empty_db []) (snd sample_service_run)"
  unfolding shop_run_def using shop_step.api_creates [OF prod.collapse [symmetric]] by blast

lemma sample_order_stored: "status_of (sv_db (snd sample_service_run)) 100 = Some StatusPending"
proof -
  have run: "sample_service_run = (Inr created_order, snd sample_service_run)"
    using sample_create by (metis prod.collapse)
  obtain env where "create_effect sample_pg C0 5000000 created_order env empty_db (sv_db (snd sample_service_run))"
    using Service_Create_host [OF run] unfolding creation_def by auto
  then show ?thesis
    by (auto simp: create_effect_def created_db_def status_of_def find_append order_row_of_def created_order_def sample_order_def)
qed

theorem shop_refines_ledger_witness:
  "ledger_step\<^sup>*\<^sup>* (ledger_of empty_db) (ledger_of (sv_db (snd sample_service_run)))"
  using shop_refines_ledger [OF sample_shop_run] empty_db_ok by simp

theorem every_order_is_announced_once_witness:
  "events_about 100 (map event_key (outbox_events (sv_db (snd sample_service_run)))) = [OrderCreated]"
proof -
  have "shop_run sample_pg C0 (snd sample_service_run) (snd sample_service_run)" by (simp add: shop_run_def)
  from every_order_is_announced_once [OF sample_shop_run this, of 100] show ?thesis
    by (simp add: sample_order_stored announced_def)
qed

end
