(* ===== verification/Order_Books.thy ===== *)
theory Order_Books
  imports Orders_System
begin

text \<open>
  What the rows of orders and order_items say of each other, under every interleaving of the three programs:
  an order's total is the exact amount of its items.
\<close>

definition items_of :: "db \<Rightarrow> uuid \<Rightarrow> item_row list" where
  "items_of d i = filter (\<lambda>r. i_order_id r = i) (order_items d)"

definition row_amount :: "item_row \<Rightarrow> int" where
  "row_amount r = sint (i_quantity r) * sint (i_unit_price_minor r)"

text \<open>One order's book, on the part of its row that no program changes.\<close>

definition book_ok :: "item_row list \<Rightarrow> uuid \<times> int64 \<times> string \<Rightarrow> bool" where
  "book_ok items = (\<lambda>(i, amount, currency). (let mine = filter (\<lambda>r. i_order_id r = i) items in
     mine \<noteq> [] \<and> sint amount = sum_list (map row_amount mine) \<and> 0 < sint amount \<and> currency = CurrencyRUB))"

definition books :: "db \<Rightarrow> (uuid \<times> int64 \<times> string) list \<times> item_row list" where
  "books d = (map (\<lambda>r. (o_id r, o_total_amount_minor r, o_currency r)) (orders d), order_items d)"

definition books_ok :: "db \<Rightarrow> bool" where
  "books_ok d \<longleftrightarrow> list_all (book_ok (snd (books d))) (fst (books d))"

lemma books_ok_iff:
  "books_ok d \<longleftrightarrow> (\<forall>r \<in> set (orders d). items_of d (o_id r) \<noteq> []
     \<and> sint (o_total_amount_minor r) = sum_list (map row_amount (items_of d (o_id r)))
     \<and> 0 < sint (o_total_amount_minor r) \<and> o_currency r = CurrencyRUB)"
  by (auto simp: books_ok_def books_def book_ok_def list_all_iff items_of_def Let_def)

lemma books_ok_cong: "books d' = books d \<Longrightarrow> books_ok d' = books_ok d"
  by (simp add: books_ok_def)

lemma blind_books: "blind books"
  by (simp add: blind_def books_def)

lemma items_amount: "sum_list (map row_amount (map (item_row_of i) items)) = order_amount items"
  by (induction items) (simp_all add: row_amount_def item_row_of_def line_amount_def)

lemma creation_books:
  assumes "creation P C ctx command now d created d'" and "db_ok d" and "books_ok d"
  shows "books_ok d'"
proof -
  obtain env t json where ord: "New_order t (order_ID created) command = Inr created"
    and d': "d' = created_db P now created env json d" and new: "order_ID created \<notin> set (map o_id (orders d))"
    using assms(1) unfolding creation_def create_effect_def by blast
  let ?i = "order_ID created" and ?items = "cmd_Items command"
  obtain amount where v: "validate command = Inr amount" and c: "order_Items created = ?items"
      "order_TotalAmountMinor created = amount" "order_Currency created = CurrencyRUB"
    using ord by (cases created; cases "validate command") (auto simp: New_order_def)
  have ok: "command_ok command" "sint amount = order_amount ?items" using validate_Inr [OF v] by blast+
  have "i_order_id r \<in> o_id ` set (orders d)" if "r \<in> set (order_items d)" for r
    using assms(2) that by (simp add: db_ok_def list_all_iff)
  then have "i_order_id r \<noteq> ?i" if "r \<in> set (order_items d)" for r using new that by force
  then have mine: "filter (\<lambda>r. i_order_id r = ?i) (order_items d) = []" by (simp add: filter_empty_conv)
  have added: "filter (\<lambda>r. i_order_id r = j) (map (item_row_of ?i) ?items) = (if j = ?i then map (item_row_of ?i) ?items else [])" for j
    by (auto simp: filter_empty_conv item_row_of_def)
  have others: "o_id r \<noteq> ?i" if "r \<in> set (orders d)" for r using new that by force
  have "?items \<noteq> []" using ok by (simp add: command_ok_def)
  then show ?thesis
    using assms(3) order_amount_pos [OF ok(1)] others
    by (auto simp: books_ok_iff items_of_def d' created_db_def c added mine items_amount ok(2) order_row_of_def simp del: map_map)
qed

lemma completion_books:
  assumes "completion P C now eid name i st reason rid d b d'"
  shows "books d' = books d"
  using assms by cases (simp_all add: books_def with_processed_def with_event_def with_status_def)

lemma shop_step_books:
  assumes "shop_step P C w w'" and "db_ok (sv_db w)" and "books_ok (sv_db w)"
  shows "books_ok (sv_db w')"
  using assms(1)
proof cases
  case (api_creates ctx command x)
  have "sv_db w' = sv_db w \<or> (\<exists>created. creation P C ctx command (sv_now w) (sv_db w) created (sv_db w'))"
    using Service_Create_host [OF api_creates] by (cases x) auto
  then show ?thesis using creation_books [OF _ assms(2,3)] assms(3) by auto
next
  case (api_reads ctx i x)
  then show ?thesis using Get_order_db [of P i w x w'] assms(3) by (simp add: Service_Get_def postgres_store_def)
next
  case (worker_checks eid name b)
  then show ?thesis using IsProcessed_spec [OF worker_checks] assms(3) by simp
next
  case (worker_completes st eid name i reason rid b)
  consider "sv_db w' = sv_db w" | b where "completion P C (sv_now w) eid name i st reason rid (sv_db w) b (sv_db w')"
    using Complete_cases [OF worker_completes(2)] by blast
  then have "books (sv_db w') = books (sv_db w)" by cases (simp, rule completion_books)
  from books_ok_cong [OF this] show ?thesis using assms(3) by simp
next
  case (publisher_updates op)
  then have "books (sv_db w') = books (sv_db w)" using publisher_blind blind_books by simp
  from books_ok_cong [OF this] show ?thesis using assms(3) by simp
next
  case (publisher_counts n)
  then have "sv_db w' = sv_db w" unfolding PendingCount_def by (rule query_reads) auto
  then show ?thesis using assms(3) by simp
next
  case outside
  then show ?thesis using assms(3) by simp
qed

text \<open>
  C14. The stored orders are well formed, whatever the three programs run and whatever fails: starting from an
  empty database the schema's constraints hold, and every order has items, a positive total that is the exact
  sum of its items' quantities times prices, and the currency RUB.
\<close>
theorem stored_orders_are_well_formed:
  assumes "shop_run P C w w'" and "sv_db w = empty_db"
  shows "db_ok (sv_db w') \<and> (\<forall>r \<in> set (orders (sv_db w')). items_of (sv_db w') (o_id r) \<noteq> []
     \<and> sint (o_total_amount_minor r) = sum_list (map row_amount (items_of (sv_db w') (o_id r)))
     \<and> 0 < sint (o_total_amount_minor r) \<and> o_currency r = CurrencyRUB)"
  using assms(1) unfolding shop_run_def books_ok_iff [symmetric]
proof (induction rule: rtranclp_induct)
  case base
  then show ?case using assms(2) empty_db_ok by (simp add: books_ok_iff)
next
  case (step u v)
  then show ?case using shop_step_ledger [OF step.hyps(2)] shop_step_books [OF step.hyps(2)] by blast
qed

theorem stored_orders_are_well_formed_witness:
  "books_ok (sv_db (snd sample_service_run))"
  unfolding books_ok_iff by (rule stored_orders_are_well_formed [OF sample_shop_run, THEN conjunct2]) simp

end
