(* ===== verification/Order_Flow.thy ===== *)
theory Order_Flow
  imports Record_Time
begin

text \<open>
  One order through the three programs when nothing fails: the API stores it with its event, the publisher
  claims the event and sends its record, and the worker that gets the record decides the order.
\<close>

section \<open>The API\<close>

text \<open>The event of a created order, as \<open>Service.Create\<close> builds it from the machine's ids and clock.\<close>

definition created_envelope :: "ctx \<Rightarrow> order \<Rightarrow> string \<Rightarrow> 'z host_scheme \<Rightarrow> envelope" where
  "created_envelope ctx created raw w = \<lparr>EventID = h_uuids w (Suc (h_next w)), EventType = OrderCreated,
     AggregateID = order_ID created, env_RequestID = RequestID ctx, OccurredAt = h_clock w, Version = 1, Payload = raw\<rparr>"

lemma Service_Create_quiet:
  fixes w :: "'z host_scheme"
  assumes ord: "New_order (h_clock w) (h_uuids w (h_next w)) command = Inr created" and "RequestID ctx \<noteq> ''''"
    and raw: "marshal_created C (created_payload_of created) = Inr raw"
    and e: "e = created_envelope ctx created raw w" and "envelope_ok e"
    and "sv_plan w = []" and "db_ok (sv_db w)" and "list_all (\<lambda>i. text_ok (SKU i)) (cmd_Items command)"
    and "order_ID created \<notin> set (map o_id (orders (sv_db w)))" and "EventID e \<notin> set (map ob_id (outbox_events (sv_db w)))"
    and "marshal_envelope C e = Inr json" and "pg_jsonb P json = Some stored"
  shows "Service_Create host_runtime C (postgres_store P C) ctx command w
    = (Inr created, w\<lparr>h_next := Suc (Suc (h_next w)), sv_db := created_db P (sv_now w) created e stored (sv_db w)\<rparr>)"
proof -
  let ?w1 = "w\<lparr>h_next := Suc (h_next w)\<rparr>" and ?w2 = "w\<lparr>h_next := Suc (Suc (h_next w))\<rparr>"
  have 1: "run_New_order host_runtime command w = (Inr created, ?w1)"
    using ord by (auto simp: run_New_order_def New_order_def split: sum.splits)
  have 2: "run_New_envelope host_runtime OrderCreated (order_ID created) (RequestID ctx) (Inr raw) ?w1 = (Inr e, ?w2)"
    using assms(5) by (simp add: run_New_envelope_def New_envelope_Inr e created_envelope_def)
  have oid: "order_ID created = h_uuids w (h_next w)"
    using ord by (auto simp: New_order_def split: sum.splits)
  have 3: "CreateWithEvent P C created e ?w2 = (None, ?w2\<lparr>sv_db := created_db P (sv_now ?w2) created e stored (sv_db ?w2)\<rparr>)"
    using assms(6-12) ord oid
    by (intro CreateWithEvent_quiet [where now = "h_clock w" and oid = "h_uuids w (h_next w)" and c = command and payload = json])
       (simp_all add: e created_envelope_def)
  show ?thesis
    using assms(2) by (simp add: Service_Create_def 1 service_request_id_def raw 2 postgres_store_def 3)
qed

section \<open>The publisher\<close>

lemma Claim_frame_quiet:
  assumes "Claim P owner limit lease w = (Inr evs, w')" and "sv_plan w = []"
  shows "\<exists>d. w' = w\<lparr>sv_db := d\<rparr>"
  using assms by (auto simp: Claim_def query_def next_reply_def split: sum.splits)

text \<open>A fresh event is part of a claim that did not use up its limit, and what is claimed can be published.\<close>

lemma fresh_event_claimed:
  assumes "Claim P owner limit lease w = (Inr evs, w')" and "db_ok (sv_db w)" and "int (length evs) < sint limit"
    and r: "r = fresh_outbox_row P (sv_now w) eid agg ty stored t" and "r \<in> set (outbox_events (sv_db w))"
    and "eid \<notin> set (sv_locked w)"
  shows "\<exists>ev \<in> set evs. ev_ID ev = eid \<and> ev_AggregateID ev = agg \<and> ev_EventType ev = ty \<and> ev_Payload ev = stored
    \<and> row_of (sv_db w') eid = Some (claim_row owner (claim_until (sv_now w) lease) r)"
proof -
  have id: "ob_id r = eid" by (simp add: r fresh_outbox_row_def)
  have "claimable (sv_now w) r" by (simp add: claimable_def r fresh_outbox_row_def)
  then have "eid \<in> set (map ev_ID evs)" using Claim_all [OF assms(1-3,5)] assms(6) id by simp
  then obtain ev where ev: "ev \<in> set evs" "ev_ID ev = eid" by auto
  obtain q where q: "row_of (sv_db w) eid = Some q" "row_of (sv_db w') eid = Some (claim_row owner (claim_until (sv_now w) lease) q)"
      "ev = event_of_row (claim_row owner (claim_until (sv_now w) lease) q)"
    using Claim_event [OF assms(1,2) ev(1)] ev(2) by metis
  have "q = r" using row_of_mem [OF assms(2,5)] q(1) id by simp
  then show ?thesis
    using ev(1) q by (intro bexI [of _ ev]) (auto simp: event_of_row_def claim_row_def r fresh_outbox_row_def)
qed

section \<open>The worker\<close>

text \<open>The record of a created order is one the worker takes at once.\<close>

lemma created_record_due:
  assumes "publishable C t ev topic envelope" and "ev_EventType ev = OrderCreated"
    and "0 \<le> now" and "0 \<le> sint (cc_MaxRetries config)" and "0 \<le> sint (cc_MaxBackoff config + 5 * second)"
  shows "due_event C config now (event_record C ev topic envelope) 0 envelope"
  using assms
  by (auto simp: due_event_def publishable_def order_event_def event_record_def headerInt_def headerTime_def header_of_def
      envelope_headers_def simp del: Envelope_Validate_None)

lemma created_payload_valid:
  "New_order t i command = Inr created \<Longrightarrow> CreatedPayload_Validate (created_payload_of created) = None"
  by (cases command) (auto simp: New_order_def CreatedPayload_Validate_def created_payload_of_def split: sum.splits)

definition decision :: "create_command \<Rightarrow> status" where
  "decision command = (if list_all (\<lambda>i. sint (Quantity i) \<le> 100) (cmd_Items command) then StatusConfirmed else StatusFailed)"

lemma verdict_of_created:
  assumes "New_order t i command = Inr created"
  shows "pr_Status (shop_verdict 100 (input_of C envelope (created_payload_of created))) = decision command"
proof -
  have items: "order_Items created = cmd_Items command"
    using assms by (auto simp: New_order_def split: sum.splits)
  have "filter (\<lambda>i. 100 < sint (Quantity i)) (cmd_Items command) = [] \<longleftrightarrow> list_all (\<lambda>i. sint (Quantity i) \<le> 100) (cmd_Items command)"
    by (auto simp: filter_empty_conv list_all_iff not_less)
  then show ?thesis
    by (auto simp: shop_verdict_def decision_def input_of_def created_payload_of_def items stock_limit_def split: list.split)
qed

section \<open>From the request to the decision\<close>

text \<open>JSON and JSONB carry the order's payload and its event.\<close>

definition travels :: "pg \<Rightarrow> ('c) codec_scheme \<Rightarrow> order \<Rightarrow> envelope \<Rightarrow> string \<Rightarrow> bool" where
  "travels P C created e stored \<longleftrightarrow> marshal_created C (created_payload_of created) = Inr (Payload e)
     \<and> unmarshal_created C (Payload e) = Inr (created_payload_of created)
     \<and> (\<exists>json. marshal_envelope C e = Inr json \<and> pg_jsonb P json = Some stored) \<and> unmarshal_envelope C stored = Inr e"

text \<open>The API's machine can store the order: nothing fails, ids are new, SKUs are text for PostgreSQL.\<close>

definition can_store :: "create_command \<Rightarrow> order \<Rightarrow> envelope \<Rightarrow> 'z host_scheme \<Rightarrow> bool" where
  "can_store command created e w \<longleftrightarrow> sv_plan w = [] \<and> db_ok (sv_db w) \<and> list_all (\<lambda>i. text_ok (SKU i)) (cmd_Items command)
     \<and> order_ID created \<notin> set (map o_id (orders (sv_db w))) \<and> EventID e \<notin> set (map ob_id (outbox_events (sv_db w)))"

text \<open>The worker's machine can decide it: nothing fails, the order waits, and its clock is not behind the API's.\<close>

definition can_decide :: "pg \<Rightarrow> ('c) codec_scheme \<Rightarrow> consumer_config \<Rightarrow> envelope \<Rightarrow> proc_result \<Rightarrow> 'z host_scheme \<Rightarrow> bool" where
  "can_decide P C config e v w \<longleftrightarrow> sv_plan w = [] \<and> db_ok (sv_db w) \<and> 0 \<le> h_clock w
     \<and> text_ok (cc_ConsumerName config) \<and> cc_ConsumerName config \<noteq> ''''
     \<and> 0 \<le> sint (cc_MaxRetries config) \<and> 0 \<le> sint (cc_MaxBackoff config + 5 * second)
     \<and> (cc_ConsumerName config, EventID e) \<notin> processed_keys (sv_db w)
     \<and> status_of (sv_db w) (AggregateID e) = Some StatusPending
     \<and> list_all (\<lambda>r. o_id r = AggregateID e \<longrightarrow> o_created_at r \<le> sv_now w) (orders (sv_db w))
     \<and> h_uuids w (h_next w) \<notin> set (map ob_id (outbox_events (sv_db w)))
     \<and> (case marshal_status_changed C \<lparr>scp_PreviousStatus = StatusPending, scp_CurrentStatus = pr_Status v, scp_Reason = pr_Reason v\<rparr> of
          Inl err \<Rightarrow> False
        | Inr raw \<Rightarrow>
            (let changed = \<lparr>EventID = h_uuids w (h_next w), EventType = OrderStatusChanged, AggregateID = AggregateID e,
               env_RequestID = env_RequestID e, OccurredAt = h_clock w, Version = 1, Payload = raw\<rparr>
             in envelope_ok changed \<and> (\<exists>json stored. marshal_envelope C changed = Inr json \<and> pg_jsonb P json = Some stored)))"

lemma worker_decides:
  fixes w :: "'z consumer_node_scheme"
  assumes "publishable C t ev topic e" and "ev_EventType ev = OrderCreated" and tr: "travels P C created e stored"
    and ord: "New_order now oid command = Inr created"
    and decide: "can_decide P C config e (shop_verdict 100 (input_of C e (created_payload_of created))) w"
  shows "\<exists>w'. run (processRecord host_runtime C (node_consumer P C fan (\<lambda>ctx w. None) config) ctx (event_record C ev topic e)) w = (None, w')
    \<and> status_of (sv_db w') (AggregateID e) = Some (decision command)"
proof -
  define v where "v = shop_verdict 100 (input_of C e (created_payload_of created))"
  note d = decide [folded v_def, unfolded can_decide_def]
  obtain raw where m: "marshal_status_changed C \<lparr>scp_PreviousStatus = StatusPending,
      scp_CurrentStatus = pr_Status v, scp_Reason = pr_Reason v\<rparr> = Inr raw"
    using d by (auto split: sum.splits)
  define changed where "changed = \<lparr>EventID = h_uuids w (h_next w), EventType = OrderStatusChanged, AggregateID = AggregateID e,
      env_RequestID = env_RequestID e, OccurredAt = h_clock w, Version = 1, Payload = raw\<rparr>"
  obtain json stored' where m': "Envelope_Validate changed = None" "marshal_envelope C changed = Inr json"
      "pg_jsonb P json = Some stored'"
    using d by (auto simp: m Let_def changed_def)
  have due: "due_event C config (h_clock w) (event_record C ev topic e) 0 e"
    using created_record_due [OF assms(1,2)] d by blast
  have rows: "\<forall>r \<in> set (orders (sv_db w)). o_id r = AggregateID e \<longrightarrow> o_created_at r \<le> sv_now w"
    using d by (simp add: list_all_iff)
  have carried: "unmarshal_created C (Payload e) = Inr (created_payload_of created)" using tr by (simp add: travels_def)
  show ?thesis
    using new_orders_are_decided [OF due _ _ _ _ _ carried created_payload_valid [OF ord] v_def _ rows m changed_def m',
        of fan ctx] d verdict_of_created [OF ord, of C e] unfolding v_def by auto
qed

text \<open>
  C1. End to end, when nothing fails: the API answers an acceptable command with the order it built; a claim
  of the outbox that does not use up its limit returns the order's event; publishing it ends with nil and
  leaves its record in Kafka's log; and a worker that gets this record while the order waits ends with nil
  and leaves the order CONFIRMED when every quantity is at most 100 and FAILED otherwise.
\<close>
theorem accepted_orders_are_decided:
  fixes w w2 w4 :: "'z consumer_node_scheme"
  assumes ord: "New_order (h_clock w) (h_uuids w (h_next w)) command = Inr created" and "RequestID ctx \<noteq> ''''"
    and e: "e = created_envelope ctx created raw w" and eok: "envelope_ok e" and tr: "travels P C created e stored"
    and store: "can_store command created e w"
    and w1: "w1 = w\<lparr>h_next := Suc (Suc (h_next w)), sv_db := created_db P (sv_now w) created e stored (sv_db w)\<rparr>"
    and claim: "Claim P (pc_Owner config) limit lease w1 = (Inr evs, w2)" and "int (length evs) < sint limit"
    and "EventID e \<notin> set (sv_locked w)" and "nd_answers w = []" and "text_ok (pc_Owner config)"
    and v: "v = shop_verdict 100 (input_of C e (created_payload_of created))" and decide: "can_decide P C cc e v w4"
  shows "Service_Create host_runtime C (postgres_store P C) ctx command w = (Inr created, w1)
    \<and> (\<exists>ev w3 w5. ev \<in> set evs
        \<and> run (publishOne host_runtime C (node_publisher P C config) pctx ev) w2 = (None, w3)
        \<and> event_record C ev (pc_OrderCreatedTopic config) e \<in> set (nd_log w3)
        \<and> run (processRecord host_runtime C (node_consumer P C fan (\<lambda>ctx w. None) cc) wctx
             (event_record C ev (pc_OrderCreatedTopic config) e)) w4 = (None, w5)
        \<and> status_of (sv_db w5) (order_ID created) = Some (decision command))"
proof -
  have agg: "AggregateID e = order_ID created" "EventType e = OrderCreated" by (simp_all add: e created_envelope_def)
  obtain json where j: "marshal_envelope C e = Inr json" "pg_jsonb P json = Some stored" using tr by (auto simp: travels_def)
  have created: "Service_Create host_runtime C (postgres_store P C) ctx command w = (Inr created, w1)"
    using assms(2) ord eok j store tr unfolding w1
    by (intro Service_Create_quiet [where raw = "Payload e"]) (simp_all add: can_store_def travels_def e created_envelope_def)
  let ?r = "fresh_outbox_row P (sv_now w1) (EventID e) (order_ID created) OrderCreated stored (OccurredAt e)"
  have ok1: "db_ok (sv_db w1)"
    using Service_Create_host [OF created] store by (auto simp: creation_def create_effect_def can_store_def)
  have mem: "?r \<in> set (outbox_events (sv_db w1))" and lock: "EventID e \<notin> set (sv_locked w1)"
    using assms(10) by (simp_all add: w1 created_db_def agg)
  obtain ev where ev: "ev \<in> set evs" "ev_ID ev = EventID e" "ev_AggregateID ev = order_ID created"
      "ev_EventType ev = OrderCreated" "ev_Payload ev = stored"
      "row_of (sv_db w2) (EventID e) = Some (claim_row (pc_Owner config) (claim_until (sv_now w1) lease) ?r)"
    using fresh_event_claimed [OF claim ok1 assms(9) refl mem lock] by blast
  have p: "publishable C (config_topics config) ev (pc_OrderCreatedTopic config) e"
    using tr eok by (simp add: publishable_def ev agg travels_def Topics_For_def OrderCreated_def config_topics_def)
  have quiet: "sv_plan w2 = []" "nd_answers w2 = []" "db_ok (sv_db w2)"
    using Claim_frame_quiet [OF claim] Claim_keeps [OF claim ok1] store assms(11) by (auto simp: w1 can_store_def)
  have own: "owned (ev_ID ev) (pc_Owner config) (claim_row (pc_Owner config) (claim_until (sv_now w1) lease) ?r)"
    by (simp add: owned_def claim_row_def fresh_outbox_row_def ev)
  obtain w3 where w3: "run (publishOne host_runtime C (node_publisher P C config) pctx ev) w2 = (None, w3)"
      "nd_log w3 = nd_log w2 @ [event_record C ev (pc_OrderCreatedTopic config) e]"
    using publishOne_publishes_when_nothing_fails [OF p quiet assms(12) _ own] ev(2,6) by auto
  have decided: "\<exists>w5. run (processRecord host_runtime C (node_consumer P C fan (\<lambda>ctx w. None) cc) wctx
          (event_record C ev (pc_OrderCreatedTopic config) e)) w4 = (None, w5)
      \<and> status_of (sv_db w5) (order_ID created) = Some (decision command)"
    using worker_decides [OF p ev(4) tr ord decide [unfolded v]] by (simp add: agg)
  show ?thesis using created ev(1) w3 decided by auto
qed

section \<open>A sample order\<close>

definition flow_ctx :: ctx where "flow_ctx = WithRequestID background ''req-1''"

definition flow_start :: consumer_node where "flow_start = worker_node empty_db [] []"

definition flow_event :: envelope where "flow_event = created_envelope flow_ctx created_order ''payload'' flow_start"

abbreviation flow_codec :: codec where "flow_codec \<equiv> sample_codec flow_event (created_payload_of created_order)"

definition flow_node :: consumer_node where
  "flow_node = flow_start\<lparr>h_next := 2, sv_db := created_db sample_pg 5000000 created_order flow_event ''envelope'' empty_db\<rparr>"

definition flow_row :: outbox_row where
  "flow_row = claim_row ''a'' 60005000000 (fresh_outbox_row sample_pg 5000000 101 100 OrderCreated ''envelope'' 4000000)"

definition flow_leased :: consumer_node where
  "flow_leased = flow_node\<lparr>sv_db := (sv_db flow_node)\<lparr>outbox_events := [flow_row]\<rparr>\<rparr>"

lemma flow_start_simps [simp]:
  "sv_db flow_start = empty_db" "sv_plan flow_start = []" "sv_now flow_start = 5000000" "sv_locked flow_start = []"
  "h_clock flow_start = 4000000" "h_next flow_start = 0" "h_uuids flow_start n = word_of_nat (n + 100)" "nd_answers flow_start = []"
  by (simp_all add: flow_start_def) (simp_all add: worker_node_def sample_node_def sample_host_def host.defs node.defs)

lemma flow_event_simps [simp]:
  "EventID flow_event = 101" "EventType flow_event = OrderCreated" "AggregateID flow_event = 100"
  "env_RequestID flow_event = ''req-1''" "OccurredAt flow_event = 4000000" "Version flow_event = 1" "Payload flow_event = ''payload''"
  by (simp_all add: flow_event_def created_envelope_def flow_ctx_def created_order_def)

lemma flow_order: "New_order (h_clock flow_start) (h_uuids flow_start (h_next flow_start)) sample_command = Inr created_order"
  by (simp add: New_order_def validate_sample) (simp add: created_order_def sample_order_def sample_command_def)

lemma flow_claim: "Claim sample_pg ''a'' 2 sample_lease flow_node = (Inr [event_of_row flow_row], flow_leased)"
proof -
  have now: "sv_now flow_node = 5000000" "sv_locked flow_node = []" "sv_plan flow_node = []"
    by (simp_all add: flow_node_def)
  have "claim_stmt sample_pg [] 5000000 ''a'' 2 60000 (sv_db flow_node) = Inr ([flow_row], (sv_db flow_node)\<lparr>outbox_events := [flow_row]\<rparr>)"
    by (simp add: flow_node_def created_db_def claim_stmt_def candidates_def update_outbox_def text_ok_def valid_utf8_ascii created_order_def
        fresh_outbox_row_def claimable_def outbox_row_ok_def claim_row_def flow_row_def Let_def OrderCreated_def)
  then show ?thesis
    by (simp add: Claim_def query_def next_reply_def sample_lease_ms now flow_leased_def)
qed

theorem accepted_orders_are_decided_witness:
  "\<exists>ev w3 w5. run (publishOne host_runtime flow_codec (node_publisher sample_pg flow_codec publish_config) background ev) flow_leased
      = (None, w3)
     \<and> event_record flow_codec ev ''created'' flow_event \<in> set (nd_log w3)
     \<and> run (processRecord host_runtime flow_codec (node_consumer sample_pg flow_codec (\<lambda>t. t) (\<lambda>ctx w. None) worker_config) background
          (event_record flow_codec ev ''created'' flow_event)) flow_node = (None, w5)
     \<and> status_of (sv_db w5) 100 = Some StatusConfirmed"
proof -
  let ?v = "shop_verdict 100 (input_of flow_codec flow_event (created_payload_of created_order))"
  have ids: "order_ID created_order = 100" "pc_Owner publish_config = ''a''" "pc_OrderCreatedTopic publish_config = ''created''"
    by (simp_all add: created_order_def publish_config_def)
  have rid: "RequestID flow_ctx \<noteq> ''''" by (simp add: flow_ctx_def)
  have ok: "envelope_ok flow_event" by (simp add: envelope_ok_def uuid_nil_def ascii_simps OrderCreated_def)
  have travels: "travels sample_pg flow_codec created_order flow_event ''envelope''" by (simp add: travels_def)
  have store: "can_store sample_command created_order flow_event flow_start"
    using empty_db_ok sample_skus_text by (simp add: can_store_def)
  have w1: "flow_node = flow_start\<lparr>h_next := Suc (Suc (h_next flow_start)),
      sv_db := created_db sample_pg (sv_now flow_start) created_order flow_event ''envelope'' (sv_db flow_start)\<rparr>"
    by (simp add: flow_node_def numeral_2_eq_2)
  have created: "db_ok (sv_db flow_node)"
    by (simp add: flow_node_def created_db_def db_ok_def created_order_def sample_order_def sample_command_def order_row_of_def item_row_of_def
        fresh_outbox_row_def order_row_ok_def item_row_ok_def outbox_row_ok_def order_status_enum_def status_defs item_key_def
        OrderCreated_def ascii_simps)
  have "can_decide sample_pg flow_codec worker_config flow_event ?v flow_node"
    using created
    by (simp add: can_decide_def worker_name worker_config_def minute_def second_def flow_node_def created_db_def processed_keys_def
        status_of_def order_row_of_def created_order_def sample_order_def Let_def envelope_ok_def uuid_nil_def ascii_simps OrderStatusChanged_def
        fresh_outbox_row_def)
  moreover have "decision sample_command = StatusConfirmed" by (simp add: decision_def sample_command_def)
  ultimately show ?thesis
    using accepted_orders_are_decided [OF flow_order rid flow_event_def ok travels store w1, where config = publish_config and limit = 2
        and lease = sample_lease and evs = "[event_of_row flow_row]" and ?w2.0 = flow_leased and ?w4.0 = flow_node and cc = worker_config
        and pctx = background and wctx = background and fan = "\<lambda>t. t", OF _ _ _ _ _ refl]
      flow_claim by (auto simp: ids text_ok_def valid_utf8_ascii)
qed

end
