(* ===== verification/Stranded_Order.thy ===== *)
theory Stranded_Order
  imports Order_Flow Orders_System
begin

text \<open>
  A request id is taken from the client byte by byte, but travels in a JSON text, where only UTF-8 can be
  written: what becomes of an order whose request id is not UTF-8, from the request to the outbox.
\<close>

section \<open>Strings through JSON\<close>

text \<open>What a string is after \<open>json.Marshal\<close> and \<open>json.Unmarshal\<close>: each invalid byte becomes U+FFFD.\<close>

definition json_utf8 :: "string \<Rightarrow> string" where
  "json_utf8 s = concat (map (\<lambda>(r, bs). if r = rune_error \<and> length bs = 1 then [CHR 0xEF, CHR 0xBF, CHR 0xBD] else bs) (runes s))"

lemma decode_FF: "decode_rune (CHR 0xFF # s) = (rune_error, 1)"
  by (simp add: decode_rune_def seq_ok_def seq_len_def Let_def)

lemma runes_FF: "runes (replicate n (CHR 0xFF)) = replicate n (rune_error, [CHR 0xFF])"
  by (induction n) (simp_all add: runes.simps [of "CHR 0xFF # s" for s] runes.simps [of "[]"] decode_FF)

lemma json_utf8_FF: "length (json_utf8 (replicate n (CHR 0xFF))) = 3 * n"
  unfolding json_utf8_def runes_FF by (induction n) simp_all

lemma trim_FF: "trim_space (replicate n (CHR 0xFF)) = replicate n (CHR 0xFF)"
proof (cases n)
  case (Suc m)
  let ?s = "replicate n (CHR 0xFF)"
  have left: "trim_left ?s = ?s"
    by (rule trim_left_fixed) (simp add: Suc decode_FF)
  have "drop (length ?s - 1) ?s = replicate (n - (n - 1)) (CHR 0xFF)"
    by (simp only: length_replicate drop_replicate)
  then have "drop (length ?s - 1) ?s = [CHR 0xFF]" by (simp add: Suc del: replicate_Suc) (simp add: numeral_nat)
  then have "decode_last_rune ?s = (rune_error, 1)"
    by (simp add: decode_last_rune_def decode_FF Suc del: replicate_Suc)
  then have "trim_right ?s = ?s" by (intro trim_right_fixed) simp
  then show ?thesis by (simp add: trim_space_def left)
qed simp

text \<open>
  What JSON and JSONB make of the stored event: everything comes back as it was but the request id.
\<close>

definition stored_as :: "pg \<Rightarrow> ('c) codec_scheme \<Rightarrow> envelope \<Rightarrow> string \<Rightarrow> bool" where
  "stored_as P C e stored \<longleftrightarrow> (\<exists>json. marshal_envelope C e = Inr json \<and> pg_jsonb P json = Some stored)
     \<and> unmarshal_envelope C stored = Inr (e\<lparr>env_RequestID := json_utf8 (env_RequestID e)\<rparr>)"

section \<open>Orders and the outbox\<close>

text \<open>What works on the outbox leaves the orders alone.\<close>

lemma update_outbox_orders: "update_outbox P cond upd d = Inr (n, d') \<Longrightarrow> orders d' = orders d"
  by (auto simp: update_outbox_def Let_def split: if_splits)

lemma claim_stmt_orders: "claim_stmt P locked now owner limit ms d = Inr (rows, d') \<Longrightarrow> orders d' = orders d"
  by (auto simp: claim_stmt_def Let_def split: if_splits sum.splits dest: update_outbox_orders)

lemma Claim_keeps_status:
  assumes "Claim P owner limit lease w = (x, w')"
  shows "status_of (sv_db w') i = status_of (sv_db w) i"
  by (cases rule: Claim_db [OF assms]) (auto simp: status_of_def dest: claim_stmt_orders)

lemma exec_owned_preserves: "keeps I stmt \<Longrightarrow> I (sv_db s) \<Longrightarrow> exec_owned what stmt s = (x, s') \<Longrightarrow> I (sv_db s')"
  by (auto simp: exec_owned_def split: prod.splits sum.splits if_splits dest: query_keeps)

lemma failPermanently_quiet:
  fixes w :: "'z node_scheme"
  assumes "sv_plan w = []" and "db_ok (sv_db w)" and "text_ok (pc_Owner config)" and "text_ok (err_string C cause)"
    and "row_of (sv_db w) (ev_ID ev) = Some r" and "owned (ev_ID ev) (pc_Owner config) r"
  shows "\<exists>d. run (failPermanently host_runtime C (node_publisher P C config) ctx ev res cause) w
      = (Some cause, w\<lparr>sv_db := d, h_metrics := h_metrics w @ [OutboxPublished res]\<rparr>)
    \<and> row_of d (ev_ID ev) = Some (failed_row (err_string C cause) r) \<and> orders d = orders (sv_db w)"
proof -
  let ?stmt = "\<lambda>d. if \<not> text_ok (pc_Owner config) \<or> \<not> text_ok (err_string C cause)
            then Inl (pg_error P (InvalidText ''outbox_events''))
            else update_outbox P (owned (ev_ID ev) (pc_Owner config)) (failed_row (err_string C cause)) d"
  obtain d where d: "MarkFailed P (ev_ID ev) (pc_Owner config) (err_string C cause) w = (None, w\<lparr>sv_db := d\<rparr>)"
      "row_of d (ev_ID ev) = Some (failed_row (err_string C cause) r)"
    unfolding MarkFailed_def
    by (rule exec_owned_quiet [where s = w and i = "ev_ID ev" and r = r and owner = "pc_Owner config"
          and upd = "failed_row (err_string C cause)" and what = "''mark outbox event failed''" and P = P and stmt = ?stmt])
       (use assms owned_row_facts(3) [OF assms(2,5,6)] in simp_all)
  have "keeps (\<lambda>d. orders d = orders (sv_db w)) ?stmt"
    by (auto simp: keeps_def dest: update_outbox_orders split: if_splits)
  from exec_owned_preserves [OF this refl d(1) [unfolded MarkFailed_def]] have "orders d = orders (sv_db w)" by simp
  then show ?thesis using d by (auto simp: failPermanently_def)
qed

section \<open>The API\<close>

text \<open>A POST that carries an acceptable request id and whose order is created is answered 201.\<close>

lemma Routes_creates:
  fixes w w1 :: "'z host_scheme"
  assumes "rq_Method rq = ''POST''" and "rq_Segments rq = [''api'', ''v1'', ''orders'']"
    and rid: "rid = trim_space (Header_Get rq ''X-Request-Id'')" "rid \<noteq> ''''" "length rid \<le> 128"
    and "parse_create C (rq_Body rq) = Inr command"
    and "Service_Create host_runtime C (postgres_store P C) (with_timeout (WithRequestID (rq_Context rq) rid) (5 * second)) command w
      = (Inr created, w1)"
  shows "\<exists>r ms. Routes host_runtime C (postgres_store P C) operational net_writer rq response_start w
      = (rq, r, w1\<lparr>h_metrics := h_metrics w1 @ ms\<rparr>) \<and> sent_status r = Some 201"
proof -
  let ?rq = "rq\<lparr>rq_Context := WithRequestID (rq_Context rq) rid\<rparr>"
  let ?r0 = "response_start\<lparr>rs_Header := [(''X-Request-Id'', rid)]\<rparr>"
  let ?r1 = "?r0\<lparr>rs_Header := header_set ''Location'' (''/api/v1/orders/'' @ lib_uuid_string C (order_ID created)) (rs_Header ?r0)\<rparr>"
  have id: "request_id host_runtime C rq w = (rid, w)" using rid by (simp add: request_id_def)
  have "mux_serve (order_routes host_runtime C (postgres_store P C) operational) (statusWriter net_writer) ?rq (0, ?r0)
      (snd (rt_now host_runtime (snd (rt_now host_runtime w))))
    = (?rq\<lparr>rq_Pattern := ''POST /api/v1/orders'', rq_PathValue := ''''\<rparr>, (201, writeJSON net_writer 201 (encode_order C created) ?r1), w1)"
    using assms(1,2,6,7) by (simp add: mux_create HTTPHandler_create_def)
  note run = Routes_run [OF this id]
  have "sent_status (writeJSON net_writer 201 (encode_order C created) ?r1) = Some 201"
    by (rule writeJSON_sent) (simp add: response_start_def)
  then show ?thesis using run by (auto simp: Let_def)
qed

section \<open>The publisher\<close>

text \<open>An event that comes back with an over-long request id is given up at once.\<close>

lemma long_id_rejected:
  assumes "ev_EventType ev = OrderCreated" and "unmarshal_envelope C (ev_Payload ev) = Inr e"
    and "EventID e \<noteq> uuid_nil" and "AggregateID e \<noteq> uuid_nil" and "EventType e \<noteq> ''''" and "128 < length (env_RequestID e)"
    and "list_all (\<lambda>c. byte c \<in> {1..127}) (lib_uuid_string C (ev_ID ev))"
  shows "\<exists>cause. publishOne R C (node_publisher P C config) ctx ev = failPermanently R C (node_publisher P C config) ctx ev ''invalid'' cause
    \<and> text_ok (err_string C cause)"
proof -
  let ?e = "errorf [Lit ''request_id must contain between 1 and 128 characters'']"
  let ?cause = "wrapfs [Lit ''validate outbox event '', Lit (lib_uuid_string C (ev_ID ev)), Lit '': ''] ?e"
  have v: "Envelope_Validate e = Some ?e" using assms(3-6) by (simp add: Envelope_Validate_def)
  have "list_all (\<lambda>c. byte c \<in> {1..127}) (err_string C ?cause)"
    using assms(7) by (simp add: err_string_def error_text_def wrapfs_def errorf_def)
  then have "text_ok (err_string C ?cause)"
    unfolding text_ok_def by (intro conjI valid_utf8_ascii) (auto simp: list_all_iff)
  moreover have "\<exists>topic. Topics_For (config_topics config) (ev_EventType ev) = Some topic"
    using assms(1) by (simp add: Topics_For_def OrderCreated_def)
  then have "publishOne R C (node_publisher P C config) ctx ev = failPermanently R C (node_publisher P C config) ctx ev ''invalid'' ?cause"
    using assms(2) v by (auto simp: publishOne_def)
  ultimately show ?thesis by blast
qed

text \<open>
  C36. A client can strand its order with a request id that is not UTF-8. Any X-Request-ID of 1 to 128 bytes
  is taken as it is, but \<open>json.Marshal\<close> writes U+FFFD, three bytes, for each invalid byte; an id that is then
  longer than 128 bytes (43 bytes FF are enough) has this effect, when nothing fails at all: the POST is
  answered 201 and the order is stored PENDING, the publisher that claims its event rejects the event it reads
  back, the event's row becomes FAILED and is never claimable again, nothing is sent to Kafka, and the order
  is still PENDING.
\<close>
theorem request_id_bytes_strand_the_order:
  fixes w w2 :: "'z node_scheme"
  assumes post: "rq_Method rq = ''POST''" "rq_Segments rq = [''api'', ''v1'', ''orders'']" "parse_create C (rq_Body rq) = Inr command"
    and rid: "rid = trim_space (Header_Get rq ''X-Request-Id'')" "rid \<noteq> ''''" "length rid \<le> 128" "128 < length (json_utf8 rid)"
    and ord: "New_order (h_clock w) (h_uuids w (h_next w)) command = Inr created"
    and raw: "marshal_created C (created_payload_of created) = Inr raw" "raw \<noteq> ''''"
    and e: "e = created_envelope (WithRequestID (rq_Context rq) rid) created raw w" and travels: "stored_as P C e stored"
    and ids: "h_clock w \<noteq> 0" "order_ID created \<noteq> uuid_nil" "EventID e \<noteq> uuid_nil"
      "list_all (\<lambda>c. byte c \<in> {1..127}) (lib_uuid_string C (EventID e))"
    and store: "can_store command created e w"
    and run: "Routes host_runtime C (postgres_store P C) operational net_writer rq response_start w = (rq', r, w1)"
    and claim: "Claim P (pc_Owner config) limit lease w1 = (Inr evs, w2)" "int (length evs) < sint limit"
    and free: "EventID e \<notin> set (sv_locked w)" "text_ok (pc_Owner config)"
  shows "sent_status r = Some 201 \<and> status_of (sv_db w1) (order_ID created) = Some StatusPending
    \<and> (\<exists>ev err w3 row. ev \<in> set evs \<and> ev_ID ev = EventID e
        \<and> run (publishOne host_runtime C (node_publisher P C config) ctx ev) w2 = (Some err, w3)
        \<and> row_of (sv_db w3) (EventID e) = Some row \<and> ob_status row = OB_FAILED \<and> (\<forall>now. \<not> claimable now row)
        \<and> nd_log w3 = nd_log w2 \<and> status_of (sv_db w3) (order_ID created) = Some StatusPending)"
proof -
  let ?w = "w\<lparr>h_next := Suc (Suc (h_next w)), sv_db := created_db P (sv_now w) created e stored (sv_db w)\<rparr>"
  have f: "AggregateID e = order_ID created" "EventType e = OrderCreated" "env_RequestID e = rid" "Payload e = raw"
      "OccurredAt e = h_clock w" "Version e = 1"
    by (simp_all add: e created_envelope_def)
  have "trim_space rid = rid" by (simp add: rid(1))
  then have eok: "envelope_ok e" using rid(2,3) raw(2) ids by (simp add: envelope_ok_def f OrderCreated_def)
  obtain json where j: "marshal_envelope C e = Inr json" "pg_jsonb P json = Some stored" using travels by (auto simp: stored_as_def)
  have made: "Service_Create host_runtime C (postgres_store P C) (with_timeout (WithRequestID (rq_Context rq) rid) (5 * second)) command w
      = (Inr created, ?w)"
    using ord eok j raw store rid(2)
    by (intro Service_Create_quiet [where raw = raw]) (simp_all add: can_store_def e created_envelope_def)
  obtain ms where w1: "w1 = ?w\<lparr>h_metrics := h_metrics w @ ms\<rparr>" and answered: "sent_status r = Some 201"
    using Routes_creates [OF post(1,2) rid(1-3) post(3) made, of operational] run by auto
  have "find (\<lambda>q. o_id q = order_ID created) (orders (sv_db w)) = None"
    using store by (force simp: can_store_def find_None_iff)
  moreover have "order_Status created = StatusPending" using ord by (auto simp: New_order_def split: sum.splits)
  ultimately have pending: "status_of (sv_db w1) (order_ID created) = Some StatusPending"
    by (simp add: w1 created_db_def status_of_def find_append order_row_of_def)
  let ?r = "fresh_outbox_row P (sv_now w) (EventID e) (order_ID created) OrderCreated stored (OccurredAt e)"
  let ?q = "claim_row (pc_Owner config) (claim_until (sv_now w1) lease) ?r"
  have made': "creation P C (with_timeout (WithRequestID (rq_Context rq) rid) (5 * second)) command (sv_now w) (sv_db w) created (sv_db w1)"
    using Service_Create_host [OF made] by (simp add: w1)
  then have ok1: "db_ok (sv_db w1)" using store by (auto simp: creation_def create_effect_def can_store_def)
  have "?r \<in> set (outbox_events (sv_db w1))" "EventID e \<notin> set (sv_locked w1)" "sv_now w1 = sv_now w"
    using free(1) by (simp_all add: w1 created_db_def f)
  then obtain ev where ev: "ev \<in> set evs" "ev_ID ev = EventID e" "ev_EventType ev = OrderCreated" "ev_Payload ev = stored"
      "row_of (sv_db w2) (EventID e) = Some ?q"
    using fresh_event_claimed [OF claim(1) ok1 claim(2), of ?r] by metis
  have quiet: "sv_plan w2 = []" "db_ok (sv_db w2)"
    using Claim_frame_quiet [OF claim(1)] Claim_keeps [OF claim(1) ok1] store by (auto simp: w1 can_store_def)
  let ?e = "e\<lparr>env_RequestID := json_utf8 rid\<rparr>"
  obtain cause where cause: "publishOne (host_runtime :: ('z node_scheme) runtime) C (node_publisher P C config) ctx ev
      = failPermanently host_runtime C (node_publisher P C config) ctx ev ''invalid'' cause" "text_ok (err_string C cause)"
    using long_id_rejected [OF ev(3), of C ?e host_runtime P config ctx] travels ids rid(4) by (auto simp: ev(2,4) stored_as_def f OrderCreated_def)
  have "owned (ev_ID ev) (pc_Owner config) ?q" by (simp add: owned_def claim_row_def fresh_outbox_row_def ev(2))
  then obtain d where d: "run (publishOne host_runtime C (node_publisher P C config) ctx ev) w2
        = (Some cause, w2\<lparr>sv_db := d, h_metrics := h_metrics w2 @ [OutboxPublished ''invalid'']\<rparr>)"
      "row_of d (EventID e) = Some (failed_row (err_string C cause) ?q)" "orders d = orders (sv_db w2)"
    using failPermanently_quiet [OF quiet free(2) cause(2), of ev ?q P ctx "''invalid''", folded cause(1)] ev(2,5) by auto
  moreover have "status_of d (order_ID created) = Some StatusPending"
    using Claim_keeps_status [OF claim(1), of "order_ID created"] pending d(3) by (simp add: status_of_def)
  ultimately show ?thesis
    using answered pending ev(1,2) by (auto simp: failed_row_def claimable_def)
qed

section \<open>A sample\<close>

text \<open>A POST whose X-Request-ID is 64 bytes FF, the event the API makes for it, and the world after it.\<close>

abbreviation strange_id :: string where "strange_id \<equiv> replicate 64 (CHR 0xFF)"

definition strange_request :: request where
  "strange_request = (post_order ''good'')\<lparr>rq_Header := [(''X-Request-Id'', strange_id)]\<rparr>"

definition strange_event :: envelope where
  "strange_event = created_envelope (WithRequestID background strange_id) created_order ''payload'' flow_start"

definition strange_codec :: http_codec where
  "strange_codec = sample_http\<lparr>unmarshal_envelope := \<lambda>s. Inr (strange_event\<lparr>env_RequestID := json_utf8 strange_id\<rparr>)\<rparr>"

definition strange_node :: "metric list \<Rightarrow> consumer_node" where
  "strange_node ms = flow_start\<lparr>h_next := 2,
     sv_db := created_db sample_pg 5000000 created_order strange_event ''envelope'' empty_db, h_metrics := h_metrics flow_start @ ms\<rparr>"

lemma strange_event_simps [simp]:
  "EventID strange_event = 101" "EventType strange_event = OrderCreated" "AggregateID strange_event = 100"
  "env_RequestID strange_event = strange_id" "OccurredAt strange_event = 4000000" "Version strange_event = 1"
  "Payload strange_event = ''payload''"
  by (simp_all add: strange_event_def created_envelope_def created_order_def)

lemma strange_codec_simps [simp]:
  "marshal_envelope strange_codec e = Inr ''envelope''" "marshal_created strange_codec q = Inr ''payload''"
  "unmarshal_envelope strange_codec s = Inr (strange_event\<lparr>env_RequestID := json_utf8 strange_id\<rparr>)"
  by (simp_all add: strange_codec_def)

lemma strange_header [simp]: "trim_space (Header_Get strange_request ''X-Request-Id'') = strange_id"
  by (simp add: strange_request_def Header_Get_def trim_FF)

lemma strange_body: "parse_create strange_codec (rq_Body strange_request) = Inr sample_command"
  by (simp add: parse_create_def strange_codec_def strange_request_def sample_http_def codec.defs MaxBytesReader_def errors_is_def
      is_digit_def digits_value_def sample_command_def sample_codec_def)

lemma strange_run:
  "\<exists>r ms. Routes host_runtime strange_codec (postgres_store sample_pg strange_codec) operational net_writer strange_request response_start
      flow_start = (strange_request, r, strange_node ms)"
proof -
  have ctx: "rq_Context strange_request = background" by (simp add: strange_request_def post_order_def)
  have ok: "envelope_ok strange_event"
    by (simp add: envelope_ok_def uuid_nil_def OrderCreated_def trim_FF)
  have made: "Service_Create host_runtime strange_codec (postgres_store sample_pg strange_codec)
      (with_timeout (WithRequestID (rq_Context strange_request) strange_id) (5 * second)) sample_command flow_start
    = (Inr created_order, flow_start\<lparr>h_next := Suc (Suc (h_next flow_start)),
        sv_db := created_db sample_pg (sv_now flow_start) created_order strange_event ''envelope'' (sv_db flow_start)\<rparr>)"
    using flow_order empty_db_ok sample_skus_text ok
    by (intro Service_Create_quiet [where raw = "''payload''" and json = "''envelope''"])
       (simp_all add: ctx strange_event_def created_envelope_def)
  show ?thesis
    using Routes_creates [OF _ _ strange_header [symmetric] _ _ strange_body made, of operational]
    by (auto simp: strange_node_def numeral_2_eq_2 strange_request_def)
qed

lemma strange_claim:
  "Claim sample_pg ''a'' 2 sample_lease (strange_node ms)
    = (Inr [event_of_row flow_row], (strange_node ms)\<lparr>sv_db := (sv_db (strange_node ms))\<lparr>outbox_events := [flow_row]\<rparr>\<rparr>)"
proof -
  have now: "sv_now (strange_node ms) = 5000000" "sv_locked (strange_node ms) = []" "sv_plan (strange_node ms) = []"
    by (simp_all add: strange_node_def)
  have "claim_stmt sample_pg [] 5000000 ''a'' 2 60000 (sv_db (strange_node ms))
      = Inr ([flow_row], (sv_db (strange_node ms))\<lparr>outbox_events := [flow_row]\<rparr>)"
    by (simp add: strange_node_def created_db_def claim_stmt_def candidates_def update_outbox_def text_ok_def valid_utf8_ascii created_order_def
        fresh_outbox_row_def claimable_def outbox_row_ok_def claim_row_def flow_row_def Let_def OrderCreated_def)
  then show ?thesis by (simp add: Claim_def query_def next_reply_def sample_lease_ms now)
qed

theorem request_id_bytes_strand_the_order_witness:
  "\<exists>r ms w3 err. Routes host_runtime strange_codec (postgres_store sample_pg strange_codec) (\<lambda>W rq r w. (rq, r, w)) net_writer
      strange_request response_start flow_start = (strange_request, r, strange_node ms)
    \<and> sent_status r = Some 201
    \<and> run (publishOne host_runtime strange_codec (node_publisher sample_pg strange_codec publish_config) background (event_of_row flow_row))
        ((strange_node ms)\<lparr>sv_db := (sv_db (strange_node ms))\<lparr>outbox_events := [flow_row]\<rparr>\<rparr>) = (Some err, w3)
    \<and> nd_log w3 = [] \<and> status_of (sv_db w3) 100 = Some StatusPending"
proof -
  obtain r ms where run: "Routes host_runtime strange_codec (postgres_store sample_pg strange_codec) (\<lambda>W rq r w. (rq, r, w)) net_writer
      strange_request response_start flow_start = (strange_request, r, strange_node ms)"
    using strange_run by blast
  have post: "rq_Method strange_request = ''POST''" "rq_Segments strange_request = [''api'', ''v1'', ''orders'']"
      "rq_Context strange_request = background"
    by (simp_all add: strange_request_def post_order_def)
  have stored: "stored_as sample_pg strange_codec strange_event ''envelope''" by (simp add: stored_as_def)
  have ids: "order_ID created_order = 100" "pc_Owner publish_config = ''a''" by (simp_all add: created_order_def publish_config_def)
  have uuid: "list_all (\<lambda>c. byte c \<in> {1..127}) (lib_uuid_string strange_codec 101)"
    by (simp add: strange_codec_def sample_http_def codec.defs sample_codec_def nat_digits.simps char_of_def bit_0)
  have store: "can_store sample_command created_order strange_event flow_start"
    using empty_db_ok sample_skus_text by (simp add: can_store_def)
  have event: "strange_event = created_envelope (WithRequestID (rq_Context strange_request) strange_id) created_order ''payload'' flow_start"
    by (simp add: strange_event_def post)
  have log: "nd_log ((strange_node ms)\<lparr>sv_db := d\<rparr>) = []" for d
    by (simp add: strange_node_def flow_start_def worker_node_def sample_node_def node.defs host.defs sample_host_def)
  have long: "128 < length (json_utf8 strange_id)" unfolding json_utf8_FF by simp
  show ?thesis
    using request_id_bytes_strand_the_order [OF post(1,2) strange_body strange_header [symmetric] _ _ long flow_order _ _ event stored
        _ _ _ _ store run, where config = publish_config and limit = 2 and lease = sample_lease and ctx = background]
      strange_claim [of ms] run uuid
    by (auto simp: ids log uuid_nil_def text_ok_def valid_utf8_ascii)
qed

end
