(* ===== verification/Pool_Time.thy ===== *)
theory Pool_Time
  imports Worker_Pool
begin

text \<open>
  The worker pool in time. Each call of a handler keeps its worker busy for as long as it moves the clock;
  the calls of different workers overlap; starting jobs, closing the channel and leaving take no time, and
  time does not pass while a job is queued and a worker idle. If every handler ends within \<open>D\<close>, a batch over
  \<open>n\<close> workers ends within \<open>D\<close> for each of its rounds.
\<close>

section \<open>Programs within a budget of time\<close>

text \<open>However the others change the world between its calls, the calls of the program take at most \<open>d\<close>.\<close>

inductive within :: "int \<Rightarrow> ('z host_scheme, 'a) prog \<Rightarrow> bool" where
  within_Ret: "0 \<le> d \<Longrightarrow> within d (Ret a)"
| within_Step: "(\<And>w. h_clock w \<le> h_clock (snd (f w))) \<Longrightarrow>
    (\<And>w. within (d - (h_clock (snd (f w)) - h_clock w)) (fst (f w))) \<Longrightarrow> within d (Step f)"

inductive_cases within_StepE: "within d (Step f)"

lemma within_nonneg: "within d (p :: ('z host_scheme, 'a) prog) \<Longrightarrow> 0 \<le> d"
proof (induction rule: within.induct)
  case (within_Step f d)
  from within_Step.hyps(1) [of undefined] within_Step.IH [of undefined] show ?case by linarith
qed

lemma within_mono: "within d p \<Longrightarrow> d \<le> d' \<Longrightarrow> within d' p"
proof (induction arbitrary: d' rule: within.induct)
  case (within_Step f d)
  show ?case
    by (rule within.within_Step) (use within_Step in auto)
qed (simp add: within.within_Ret)

lemma within_call:
  assumes "\<And>w. h_clock w \<le> h_clock (snd (g w)) \<and> h_clock (snd (g w)) \<le> h_clock w + d1" and "\<And>b. within d2 (k b)"
  shows "within (d1 + d2) (call g k)"
proof -
  have "within (d1 + d2 - (h_clock (snd (g w)) - h_clock w)) (k (fst (g w)))" for w
    by (rule within_mono [OF assms(2)]) (use assms(1) [of w] in simp)
  then show ?thesis
    unfolding call_def by (intro within_Step) (use assms(1) in \<open>simp_all add: case_prod_unfold\<close>)
qed

lemma within_still: "(\<And>w. h_clock (snd (g w)) = h_clock w) \<Longrightarrow> (\<And>b. within d (k b)) \<Longrightarrow> within d (call g k)"
  using within_call [of g 0 d k] by simp

lemma within_count: "within d p \<Longrightarrow> within d (act (rt_count host_runtime m) p)"
  unfolding act_def by (rule within_Step) simp_all

section \<open>Timed runs\<close>

definition at_time :: "time \<Rightarrow> ('z host_scheme, 'a) pool \<Rightarrow> ('z host_scheme, 'a) pool" where
  "at_time now s = s\<lparr>pl_world := (pl_world s)\<lparr>h_clock := now\<rparr>\<rparr>"

text \<open>\<open>busy i\<close> is when the call that the handler of item \<open>i\<close> has made last answers.\<close>

fun answered :: "(nat \<Rightarrow> time) \<Rightarrow> time \<Rightarrow> label \<Rightarrow> bool" where
  "answered busy now (Worked i) \<longleftrightarrow> busy i \<le> now"
| "answered busy now (Completed i e) \<longleftrightarrow> busy i \<le> now"
| "answered busy now _ \<longleftrightarrow> True"

fun busy_after :: "label \<Rightarrow> time \<Rightarrow> time \<Rightarrow> (nat \<Rightarrow> time) \<Rightarrow> nat \<Rightarrow> time" where
  "busy_after (Started i) now ends busy = busy(i := now)"
| "busy_after (Worked i) now ends busy = busy(i := ends)"
| "busy_after _ now ends busy = busy"

inductive timed_run ::
  "('a \<Rightarrow> ('z host_scheme, goerr option) prog) \<Rightarrow> ('z host_scheme, 'a) pool \<Rightarrow> time \<Rightarrow> label list \<Rightarrow>
     ('z host_scheme, 'a) pool \<Rightarrow> time \<Rightarrow> (nat \<Rightarrow> time) \<Rightarrow> bool"
  for body s0 t0 where
  timed_start: "timed_run body s0 t0 [] s0 t0 (\<lambda>i. t0)"
| timed_move: "timed_run body s0 t0 ls s now busy \<Longrightarrow> pool_step body (at_time now s) l s' \<Longrightarrow> answered busy now l \<Longrightarrow>
    timed_run body s0 t0 (ls @ [l]) s' now (busy_after l now (h_clock (pl_world s')) busy)"
| timed_wait: "timed_run body s0 t0 ls s now busy \<Longrightarrow> pool_running s \<noteq> [] \<Longrightarrow>
    pl_queue s = [] \<or> Idle \<notin> set (pl_workers s) \<Longrightarrow> now \<le> now' \<Longrightarrow> \<forall>(i, p) \<in> set (pool_running s). now' \<le> busy i \<Longrightarrow>
    timed_run body s0 t0 ls s now' busy"

lemma at_time_simps [simp]:
  "pl_queue (at_time t s) = pl_queue s" "pl_closed (at_time t s) = pl_closed s" "pl_workers (at_time t s) = pl_workers s"
  "pl_errs (at_time t s) = pl_errs s" "h_clock (pl_world (at_time t s)) = t" "pool_running (at_time t s) = pool_running s"
  by (simp_all add: at_time_def pool_running_def)

lemma pool_inv_at_time [simp]: "pool_inv body items n ls (at_time t s) = pool_inv body items n ls s"
  by (simp add: pool_inv_def)

section \<open>The invariant of a timed run\<close>

definition in_time :: "int \<Rightarrow> time \<Rightarrow> nat \<Rightarrow> nat \<Rightarrow> ('z host_scheme, 'a) pool \<Rightarrow> time \<Rightarrow> (nat \<Rightarrow> time) \<Rightarrow> bool" where
  "in_time D t0 n m s now busy \<longleftrightarrow>
     (\<forall>(i, p) \<in> set (pool_running s). now \<le> busy i
        \<and> (\<exists>d. within d p \<and> busy i + d \<le> t0 + (int (i div n) + 1) * D))
     \<and> (pl_queue s \<noteq> [] \<longrightarrow> now \<le> t0 + int (m div n) * D)"

lemma in_timeD:
  "in_time D t0 n m s now busy \<Longrightarrow> (i, p) \<in> set (pool_running s) \<Longrightarrow>
     now \<le> busy i \<and> (\<exists>d. within d p \<and> busy i + d \<le> t0 + (int (i div n) + 1) * D)"
  unfolding in_time_def by blast

lemma running_indices:
  assumes "pool_inv body items n ls s"
  shows "distinct (map fst (pool_running s))" and "\<And>i p. (i, p) \<in> set (pool_running s) \<Longrightarrow> i < length (started ls)"
proof -
  have ms: "mset (started ls) = mset (map fst (completed ls)) + mset (map fst (pool_running s))"
    and st: "started ls = [0..<length (started ls)]"
    using assms by (simp_all add: pool_inv_def)
  have "distinct (started ls)" using st by (metis distinct_upt)
  then have "distinct (map fst (completed ls) @ map fst (pool_running s))"
    using ms by (metis mset_append mset_eq_imp_distinct_iff)
  then show "distinct (map fst (pool_running s))" by simp
  have "set (map fst (pool_running s)) \<subseteq> set (started ls)"
    using ms by (metis mset_subset_eq_add_right set_mset_mono set_mset_mset)
  then show "i < length (started ls)" if "(i, p) \<in> set (pool_running s)" for i p
    using that st by (metis atLeastLessThan_iff fst_conv image_eqI list.set_map set_upt subsetD)
qed

lemma least_index:
  assumes "distinct is" and "\<forall>i \<in> set is. i < m" and "is \<noteq> []"
  shows "\<exists>i \<in> set is. i + length is \<le> m"
proof (rule ccontr)
  assume "\<not> (\<exists>i \<in> set is. i + length is \<le> m)"
  then have "set is \<subseteq> {m + 1 - length is..<m}" using assms(2) by (auto simp: not_le)
  then have "length is \<le> m - (m + 1 - length is)"
    using card_mono [of "{m + 1 - length is..<m}" "set is"] distinct_card [OF assms(1)] by simp
  moreover have "0 < length is" "0 < m" using assms(2,3) by (cases "is"; auto)+
  ultimately show False by linarith
qed

lemma all_running: "\<forall>wk \<in> set ws. \<exists>i p. wk = Running i p \<Longrightarrow> length (concat (map running ws)) = length ws"
  by (induction ws) auto

text \<open>While a job is queued every worker has one of the last \<open>n\<close> started items or an earlier one.\<close>

lemma busy_pool:
  assumes "pool_inv body items n ls s" and "pl_queue s \<noteq> []" and "Idle \<notin> set (pl_workers s)" and "0 < n"
  shows "\<exists>i p. (i, p) \<in> set (pool_running s) \<and> i + n \<le> length (started ls)"
proof -
  have "Exited \<notin> set (pl_workers s)" and n: "length (pl_workers s) = n"
    using assms(1,2) by (auto simp: pool_inv_def)
  then have "\<forall>wk \<in> set (pl_workers s). \<exists>i p. wk = Running i p"
    using assms(3) by (metis worker.exhaust)
  then have "length (pool_running s) = length (pl_workers s)" unfolding pool_running_def by (rule all_running)
  then have len: "length (map fst (pool_running s)) = n" by (simp add: n)
  then have "map fst (pool_running s) \<noteq> []" using assms(4) by auto
  then obtain i where "i \<in> set (map fst (pool_running s))" "i + n \<le> length (started ls)"
    using least_index [OF running_indices(1) [OF assms(1)], of "length (started ls)"] running_indices(2) [OF assms(1)] len by fastforce
  then show ?thesis by auto
qed

lemma round_mono: "0 \<le> (D :: int) \<Longrightarrow> i \<le> j \<Longrightarrow> t0 + int (i div n) * D \<le> t0 + int (j div n) * D"
  by (simp add: div_le_mono mult_right_mono)

lemma in_time_move:
  assumes "in_time D t0 n (length (started ls)) s now busy" and "pool_inv body items n ls s"
    and step: "pool_step body (at_time now s) l s'" and "answered busy now l"
    and fits: "\<And>x. x \<in> set items \<Longrightarrow> within D (body x)" and "0 \<le> D"
  shows "in_time D t0 n (length (started (ls @ [l]))) s' now (busy_after l now (h_clock (pl_world s')) busy)"
  using step
proof cases
  case (dispatch i x q k)
  let ?m = "length (started ls)"
  have q: "drop ?m (List.enumerate 0 items) = (i, x) # q"
    using assms(2) dispatch by (simp add: pool_inv_def)
  then have m: "?m < length items" by (metis drop_all length_enumerate list.distinct(1) not_le_imp_less)
  then have "drop ?m (List.enumerate 0 items) = (?m, items ! ?m) # drop (Suc ?m) (List.enumerate 0 items)"
    by (simp add: Cons_nth_drop_Suc [symmetric] nth_enumerate_eq)
  with q have i: "i = ?m" "x \<in> set items" using m by auto
  have start: "now \<le> t0 + int (?m div n) * D" using assms(1) dispatch by (simp add: in_time_def)
  obtain us vs where r: "pool_running (at_time now s) = us @ running (pl_workers (at_time now s) ! k) @ vs"
    "pool_running s' = us @ running (Running i (body x)) @ vs"
    using pool_running_update [of k "at_time now s" s' "Running i (body x)"] dispatch by auto
  have old: "set (pool_running s') \<subseteq> insert (i, body x) (set (pool_running s))" using r dispatch by auto
  have "now \<le> (busy(i := now)) j \<and> (\<exists>d. within d p \<and> (busy(i := now)) j + d \<le> t0 + (int (j div n) + 1) * D)"
    if "(j, p) \<in> set (pool_running s')" for j p
  proof (cases "(j, p) = (i, body x)")
    case True
    then show ?thesis using fits [OF i(2)] start i(1) by (auto simp: algebra_simps intro!: exI [of _ D])
  next
    case False
    then have "(j, p) \<in> set (pool_running s)" using old that by blast
    then show ?thesis
      using in_timeD [OF assms(1)] running_indices(2) [OF assms(2)] i(1) by fastforce
  qed
  moreover have "now \<le> t0 + int (Suc ?m div n) * D"
    using start round_mono [OF assms(6), of ?m "Suc ?m" t0 n] by linarith
  ultimately show ?thesis using dispatch by (auto simp: in_time_def)
next
  case (work k i f p w')
  obtain us vs where r: "pool_running (at_time now s) = us @ running (pl_workers (at_time now s) ! k) @ vs"
    "pool_running s' = us @ running (Running i p) @ vs"
    using pool_running_update [of k "at_time now s" s' "Running i p"] work by auto
  then have here: "pool_running s = us @ (i, Step f) # vs" using work by simp
  then have others: "j \<noteq> i" if "(j, p') \<in> set us \<union> set vs" for j p'
    using running_indices(1) [OF assms(2)] that by (auto simp: rev_image_eqI)
  obtain d where d: "now \<le> busy i" "within d (Step f)" "busy i + d \<le> t0 + (int (i div n) + 1) * D"
    using in_timeD [OF assms(1), of i "Step f"] here by auto
  have now: "busy i = now" using d(1) assms(4) work by simp
  have f: "f (pl_world (at_time now s)) = (p, w')" "h_clock (pl_world (at_time now s)) = now" using work by simp_all
  have ends: "now \<le> h_clock w'" "within (d - (h_clock w' - now)) p"
    using d(2) f by (auto elim!: within_StepE dest!: spec [of _ "pl_world (at_time now s)"])
  have "now \<le> (busy(i := h_clock w')) j \<and> (\<exists>d. within d p' \<and> (busy(i := h_clock w')) j + d \<le> t0 + (int (j div n) + 1) * D)"
    if j: "(j, p') \<in> set (pool_running s')" for j p'
  proof (cases "(j, p') = (i, p)")
    case True
    then show ?thesis using ends d(3) now by (auto intro!: exI [of _ "d - (h_clock w' - now)"])
  next
    case False
    then have "(j, p') \<in> set us \<union> set vs" using j r by auto
    then show ?thesis using others in_timeD [OF assms(1), of j p'] here by auto
  qed
  then show ?thesis using assms(1) work by (auto simp: in_time_def)
next
  case (complete k i e)
  obtain us vs where r: "pool_running (at_time now s) = us @ running (pl_workers (at_time now s) ! k) @ vs"
    "pool_running s' = us @ running Idle @ vs"
    using pool_running_update [of k "at_time now s" s' Idle] complete by auto
  then have "set (pool_running s') \<subseteq> set (pool_running s)" by auto
  then show ?thesis using assms(1) complete by (auto simp: in_time_def)
next
  case close
  then show ?thesis using assms(1) by (auto simp: in_time_def pool_running_def)
next
  case (leave k)
  obtain us vs where r: "pool_running (at_time now s) = us @ running (pl_workers (at_time now s) ! k) @ vs"
    "pool_running s' = us @ running Exited @ vs"
    using pool_running_update [of k "at_time now s" s' Exited] leave by auto
  then have "set (pool_running s') \<subseteq> set (pool_running s)" by auto
  then show ?thesis using assms(1) leave by (auto simp: in_time_def)
qed

lemma in_time_wait:
  assumes "in_time D t0 n (length (started ls)) s now busy" and "pool_inv body items n ls s" and "0 < n" and "0 \<le> D"
    and "pl_queue s = [] \<or> Idle \<notin> set (pl_workers s)" and "\<forall>(i, p) \<in> set (pool_running s). now' \<le> busy i"
  shows "in_time D t0 n (length (started ls)) s now' busy"
proof -
  have "now' \<le> t0 + int (length (started ls) div n) * D" if q: "pl_queue s \<noteq> []"
  proof -
    obtain i p where i: "(i, p) \<in> set (pool_running s)" "i + n \<le> length (started ls)"
      using busy_pool [OF assms(2) q _ assms(3)] assms(5) q by blast
    then obtain d where "within d p" "busy i + d \<le> t0 + (int (i div n) + 1) * D" using in_timeD [OF assms(1)] by blast
    moreover have "now' \<le> busy i" using assms(6) i(1) by blast
    ultimately have "now' \<le> t0 + (int (i div n) + 1) * D" using within_nonneg by fastforce
    also have "\<dots> = t0 + int ((i + n) div n) * D" using assms(3) by (simp add: div_add_self2 add.commute)
    also have "\<dots> \<le> t0 + int (length (started ls) div n) * D" by (rule round_mono [OF assms(4) i(2)])
    finally show ?thesis .
  qed
  then show ?thesis using assms(1,6) by (auto simp: in_time_def)
qed

lemma in_time_end:
  assumes "in_time D t0 n m s now busy" and "pool_inv body items n ls s" and "pool_running s \<noteq> []" and "0 \<le> D"
    and "\<forall>(i, p) \<in> set (pool_running s). now' \<le> busy i"
  shows "now' \<le> t0 + (int ((length items - 1) div n) + 1) * D"
proof -
  obtain i p where i: "(i, p) \<in> set (pool_running s)" using assms(3) by (metis list.set_intros(1) neq_Nil_conv surj_pair)
  then obtain d where "within d p" "busy i + d \<le> t0 + (int (i div n) + 1) * D" using in_timeD [OF assms(1)] by blast
  moreover have "now' \<le> busy i" using assms(5) i by blast
  ultimately have "now' \<le> t0 + (int (i div n) + 1) * D" using within_nonneg by fastforce
  moreover have "i < length items" using running_indices(2) [OF assms(2) i] assms(2) by (simp add: pool_inv_def)
  then have "t0 + int (i div n) * D \<le> t0 + int ((length items - 1) div n) * D" by (intro round_mono [OF assms(4)]) simp
  ultimately show ?thesis by (simp add: algebra_simps)
qed

theorem timed_run_bound:
  assumes "timed_run body (pool_init workers items w) t0 ls s now busy" and "0 < sint workers" and "0 \<le> D"
    and "\<And>x. x \<in> set items \<Longrightarrow> within D (body x)"
  defines "n \<equiv> actual_workers workers (length items)"
  shows "pool_inv body items n ls s \<and> in_time D t0 n (length (started ls)) s now busy
    \<and> now \<le> t0 + (int ((length items - 1) div n) + 1) * D"
  using assms(1)
proof (induction rule: timed_run.induct)
  case timed_start
  have "pool_running (pool_init workers items w) = []" by (simp add: pool_running_def pool_init_def)
  then show ?case using pool_inv_init [of body items workers w] assms(3) by (simp add: n_def in_time_def)
next
  case (timed_move ls s now busy l s')
  then have "pool_inv body items n (ls @ [l]) s'" using pool_inv_step [of body items n ls "at_time now s" l s'] by simp
  moreover have "in_time D t0 n (length (started (ls @ [l]))) s' now (busy_after l now (h_clock (pl_world s')) busy)"
    using timed_move by (intro in_time_move [OF _ _ timed_move.hyps(2)]) (use assms(3,4) in auto)
  ultimately show ?case using timed_move by simp
next
  case (timed_wait ls s now busy now')
  have n: "0 < n" unfolding n_def using actual_workers_pos [OF assms(2)] .
  show ?case
    using timed_wait.IH in_time_wait [OF _ _ n assms(3) timed_wait.hyps(3,5)] in_time_end [OF _ _ timed_wait.hyps(2) assms(3) timed_wait.hyps(5)]
    by blast
qed

text \<open>Time never stands still for good: an unfinished pool can move, or wait for the next answer.\<close>

lemma running_worker:
  assumes "(i, p) \<in> set (pool_running s)"
  obtains k where "k < length (pl_workers s)" and "pl_workers s ! k = Running i p"
  using assms that by (auto simp: pool_running_def running_def in_set_conv_nth split: worker.splits)

lemma answer_moves:
  assumes "(i, p) \<in> set (pool_running s)" and "busy i \<le> now"
  shows "\<exists>l s'. pool_step body (at_time now s) l s' \<and> answered busy now l"
proof -
  obtain k where k: "k < length (pl_workers s)" "pl_workers s ! k = Running i p" using running_worker [OF assms(1)] .
  show ?thesis
  proof (cases p)
    case (Ret e)
    then show ?thesis
      using pool_step.complete [of k "at_time now s" i e body] k assms(2) by fastforce
  next
    case (Step f)
    obtain q w' where "f (pl_world (at_time now s)) = (q, w')" by fastforce
    then show ?thesis
      using pool_step.work [of k "at_time now s" i f q w' body] k assms(2) Step by fastforce
  qed
qed

lemma timed_run_goes_on:
  assumes run: "timed_run body s0 t0 ls s now busy" and "\<not> pool_finished s"
  shows "\<exists>now' \<ge> now. timed_run body s0 t0 ls s now' busy \<and> (\<exists>l s'. pool_step body (at_time now' s) l s' \<and> answered busy now' l)"
proof -
  consider (answer) i p where "(i, p) \<in> set (pool_running s)" "busy i \<le> now"
    | (send) "pl_queue s \<noteq> []" "Idle \<in> set (pl_workers s)"
    | (rest) "\<forall>(i, p) \<in> set (pool_running s). now < busy i" "pl_queue s = [] \<or> Idle \<notin> set (pl_workers s)"
    by fastforce
  then show ?thesis
  proof cases
    case (answer i p)
    then show ?thesis using answer_moves [of i p s busy now body] run by blast
  next
    case send
    obtain k where "k < length (pl_workers s)" "pl_workers s ! k = Idle" using send(2) by (auto simp: in_set_conv_nth)
    moreover obtain i x q where "pl_queue s = (i, x) # q" using send(1) by (cases "pl_queue s") auto
    ultimately show ?thesis using pool_step.dispatch [of "at_time now s" i x q k body] run by fastforce
  next
    case rest
    show ?thesis
    proof (cases "pool_running s = []")
      case False
      let ?now = "Min (busy ` fst ` set (pool_running s))"
      have "now \<le> ?now" using rest(1) False by (subst Min_ge_iff) auto
      moreover have "\<forall>(i, p) \<in> set (pool_running s). ?now \<le> busy i" by (auto intro!: Min_le) (metis fst_conv imageI)
      ultimately have waited: "timed_run body s0 t0 ls s ?now busy" using timed_wait [OF run False rest(2)] by blast
      have "?now \<in> busy ` fst ` set (pool_running s)" using False by (intro Min_in) auto
      then obtain i p where "(i, p) \<in> set (pool_running s)" "busy i \<le> ?now" by auto
      then show ?thesis using waited \<open>now \<le> ?now\<close> answer_moves [of i p s busy ?now body] by blast
    next
      case True
      obtain k where k: "k < length (pl_workers s)" "pl_workers s ! k \<noteq> Exited"
        using assms(2) by (auto simp: pool_finished_def list_all_length)
      have "running (pl_workers s ! k) = []" using True nth_mem [OF k(1)] by (simp add: pool_running_def)
      then have idle: "pl_workers s ! k = Idle" using k(2) by (cases "pl_workers s ! k") simp_all
      then have "pl_queue s = []" using rest(2) k(1) nth_mem by fastforce
      then show ?thesis
        using pool_step.close [of "at_time now s" body] pool_step.leave [of "at_time now s" k body] k(1) idle run
        by (cases "pl_closed s") fastforce+
    qed
  qed
qed

text \<open>Every timed run can be brought to its end.\<close>

theorem timed_run_finishes:
  assumes "timed_run body s0 t0 ls s now busy"
  shows "\<exists>ls' s' now' busy'. timed_run body s0 t0 ls' s' now' busy' \<and> pool_finished s'"
  using assms
proof (induction "(body, s)" arbitrary: ls s now busy rule: wf_induct_rule [OF wf_pool_order])
  case (1 s ls now busy)
  show ?case
  proof (cases "pool_finished s")
    case False
    obtain now' l s' where wait: "timed_run body s0 t0 ls s now' busy" and step: "pool_step body (at_time now' s) l s'" "answered busy now' l"
      using timed_run_goes_on [OF "1.prems" False] by blast
    have "((body, s'), (body, at_time now' s)) \<in> pool_order" by (rule pool_step_decreases [OF step(1)])
    then have "((body, s'), (body, s)) \<in> pool_order"
      by (simp add: pool_order_def pool_progs_def pool_rest_def)
    then show ?thesis using "1.hyps" timed_move [OF wait step] by blast
  qed (use "1.prems" in blast)
qed

end
