(* ===== verification/Lease_Time.thy ===== *)
theory Lease_Time
  imports Record_Time Pool_Time
begin

text \<open>
  How long a batch of the publisher takes, and what the guard of cmd/outbox-publisher makes of it. A call is
  timely if it ends by the timeout of its context; a batch is timed by \<open>Pool_Time\<close>.
\<close>

section \<open>Timely surroundings\<close>

definition timely :: "(ctx \<Rightarrow> 'z host_scheme \<Rightarrow> 'a \<times> 'z host_scheme) \<Rightarrow> bool" where
  "timely g \<longleftrightarrow> (\<forall>ctx d w. 0 \<le> sint d \<longrightarrow>
     h_clock w \<le> h_clock (snd (g (with_timeout ctx d) w)) \<and> h_clock (snd (g (with_timeout ctx d) w)) \<le> h_clock w + sint d)"

locale timely_publisher =
  fixes p :: "('z host_scheme) publisher"
  assumes claim_time: "timely (\<lambda>ctx. or_Claim (p_repository p) ctx owner limit lease)"
    and count_time: "timely (or_PendingCount (p_repository p))"
    and publish_time: "timely (\<lambda>ctx. p_producer p ctx topic key val envelope)"
    and mark_time: "timely (\<lambda>ctx. or_MarkPublished (p_repository p) ctx i owner)"
    and release_time: "timely (\<lambda>ctx. or_Release (p_repository p) ctx i owner message t)"
    and reject_time: "timely (\<lambda>ctx. or_MarkFailed (p_repository p) ctx i owner message)"
begin

lemma timeouts: "sint DatabaseTimeout = 5000000000" "sint PublishTimeout = 10000000000"
  by (simp_all add: DatabaseTimeout_def PublishTimeout_def second_def)

lemma within_timely:
  assumes "timely g" and "0 \<le> sint d" and "\<And>b. within d2 (k b)"
  shows "within (sint d + d2) (call (g (with_timeout ctx d)) k)"
  using assms by (intro within_call) (auto simp: timely_def)

lemma within_database: "timely g \<Longrightarrow> (\<And>b. within 0 (k b)) \<Longrightarrow> within 5000000000 (call (g (with_timeout ctx DatabaseTimeout)) k)"
  using within_timely [of g DatabaseTimeout 0 k ctx] by (simp add: timeouts)

lemma fail_within: "within 15000000000 (failPermanently host_runtime C p ctx ev res cause)"
proof -
  have "within 5000000000 (failPermanently host_runtime C p ctx ev res cause)"
    unfolding failPermanently_def
    by (rule within_database [OF reject_time]) (auto intro!: within_count within_Ret split: option.split)
  then show ?thesis by (rule within_mono) simp
qed

lemma valid_within: "within 15000000000 (publishValid host_runtime C p ctx ev topic envelope)"
proof -
  have mark: "within 5000000000 (call (or_MarkPublished (p_repository p) (with_timeout ctx DatabaseTimeout) i owner)
      (\<lambda>marked. case marked of Some err \<Rightarrow> Ret (Some err) | None \<Rightarrow> act (rt_count host_runtime m) (Ret None)))" for i owner m
    by (rule within_database [OF mark_time]) (auto intro!: within_count within_Ret split: option.split)
  have release: "within 5000000000 (call (or_Release (p_repository p) (with_timeout ctx DatabaseTimeout) i owner message t)
      (\<lambda>released. case released of Some releaseErr \<Rightarrow> Ret (Some (f releaseErr)) | None \<Rightarrow> act (rt_count host_runtime m) (Ret e)))"
    for i owner message t f m e
    by (rule within_database [OF release_time]) (auto intro!: within_count within_Ret split: option.split)
  have "within (sint PublishTimeout + 5000000000) (publishValid host_runtime C p ctx ev topic envelope)"
    unfolding publishValid_def Let_def
  proof (rule within_timely [OF publish_time])
    fix s :: "goerr option"
    show "within 5000000000 (case s of
        Some err \<Rightarrow> call (rt_now host_runtime) (\<lambda>now.
          call (or_Release (p_repository p) (with_timeout ctx DatabaseTimeout) (ev_ID ev) (p_owner p)
            (err_string C err) (time_add now (exponentialBackoff (ev_Attempts ev) second minute)))
            (\<lambda>released. case released of
                Some releaseErr \<Rightarrow> Ret (Some (wrapf ''publish and release outbox event: '' (errors_join (Some err) releaseErr)))
              | None \<Rightarrow> act (rt_count host_runtime (OutboxPublished ''failed'')) (Ret (Some err))))
      | None \<Rightarrow> call (or_MarkPublished (p_repository p) (with_timeout ctx DatabaseTimeout) (ev_ID ev) (p_owner p))
          (\<lambda>marked. case marked of Some err \<Rightarrow> Ret (Some err)
             | None \<Rightarrow> act (rt_count host_runtime (OutboxPublished ''success'')) (Ret None)))"
    proof (cases s)
      case None
      then show ?thesis by (simp only: option.case) (rule mark)
    next
      case (Some err)
      show ?thesis unfolding Some option.case by (intro within_still release) simp
    qed
  qed (simp add: timeouts)
  then show ?thesis by (simp add: timeouts)
qed

lemma job_within: "within 15000000000 (job_body host_runtime ctx (publishOne host_runtime C p) ev)"
proof -
  have "within 15000000000 (publishOne host_runtime C p ctx ev)"
    by (cases rule: publishOne_cases [of C p ev host_runtime ctx]) (metis valid_within, metis fail_within)
  then show ?thesis
    unfolding job_body_def by (intro within_still) (auto intro: within_Ret split: option.split)
qed

text \<open>A publisher's pool is done after its rounds.\<close>

lemma pool_time:
  assumes "timed_run (job_body host_runtime ctx (publishOne host_runtime C p)) (pool_init workers claimed w) t0 ls st now busy"
    and "0 < sint workers"
  shows "now \<le> t0 + (int ((length claimed - 1) div actual_workers workers (length claimed)) + 1) * 15000000000"
  by (rule conjunct2 [OF conjunct2 [OF timed_run_bound [OF assms _ job_within]]]) simp

end

section \<open>The publisher's own calls, and slow ones\<close>

lemma timely_still: "(\<And>ctx w. same_clock w (snd (g ctx w))) \<Longrightarrow> timely g"
  by (simp add: timely_def same_clock_def)

interpretation publisher_time: timely_publisher "node_publisher P C config" for P C config
  by unfold_locales
     (auto intro!: timely_still simp: MarkPublished_def Release_def MarkFailed_def PendingCount_def exec_owned_same_clock
       query_same_clock [OF prod.collapse [symmetric]] Claim_same_clock [OF prod.collapse [symmetric]]
       Publish_same_clock [OF prod.collapse [symmetric]])

text \<open>A repository and a producer that answer at the last moment.\<close>

definition slow_repository :: "outbox_event list \<Rightarrow> host outbox_repository" where
  "slow_repository evs = \<lparr>or_Claim = (\<lambda>ctx owner limit lease w. (Inr evs, spend ctx w)),
     or_MarkPublished = (\<lambda>ctx i owner w. (None, spend ctx w)), or_Release = (\<lambda>ctx i owner message t w. (None, spend ctx w)),
     or_MarkFailed = (\<lambda>ctx i owner message w. (None, spend ctx w)), or_PendingCount = (\<lambda>ctx w. (Inr 1, spend ctx w))\<rparr>"

definition slow_publisher :: "outbox_event list \<Rightarrow> publisher_config \<Rightarrow> host publisher" where
  "slow_publisher evs = NewPublisher (slow_repository evs) (\<lambda>ctx topic key val envelope w. (None, spend ctx w))"

lemma timely_spend: "timely (\<lambda>ctx w. (a, spend ctx w))"
  by (simp add: timely_def)

interpretation slow_publisher: timely_publisher "slow_publisher evs config" for evs config
  by unfold_locales (simp_all add: slow_publisher_def slow_repository_def NewPublisher_def timely_spend)

section \<open>Properties\<close>

lemma rounds_fit:
  assumes "0 < sint workers" and "0 < b" and "int n \<le> b"
  shows "int ((n - 1) div actual_workers workers n) + 1 \<le> (b + sint workers - 1) div sint workers"
proof -
  let ?w = "sint workers"
  have one: "1 \<le> (b + ?w - 1) div ?w" using assms(1,2) zdiv_mono1 [of ?w "b + ?w - 1" ?w] by simp
  show ?thesis
  proof (cases "int n \<le> ?w")
    case True
    then have "(n - 1) div actual_workers workers n = 0"
      using assms(1) by (cases n) (simp_all add: actual_workers_def min_def nat_add_distrib)
    then show ?thesis using one by simp
  next
    case False
    then have "actual_workers workers n = nat ?w" by (simp add: actual_workers_def)
    then have "int ((n - 1) div actual_workers workers n) = (int n - 1) div ?w"
      using False assms(1) by (simp add: zdiv_int of_nat_diff)
    then have "int ((n - 1) div actual_workers workers n) + 1 = (int n - 1 + 1 * ?w) div ?w"
      using assms(1) by (subst div_mult_self1) simp_all
    also have "\<dots> \<le> (b + ?w - 1) div ?w" using assms(1,3) by (intro zdiv_mono1) simp_all
    finally show ?thesis .
  qed
qed

text \<open>
  C35. The lease the publisher accepts covers its pool, however slow PostgreSQL and Kafka are, as long as each
  call ends by the timeout it is given: for batch sizes and worker counts up to a hundred million, all the
  claimed events of a batch have been dealt with at least five seconds before a lease's length after the
  pool has started. The lease runs from the claim itself, and the reply to the claim and the count of
  pending events may take five seconds each before the pool starts: a batch can therefore end up to five
  seconds after its lease, but no later. Every run of the pool can be brought to its end.
\<close>
theorem accepted_lease_covers_the_pool:
  fixes w :: "'z host_scheme"
  defines "body \<equiv> \<lambda>C p ctx. job_body host_runtime ctx (publishOne host_runtime C p)"
  assumes "publisher_settings_of L parse getenv = Inr s"
    and "sint (ps_BatchSize s) \<le> 10 ^ 8" and "sint (ps_Workers s) \<le> 10 ^ 8"
    and "p = NewPublisher repository producer (publisher_config_of getenv owner s)" and "timely_publisher p"
    and "or_Claim (p_repository p) (with_timeout ctx DatabaseTimeout) (p_owner p) (p_batchSize p) (p_lease p) w = (Inr claimed, w1)"
    and "int (length claimed) \<le> sint (p_batchSize p)"
    and "or_PendingCount (p_repository p) (with_timeout ctx DatabaseTimeout) w1 = (counted, w2)"
    and "timed_run (body C p ctx) (pool_init (p_workers p) claimed w2) (h_clock w2) ls st now busy"
  shows "now \<le> h_clock w2 + sint (p_lease p) - 5 * 10 ^ 9 \<and> now \<le> h_clock w + sint (p_lease p) + 5 * 10 ^ 9
    \<and> (\<exists>ls' st' now' busy'. timed_run (body C p ctx) (pool_init (p_workers p) claimed w2) (h_clock w2) ls' st' now' busy'
         \<and> pool_finished st')"
proof (intro conjI)
  have p: "p_workers p = ps_Workers s" "p_batchSize p = ps_BatchSize s" "p_lease p = ps_Lease s"
    by (simp_all add: assms(5) NewPublisher_def publisher_config_of_def)
  note lease = accepted_lease [OF assms(2-4)]
  let ?r = "int ((length claimed - 1) div actual_workers (ps_Workers s) (length claimed)) + 1"
  have "?r * 15000000000 \<le> (sint (ps_BatchSize s) + sint (ps_Workers s) - 1) div sint (ps_Workers s) * 15000000000"
    using rounds_fit [of "ps_Workers s" "sint (ps_BatchSize s)" "length claimed"] lease assms(8) p by (intro mult_right_mono) simp_all
  moreover have "now \<le> h_clock w2 + ?r * 15000000000"
    using timely_publisher.pool_time [OF assms(6) assms(10) [unfolded body_def]] lease p by simp
  ultimately show pool: "now \<le> h_clock w2 + sint (p_lease p) - 5 * 10 ^ 9" using lease p by simp
  have "h_clock w1 \<le> h_clock w + 5000000000" "h_clock w2 \<le> h_clock w1 + 5000000000"
    using timely_publisher.claim_time [OF assms(6)] timely_publisher.count_time [OF assms(6)] assms(7,9)
      timely_publisher.timeouts(1) [OF assms(6)]
    unfolding timely_def by (metis order_refl snd_conv zero_le_numeral)+
  then show "now \<le> h_clock w + sint (p_lease p) + 5 * 10 ^ 9" using pool by simp
  show "\<exists>ls' st' now' busy'. timed_run (body C p ctx) (pool_init (p_workers p) claimed w2) (h_clock w2) ls' st' now' busy' \<and> pool_finished st'"
    by (rule timed_run_finishes [OF assms(10)])
qed

theorem accepted_lease_covers_the_pool_witness:
  "\<exists>s p ls st now busy. publisher_settings_of C0 sample_parse url_only = Inr s
     \<and> p = slow_publisher [event_of_row claimed_row] (publisher_config_of url_only ''a'' s)
     \<and> timed_run (job_body host_runtime background (publishOne host_runtime C0 p)) (pool_init (p_workers p) [event_of_row claimed_row]
         ((sample_host empty_db [])\<lparr>h_clock := 10004000000\<rparr>)) 10004000000 ls st now busy
     \<and> pool_finished st \<and> now \<le> 10004000000 + 235 * 10 ^ 9"
proof -
  obtain s where s: "publisher_settings_of C0 sample_parse url_only = Inr s" "ps_Workers s = 4" "ps_BatchSize s = 50"
      "sint (ps_Lease s) = 240 * 10 ^ 9"
    using publisher_defaults [OF sample_duration_laws] by blast
  define p where "p = slow_publisher [event_of_row claimed_row] (publisher_config_of url_only ''a'' s)"
  let ?w2 = "(sample_host empty_db [])\<lparr>h_clock := 10004000000\<rparr>"
  let ?body = "job_body host_runtime background (publishOne host_runtime C0 p)"
  have p: "p_workers p = 4" "p_batchSize p = 50" "sint (p_lease p) = 240 * 10 ^ 9"
    by (simp_all add: p_def slow_publisher_def NewPublisher_def publisher_config_of_def s)
  have time: "timely_publisher p" unfolding p_def by (rule slow_publisher.timely_publisher_axioms)
  have new: "p = NewPublisher (slow_repository [event_of_row claimed_row]) (\<lambda>ctx topic key val envelope w. (None, spend ctx w))
      (publisher_config_of url_only ''a'' s)"
    by (simp add: p_def slow_publisher_def)
  have claim: "or_Claim (p_repository p) (with_timeout background DatabaseTimeout) (p_owner p) (p_batchSize p) (p_lease p) (sample_host empty_db [])
      = (Inr [event_of_row claimed_row], (sample_host empty_db [])\<lparr>h_clock := 5004000000\<rparr>)"
    and count: "or_PendingCount (p_repository p) (with_timeout background DatabaseTimeout) ((sample_host empty_db [])\<lparr>h_clock := 5004000000\<rparr>)
      = (Inr 1, ?w2)"
    by (simp_all add: new NewPublisher_def slow_repository_def spend_def with_timeout_def DatabaseTimeout_def second_def sample_host_def)
  have sizes: "sint (ps_BatchSize s) \<le> 10 ^ 8" "sint (ps_Workers s) \<le> 10 ^ 8" "int (length [event_of_row claimed_row]) \<le> sint (p_batchSize p)"
    by (simp_all add: s p)
  note covers = accepted_lease_covers_the_pool [OF s(1) sizes(1,2) new time claim sizes(3) count]
  have clock: "h_clock ?w2 = 10004000000" by simp
  obtain ls st now busy where r: "timed_run ?body (pool_init (p_workers p) [event_of_row claimed_row] ?w2) (h_clock ?w2) ls st now busy"
    and fin: "pool_finished st"
    using covers [OF timed_start] by blast
  have "now \<le> 10004000000 + 235 * 10 ^ 9" using covers [OF r] p(3) clock by simp
  then show ?thesis using s(1) r fin p_def clock by metis
qed

text \<open>
  The guard of cmd/outbox-publisher allows five seconds too little: it accepts one worker, batches of one and
  a lease of 20 s, but with surroundings that keep every timeout the batch can take 25 s from the claim on.
  Another publisher may lease the event again before the first has marked it.
\<close>
theorem lease_guard_allows_five_seconds_too_little:
  defines "getenv \<equiv> \<lambda>name. if name \<in> {''OUTBOX_WORKERS'', ''OUTBOX_BATCH_SIZE''} then ''1''
      else if name = ''OUTBOX_LEASE_DURATION'' then ''20000000000'' else url_only name"
  shows "\<exists>s p w'. publisher_settings_of C0 sample_parse getenv = Inr s
    \<and> p = slow_publisher [event_of_row claimed_row] (publisher_config_of getenv ''a'' s) \<and> timely_publisher p
    \<and> publishBatch sched host_runtime publish_codec p background (sample_host empty_db []) = Some (None, w')
    \<and> h_clock w' = h_clock (sample_host empty_db []) + sint (p_lease p) + 5 * 10 ^ 9"
proof -
  have trims: "trim_space ''1'' = ''1''" "trim_space ''20000000000'' = ''20000000000''" by (simp_all add: ascii_simps)
  have w: "config_Int getenv ''OUTBOX_WORKERS'' 4 = Inr 1" "config_Int getenv ''OUTBOX_BATCH_SIZE'' 50 = Inr 1"
    by (simp_all add: config_Int_def env_def getenv_def trims atoi_def is_digit_def digits_value_def)
  have l: "config_Duration C0 sample_parse getenv ''OUTBOX_LEASE_DURATION'' (4 * minute) = Inr 20000000000"
    by (simp add: config_Duration_def env_def getenv_def trims sample_parse_def atoi_def is_digit_def digits_value_def)
  have poll: "config_Duration C0 sample_parse getenv ''OUTBOX_POLL_INTERVAL'' second = Inr second"
    by (rule config_Duration_default [OF sample_duration_laws]) (simp_all add: getenv_def url_only_def second_def)
  have "\<exists>cfg. LoadCommon getenv ''wb-orders-outbox-publisher'' '':8081'' = Inr cfg"
    by (simp add: LoadCommon_def Let_def env_def getenv_def url_only_def default_brokers)
  then obtain cfg where cfg: "LoadCommon getenv ''wb-orders-outbox-publisher'' '':8081'' = Inr cfg" by blast
  have least: "sint (minimumLease 1 1) = 20000000000" by (subst minimumLease_exact) simp_all
  define s where "s = \<lparr>ps_common = cfg, ps_Workers = 1, ps_BatchSize = 1, ps_Poll = second, ps_Lease = 20000000000\<rparr>"
  have s: "publisher_settings_of C0 sample_parse getenv = Inr s"
    by (simp add: publisher_settings_of_def w l poll cfg least s_def)
  define p where "p = slow_publisher [event_of_row claimed_row] (publisher_config_of getenv ''a'' s)"
  have p: "p_workers p = 1" "p_batchSize p = 1" "p_lease p = 20000000000" "p_repository p = slow_repository [event_of_row claimed_row]"
    "p_producer p = (\<lambda>ctx topic key val envelope w. (None, spend ctx w))"
    "p_topics p = \<lparr>topic_OrderCreated = config_String getenv ''KAFKA_ORDERS_CREATED_TOPIC'' ''wb.orders.created'',
       topic_OrderStatusChanged = config_String getenv ''KAFKA_STATUS_CHANGED_TOPIC'' ''wb.orders.status-changed''\<rparr>"
    by (simp_all add: p_def slow_publisher_def NewPublisher_def publisher_config_of_def s_def)
  obtain topic where "publishable publish_codec (p_topics p) (event_of_row claimed_row) topic publish_envelope"
    using sample_publishable by (auto simp: publishable_def Topics_For_def p(6) config_topics_def split: if_splits)
  note one = publishOne_valid [OF this, where R = host_runtime and ctx = background]
  obtain w' where run: "publishBatch sched host_runtime publish_codec p background (sample_host empty_db []) = Some (None, w')"
    and clock: "h_clock w' = 4000000 + 25000000000"
    by (auto simp: publishBatch_def p slow_repository_def Process_single job_body_def one publishValid_def canceled_by_def
        sample_host_def PublishTimeout_def DatabaseTimeout_def second_def spend_def with_timeout_def)
  have "timely_publisher p" unfolding p_def by (rule slow_publisher.timely_publisher_axioms)
  moreover have "h_clock (sample_host empty_db []) = 4000000" by (simp add: sample_host_def)
  ultimately show ?thesis using s run clock p(3) p_def by (intro exI [of _ s] exI [of _ p] exI [of _ w']) simp
qed

end
