(* ===== verification/Spec2Isabelle.thy ===== *)
theory Spec2Isabelle
  imports Order_Books Stranded_Order Lease_Time
begin

text \<open>
  The order system of this repository: three Go programs around one PostgreSQL database and one Kafka
  cluster. \<open>cmd/order-service\<close> is an HTTP API that stores an order together with an OrderCreated event (the
  transactional outbox); \<open>cmd/outbox-publisher\<close> claims events under a lease, sends them to Kafka and marks
  them; \<open>cmd/order-worker\<close> consumes them, runs the business operations, and stores the decision together with
  an OrderStatusChanged event, sending what it cannot handle to a retry or a dead letter topic.

  Conventions (Go_Prelude, Go_Strings, Go_Prog). int, int32, int64 and time.Duration are words read with
  \<open>sint\<close>; \<open>+\<close> and \<open>*\<close> wrap and division is Go's (\<open>quot64\<close>). time.Time is an \<open>int\<close> of nanoseconds with 0 for
  the zero time, a UUID is a 128 bit word, a string a list of bytes (with UTF-8 decoding as Go does it). An
  error is a value \<open>goerr\<close>: the chain of the sentinels it wraps and its text; a call that can fail returns
  \<open>goerr + 'a\<close> or \<open>goerr option\<close>. The services of the run time (clock, UUIDs, context, timers, metrics) are a
  record \<open>runtime\<close> over the state 'w of the world. Code that runs beside other code is a program (\<open>prog\<close>) of
  atomic steps, so that other goroutines may move between any two interactions with the world.

  The database (Database, Host). A table is the list of its rows (\<open>db\<close>); \<open>db_ok\<close> is the conjunction of the
  keys, foreign keys and CHECKs of migrations/000001_init.up.sql. Every statement is a function on the
  tables that succeeds or reports a violation. Every round trip consults a plan: it is answered, or lost before
  it has an effect, or it takes effect and its answer is lost; the plan is arbitrary in the theorems, so they
  hold whatever fails. \<open>host\<close> adds a clock, ids and metrics, \<open>node\<close> (Kafka_Producer) a broker's log with a plan of
  its own, \<open>consumer_node\<close> (Consumer_Node) the polls, and the committed offset of each partition: a commit is
  cumulative, as Kafka's are.

  Components, in the order of the code:
    Order_Model       internal/order/model.go: validation with its checked int64 total, New, the payloads
    Event_Envelope    internal/event/envelope.go: New and Validate; the JSON codec is an argument
    Order_Store       internal/order/postgres.go and service.go: CreateWithEvent, Get, Service; the locale
                      \<open>order_store\<close> is the contract of the interface Store, interpreted on the PostgreSQL store
    Outbox_Repo       internal/outbox/model.go and postgres.go: Claim, MarkPublished, Release, MarkFailed
    Worker_Pool       internal/workerpool/pool.go: \<open>pool_step\<close>, its executable schedules, the locale \<open>pool_handler\<close>
    Kafka_Producer    internal/platform/kafka: records, the producer, the options of both clients
    Outbox_Publisher  internal/outbox/publisher.go: publishOne, publishBatch, Run, the back-off in float64; the
                      locale \<open>outbox_contract\<close>, interpreted on PostgreSQL and the broker
    Processing        internal/processing: the three operations and the concurrent fan-out (\<open>fanout_step\<close>)
                      over a channel of the capacity the code gives it; the locale \<open>pipeline\<close>, interpreted on
                      the operations of the worker
    Consumer_Repo     internal/consumer/postgres.go: IsProcessed, Complete
    Consumer, Consumer_Node  internal/consumer/consumer.go: processRecord with retry and DLQ routing, the batch,
                      the loop; the locale \<open>record_contract\<close> is what one batch relies on and \<open>consumer_contract\<close>
                      adds polling and committing, both interpreted on the worker's surroundings
    Http_Server, Order_Http  the part of net/http in use; internal/order/http.go: handlers, middlewares, routes
    Platform          internal/platform: config, logging (levels), database, health, shutdown
    Commands          the three \<open>run\<close> functions: settings, guards, set up, deferred calls, exit code; and
                      what the API's metrics count once the operational handler is mounted
  and across them:
    Record_Time       how long one record can keep a worker busy (locale \<open>timely_consumer\<close>)
    Pool_Time         how long a pool takes when each item takes at most some time (\<open>timed_run\<close>)
    Lease_Time        the same for the publisher's events, against the lease its program accepts (locale
                      \<open>timely_publisher\<close>)
    Orders_System     the three programs on one database: \<open>shop_run\<close> is any interleaving of their transactions;
                      its refinement of an abstract \<open>ledger\<close> of orders and announcements
    Order_Books       what the stored orders and items say of each other in every such run
    Order_Flow        one order from the request to its decision when nothing fails
    Stranded_Order    an order whose request id JSON cannot carry, which never gets that far

  What the lemmas show. For every operation its outcome on every branch (\<open>..._cases\<close>, \<open>..._spec\<close>, \<open>..._Inr\<close>), that
  it keeps \<open>db_ok\<close> (\<open>..._keeps\<close>), what it leaves alone (\<open>..._frame\<close>), and that it succeeds when nothing fails
  (\<open>..._quiet\<close>). For goroutines, that every interleaving ends and has the same result as the specification. The
  properties, each after a block with its number, are built from these.

  Loops and bounds. Structural or measured recursion wherever the Go loop is bounded; \<open>runes\<close> and
  the trims recurse on shorter suffixes. The run of a pool and of a fan-out follows a schedule until no move is
  left; both are shown to end under every schedule, so no fuel is involved. Publisher.Run and Consumer.Run are
  partial functions into option: None means that the loop does not return; Consumer_Run_returns and
  Publisher_Run_keeps_outbox_and_log show that both do once their context is to end. The publisher's
  \<open>select\<close> is an argument (\<open>tick\<close>), for that theorem \<open>wait_tick\<close>: a timer
  of the poll interval, beside which the rest of the system works on the database. \<open>timed_run\<close> is a
  pool's run in time: the calls of different workers overlap, each lasts as long as it moves the clock, and what
  the pool itself does takes no time. \<open>Wait\<close> reads the events up to the second result; None means
  still waiting.

  Assumptions stated as hypotheses: what JSON and JSONB carry (\<open>codec_laws\<close>,
  \<open>travels\<close>), that a driver's error is none of the code's sentinels (\<open>foreign_reply\<close>),
  \<open>pg_laws\<close> of the server's rounding of times, and in Record_Time and Lease_Time that a call ends
  by its deadline, in Consumer_Run_returns that a partition is delivered in order, and in Stranded_Order what
  JSON makes of bytes that are not UTF-8 (\<open>stored_as\<close>). A transaction is one step of
  \<open>shop_run\<close>: the row locks the code takes (FOR UPDATE, FOR UPDATE SKIP LOCKED) make its
  transactions on one order or event take effect one by one, and rows locked by others are the
  \<open>sv_locked\<close> a claim skips.

  Not modelled. Logging beyond the level; the text of JSON, of UUIDs, durations and times (arguments with laws);
  the internals of pgx, franz-go, prometheus and net/http (connections, batching, rebalancing, ServeMux's
  redirects of unclean paths); signal.NotifyContext, which is the event RootDone; panics other than the worker
  count's; the indexes of the schema and the down migration; tests, docs, docker and deployment files.
\<close>

end
